(* ===== verification/Prelude.thy ===== *)
theory Prelude
  imports Main "HOL-Library.Word" "HOL-Library.Signed_Division" "HOL-Library.Monad_Syntax"
begin

text \<open>
  What the components share: the C++ data the library handles (bytes, \<open>int\<close> at its width,
  NUL-terminated strings, the two \<open>printf\<close>/\<open>scanf\<close> conversions it uses) and a small
  calculus for programs that may have no defined result.

  A program that may loop for ever or run into undefined behaviour has a result of type
  \<open>'a option\<close>: \<open>None\<close> says that the code does not return a defined value. The predicate
  \<open>post\<close> is the partial correctness of such a program; its rules are collected in
  \<open>vc\<close>, so that a frame of a long handler is one \<open>intro\<close> over its branches; \<open>yields\<close> and the rules in
  \<open>tc\<close> do the same for the claim that it returns. What an operation
  adds to a frame is a rule in \<open>frame_back\<close>: from the equation of the operation and the frame before
  it, the frame after it; as simplification rules they walk a branch from its end to its start.
\<close>

named_theorems vc \<open>rules of the partial correctness calculus\<close>
named_theorems tc \<open>rules of the total correctness calculus\<close>
named_theorems run \<open>the definitions a worked example unfolds\<close>
named_theorems frame_back \<open>what one operation adds to a frame, from its equation backwards\<close>

subsection \<open>Bytes, strings and \<open>int\<close>\<close>

type_synonym byte = "8 word"

definition bytes_of :: "string \<Rightarrow> byte list" where
  "bytes_of s = map of_char s"

lemma length_bytes_of [simp]: "length (bytes_of s) = length s"
  by (simp add: bytes_of_def)

lemma bytes_of_Nil [simp]: "bytes_of [] = []"
  by (simp add: bytes_of_def)

lemma bytes_of_append [simp]: "bytes_of (s @ t) = bytes_of s @ bytes_of t"
  by (simp add: bytes_of_def)

lemma bytes_of_eq_Nil [simp]: "bytes_of s = [] \<longleftrightarrow> s = []"
  by (simp add: bytes_of_def)

text \<open>What a caller sees of a \<open>std::string\<close> through \<open>c_str()\<close>: it ends at the first NUL.\<close>

definition c_str :: "byte list \<Rightarrow> byte list" where
  "c_str bs = takeWhile (\<lambda>b. b \<noteq> 0) bs"

lemma c_str_id: "0 \<notin> set bs \<Longrightarrow> c_str bs = bs"
  unfolding c_str_def takeWhile_eq_all_conv by auto

text \<open>The conversion of a value to the 32-bit \<open>int\<close> (two's complement wrap-around).\<close>

definition int32 :: "int \<Rightarrow> int" where
  "int32 n = sint (word_of_int n :: 32 word)"

lemma int32_id: "- (2 ^ 31) \<le> n \<Longrightarrow> n < 2 ^ 31 \<Longrightarrow> int32 n = n"
  by (simp add: int32_def sint_sbintrunc' signed_take_bit_int_eq_self)

lemma int32_range: "- (2 ^ 31) \<le> int32 n \<and> int32 n < 2 ^ 31"
  using sint_range_size [of "word_of_int n :: 32 word"] by (simp add: int32_def size_word_def)

lemma int32_cong: "n mod 2 ^ 32 = m mod 2 ^ 32 \<Longrightarrow> int32 n = int32 m"
proof -
  assume "n mod 2 ^ 32 = m mod 2 ^ 32"
  then have "(word_of_int n :: 32 word) = word_of_int m"
    by (simp add: word_of_int_eq_iff take_bit_eq_mod)
  then show ?thesis by (simp add: int32_def)
qed

text \<open>A (pointer, \<open>strlen\<close>) pair whose length went through an \<open>int\<close>.\<close>

definition c_slice :: "byte list \<Rightarrow> byte list" where
  "c_slice bs = take (nat (int32 (int (length bs)))) bs"

lemma c_slice_id: "length bs < 2 ^ 31 \<Longrightarrow> c_slice bs = bs"
  by (simp add: c_slice_def int32_id)

text \<open>A \<open>char\<close> read as an \<open>int\<close>: sign-extended where plain \<open>char\<close> is signed.\<close>

definition char_int :: "bool \<Rightarrow> byte \<Rightarrow> int" where
  "char_int sg b = (if sg then sint b else uint b)"

lemma char_int_range: "- 128 \<le> char_int sg b \<and> char_int sg b < 256"
proof -
  have s: "- (2 ^ 7) \<le> sint b \<and> sint b < 2 ^ 7"
    using sint_range_size [of b] by (simp add: size_word_def)
  have u: "0 \<le> uint b \<and> uint b < 2 ^ 8"
    using uint_range_size [of b] by (simp add: size_word_def)
  show ?thesis
  proof (cases sg)
    case True
    with s show ?thesis by (simp add: char_int_def)
  next
    case False
    have "- 128 \<le> uint b" using u by linarith
    with False u show ?thesis unfolding char_int_def by simp
  qed
qed

lemma char_int_small: "l < 128 \<Longrightarrow> char_int sg l = int (unat l)"
proof -
  assume l: "l < 128"
  then have u: "uint l < 128" by (simp add: word_less_def)
  have "0 \<le> uint l" by simp
  then have "- 128 \<le> uint l" by linarith
  then have "signed_take_bit 7 (uint l) = uint l" using u by (intro signed_take_bit_int_eq_self) simp_all
  then have "sint l = uint l" by (simp add: sint_uint)
  then show ?thesis by (simp add: char_int_def)
qed

subsection \<open>\<open>snprintf\<close> with \<open>%d\<close> and \<open>sscanf\<close> with \<open>%d\<close>\<close>

fun dec_nat :: "nat \<Rightarrow> string" where
  "dec_nat n = (if n < 10 then [char_of (48 + n)]
                else dec_nat (n div 10) @ [char_of (48 + n mod 10)])"

declare dec_nat.simps [simp del]

definition dec_int :: "int \<Rightarrow> string" where
  "dec_int i = (if i < 0 then CHR ''-'' # dec_nat (nat (- i)) else dec_nat (nat i))"

text \<open>\<open>snprintf(buf, n, ...)\<close> stores at most \<open>n - 1\<close> characters before the NUL.\<close>

definition snprintf :: "nat \<Rightarrow> string \<Rightarrow> string" where
  "snprintf n s = take (n - 1) s"

lemma snprintf_id: "length s < n \<Longrightarrow> snprintf n s = s"
  by (simp add: snprintf_def)

text \<open>\<open>sscanf(s, "%d", &n)\<close>: white space, an optional sign, digits; \<open>None\<close> leaves \<open>n\<close> alone.\<close>

definition is_space :: "byte \<Rightarrow> bool" where
  "is_space b = (b = 32 \<or> (9 \<le> b \<and> b \<le> 13))"

definition is_digit :: "byte \<Rightarrow> bool" where
  "is_digit b = (48 \<le> b \<and> b \<le> 57)"

definition digits_value :: "byte list \<Rightarrow> nat" where
  "digits_value ds = fold (\<lambda>d acc. 10 * acc + (unat d - 48)) ds 0"

definition scan_nat :: "byte list \<Rightarrow> nat option" where
  "scan_nat bs = (let ds = takeWhile is_digit bs
                  in if ds = [] then None else Some (digits_value ds))"

definition scan_int :: "byte list \<Rightarrow> int option" where
  "scan_int bs =
     (case dropWhile is_space bs of
        [] \<Rightarrow> None
      | b # cs \<Rightarrow>
          (if b = 45 then map_option (\<lambda>n. - int n) (scan_nat cs)
           else if b = 43 then map_option int (scan_nat cs)
           else map_option int (scan_nat (b # cs))))"

lemma digits_value_snoc: "digits_value (ds @ [d]) = 10 * digits_value ds + (unat d - 48)"
  by (simp add: digits_value_def)

lemma of_char_digit: "n < 10 \<Longrightarrow> (of_char (char_of (48 + n)) :: byte) = word_of_nat (48 + n)"
proof -
  assume "n < 10"
  then have "(of_char (char_of (48 + n :: nat)) :: nat) = 48 + n" by simp
  then have "(of_nat (of_char (char_of (48 + n :: nat)) :: nat) :: byte) = of_nat (48 + n)" by simp
  then show ?thesis by (simp only: of_nat_of_char)
qed

lemma unat_digit: "n < 10 \<Longrightarrow> unat (word_of_nat (48 + n) :: byte) = 48 + n"
  by (simp only: unat_of_nat) simp

lemma is_digit_digit: "n < 10 \<Longrightarrow> is_digit (word_of_nat (48 + n))"
  using unat_digit [of n] unfolding is_digit_def word_le_nat_alt by simp

lemma dec_nat_digits: "\<forall>d \<in> set (bytes_of (dec_nat n)). is_digit d"
proof (induction n rule: dec_nat.induct)
  case (1 n)
  show ?case
  proof (cases "n < 10")
    case True
    then show ?thesis
      by (subst dec_nat.simps) (simp add: bytes_of_def of_char_digit is_digit_digit del: of_nat_add)
  next
    case False
    with 1 show ?thesis
      by (subst dec_nat.simps) (simp add: bytes_of_def of_char_digit is_digit_digit ball_Un del: of_nat_add)
  qed
qed

lemma dec_nat_nonempty [simp]: "dec_nat n \<noteq> []"
  by (subst dec_nat.simps) simp

lemma digits_value_dec_nat: "digits_value (bytes_of (dec_nat n)) = n"
proof (induction n rule: dec_nat.induct)
  case (1 n)
  show ?case
  proof (cases "n < 10")
    case True
    then show ?thesis
      by (subst dec_nat.simps) (simp add: bytes_of_def of_char_digit digits_value_def unat_digit del: of_nat_add)
  next
    case False
    with 1 show ?thesis
      by (subst dec_nat.simps)
        (simp add: bytes_of_def of_char_digit digits_value_snoc unat_digit del: of_nat_add)
  qed
qed

lemma scan_nat_dec_nat:
  assumes "rest = [] \<or> \<not> is_digit (hd rest)"
  shows "scan_nat (bytes_of (dec_nat n) @ rest) = Some n"
proof -
  have "takeWhile is_digit (bytes_of (dec_nat n) @ rest) = bytes_of (dec_nat n)"
    using assms dec_nat_digits [of n] by (cases rest) (auto simp: takeWhile_append)
  then show ?thesis by (simp add: scan_nat_def digits_value_dec_nat)
qed

text \<open>What \<open>%d\<close> prints, \<open>%d\<close> reads back.\<close>

lemma scan_int_dec_int:
  assumes "rest = [] \<or> \<not> is_digit (hd rest)"
  shows "scan_int (bytes_of (dec_int i) @ rest) = Some i"
proof (cases "i < 0")
  case True
  then show ?thesis
    using scan_nat_dec_nat [OF assms, of "nat (- i)"]
    by (simp add: dec_int_def scan_int_def bytes_of_def is_space_def)
next
  case False
  obtain d ds where d: "bytes_of (dec_nat (nat i)) = d # ds"
    by (cases "bytes_of (dec_nat (nat i))") auto
  have "is_digit d" using dec_nat_digits [of "nat i"] d by simp
  then have "\<not> is_space d" "d \<noteq> 45" "d \<noteq> 43"
    by (auto simp: is_digit_def is_space_def word_le_nat_alt)
  with False d show ?thesis
    using scan_nat_dec_nat [OF assms, of "nat i"] by (simp add: dec_int_def scan_int_def)
qed

lemma length_dec_nat: "n < 10 ^ Suc k \<Longrightarrow> length (dec_nat n) \<le> Suc k"
proof (induction k arbitrary: n)
  case 0
  then show ?case by (subst dec_nat.simps) simp
next
  case (Suc k)
  show ?case
  proof (cases "n < 10")
    case True
    then show ?thesis by (subst dec_nat.simps) simp
  next
    case False
    have "n div 10 < 10 ^ Suc k"
      using Suc.prems by (simp add: less_mult_imp_div_less)
    from Suc.IH [OF this] False show ?thesis by (subst dec_nat.simps) simp
  qed
qed

lemma length_dec_int: "- (2 ^ 31) \<le> i \<Longrightarrow> i < 2 ^ 31 \<Longrightarrow> length (dec_int i) \<le> 11"
proof -
  assume "- (2 ^ 31) \<le> i" "i < 2 ^ 31"
  then have "nat i < 10 ^ Suc 9" "nat (- i) < 10 ^ Suc 9" by (simp_all add: nat_less_iff)
  then have "length (dec_nat (nat i)) \<le> Suc 9" "length (dec_nat (nat (- i))) \<le> Suc 9"
    by (blast intro: length_dec_nat)+
  then show ?thesis by (simp add: dec_int_def)
qed

subsection \<open>Partial correctness of programs with an optional result\<close>

definition post :: "'a option \<Rightarrow> ('a \<Rightarrow> bool) \<Rightarrow> bool" where
  "post m Q \<longleftrightarrow> (\<forall>x. m = Some x \<longrightarrow> Q x)"

lemma post_Some [simp]: "post (Some x) Q = Q x"
  by (simp add: post_def)

lemma post_None [simp]: "post None Q"
  by (simp add: post_def)

lemma post_bind_iff: "post (Option.bind m f) Q \<longleftrightarrow> post m (\<lambda>x. post (f x) Q)"
  by (cases m) auto

lemma postI: "(\<And>x. m = Some x \<Longrightarrow> Q x) \<Longrightarrow> post m Q"
  by (simp add: post_def)

lemma postD: "post m Q \<Longrightarrow> m = Some x \<Longrightarrow> Q x"
  by (simp add: post_def)

lemma post_weaken: "post m R \<Longrightarrow> (\<And>x. R x \<Longrightarrow> Q x) \<Longrightarrow> post m Q"
  by (auto simp: post_def)

lemma post_seq [vc]:
  "(\<And>x. m = Some x \<Longrightarrow> post (f x) Q) \<Longrightarrow> post (Option.bind m f) Q"
  by (cases m) auto

lemma post_bind:
  "post m R \<Longrightarrow> (\<And>x. R x \<Longrightarrow> post (f x) Q) \<Longrightarrow> post (Option.bind m f) Q"
  by (cases m) auto

lemma post_ret [vc]: "Q x \<Longrightarrow> post (Some x) Q"
  by simp

lemma post_if [vc]:
  "(b \<Longrightarrow> post m Q) \<Longrightarrow> (\<not> b \<Longrightarrow> post n Q) \<Longrightarrow> post (if b then m else n) Q"
  by simp

lemma post_prod [vc]:
  "(\<And>a b. p = (a, b) \<Longrightarrow> post (f a b) Q) \<Longrightarrow> post (case p of (a, b) \<Rightarrow> f a b) Q"
  by (cases p) simp

lemma post_option [vc]:
  "(m = None \<Longrightarrow> post n Q) \<Longrightarrow> (\<And>x. m = Some x \<Longrightarrow> post (f x) Q) \<Longrightarrow>
   post (case m of None \<Rightarrow> n | Some x \<Rightarrow> f x) Q"
  by (cases m) simp_all

lemma post_let [vc]: "(\<And>x. x = t \<Longrightarrow> post (f x) Q) \<Longrightarrow> post (Let t f) Q"
  by simp

lemma post_conj: "post m P \<Longrightarrow> post m Q \<Longrightarrow> post m (\<lambda>x. P x \<and> Q x)"
  by (simp add: post_def)

subsection \<open>The \<open>while(1)\<close> loop\<close>

text \<open>
  \<open>forever body s\<close> runs the body from state to state until it answers \<open>Inl r\<close>, the loop's
  \<open>return r\<close> or \<open>break\<close>; \<open>None\<close> is a loop that never ends. Every \<open>while(1)\<close> of the library is
  an instance, so the two rules below are the only inductions over loops: an invariant for
  what a loop returns, and a measure for that it returns.
\<close>

partial_function (option) forever :: "('s \<Rightarrow> ('r + 's) option) \<Rightarrow> 's \<Rightarrow> 'r option" where
  "forever body s =
     Option.bind (body s) (\<lambda>x. case x of Inl r \<Rightarrow> Some r | Inr s' \<Rightarrow> forever body s')"

lemma forever_unfold:
  "body s = Some (Inl r) \<Longrightarrow> forever body s = Some r"
  "body s = Some (Inr s') \<Longrightarrow> forever body s = forever body s'"
  "body s = None \<Longrightarrow> forever body s = None"
  by (simp_all add: forever.simps [of body s])

lemma forever_post:
  assumes step: "\<And>s. I s \<Longrightarrow> post (body s) (\<lambda>x. case x of Inl r \<Rightarrow> Q r | Inr s' \<Rightarrow> I s')"
    and start: "I s"
  shows "post (forever body s) Q"
proof (rule postI)
  fix r
  assume ret: "forever body s = Some r"
  have "I s \<longrightarrow> Q r"
  proof (rule forever.raw_induct [where P = "\<lambda>b s r. b = body \<longrightarrow> I s \<longrightarrow> Q r", OF _ ret,
        THEN mp, OF _ refl], intro impI)
    fix f b s r
    assume IH: "\<And>b s r. f b s = Some r \<Longrightarrow> b = body \<longrightarrow> I s \<longrightarrow> Q r"
      and eq: "Option.bind (b s) (\<lambda>x. case x of Inl r \<Rightarrow> Some r | Inr s' \<Rightarrow> f b s') = Some r"
      and b: "b = body" and inv: "I s"
    obtain x where x: "body s = Some x"
      and k: "(case x of Inl r \<Rightarrow> Some r | Inr s' \<Rightarrow> f b s') = Some r"
      using eq b by (cases "b s") auto
    show "Q r"
      using postD [OF step [OF inv] x] k IH b by (cases x) auto
  qed
  then show "Q r" using start by simp
qed

lemma forever_returns:
  fixes m :: "'s \<Rightarrow> nat"
  assumes step: "\<And>s. I s \<Longrightarrow>
      \<exists>x. body s = Some x \<and> (case x of Inl r \<Rightarrow> Q r | Inr s' \<Rightarrow> I s' \<and> m s' < m s)"
    and start: "I s"
  shows "\<exists>r. forever body s = Some r \<and> Q r"
  using start
proof (induction "m s" arbitrary: s rule: less_induct)
  case less
  obtain x where x: "body s = Some x"
    and k: "case x of Inl r \<Rightarrow> Q r | Inr s' \<Rightarrow> I s' \<and> m s' < m s"
    using step [OF less.prems] by blast
  show ?case
  proof (cases x)
    case (Inl r)
    with x k show ?thesis by (auto simp: forever_unfold)
  next
    case (Inr s')
    with k less.hyps obtain r where "forever body s' = Some r" "Q r" by auto
    with x Inr show ?thesis by (auto simp: forever_unfold)
  qed
qed

subsection \<open>Total correctness\<close>

text \<open>\<open>yields m Q\<close>: the program returns, and its result satisfies \<open>Q\<close>.\<close>

definition yields :: "'a option \<Rightarrow> ('a \<Rightarrow> bool) \<Rightarrow> bool" where
  "yields m Q \<longleftrightarrow> (\<exists>x. m = Some x \<and> Q x)"

lemma yields_Some [tc]: "Q x \<Longrightarrow> yields (Some x) Q"
  by (simp add: yields_def)

lemma yields_bind: "yields m R \<Longrightarrow> (\<And>x. R x \<Longrightarrow> yields (f x) Q) \<Longrightarrow> yields (Option.bind m f) Q"
  by (auto simp: yields_def)

lemma yields_if [tc]:
  "(b \<Longrightarrow> yields m Q) \<Longrightarrow> (\<not> b \<Longrightarrow> yields n Q) \<Longrightarrow> yields (if b then m else n) Q"
  by simp

lemma yields_prod [tc]:
  "(\<And>a b. p = (a, b) \<Longrightarrow> yields (f a b) Q) \<Longrightarrow> yields (case p of (a, b) \<Rightarrow> f a b) Q"
  by (cases p) simp

lemma yields_option [tc]:
  "(m = None \<Longrightarrow> yields n Q) \<Longrightarrow> (\<And>x. m = Some x \<Longrightarrow> yields (f x) Q) \<Longrightarrow>
   yields (case m of None \<Rightarrow> n | Some x \<Rightarrow> f x) Q"
  by (cases m) simp_all

lemma yields_weaken: "yields m R \<Longrightarrow> (\<And>x. R x \<Longrightarrow> Q x) \<Longrightarrow> yields m Q"
  by (auto simp: yields_def)

lemma yieldsE: "yields m Q \<Longrightarrow> (\<And>x. m = Some x \<Longrightarrow> Q x \<Longrightarrow> P) \<Longrightarrow> P"
  by (auto simp: yields_def)

lemma forever_yields:
  fixes m :: "'s \<Rightarrow> nat"
  assumes "\<And>s. I s \<Longrightarrow> yields (body s) (\<lambda>x. case x of Inl r \<Rightarrow> Q r | Inr s' \<Rightarrow> I s' \<and> m s' < m s)"
    and "I s"
  shows "yields (forever body s) Q"
  using forever_returns [of I body Q m s] assms by (simp add: yields_def)

subsection \<open>Running a program in the simplifier\<close>

text \<open>
  Worked examples run with \<open>simp add: run cong: bind_weak_cong\<close>: the congruence evaluates the
  first program of a sequence before the rest is looked at.
\<close>

lemma bind_weak_cong: "m = m' \<Longrightarrow> Option.bind m f = Option.bind m' f"
  by simp

lemmas prelude_run [run] = bytes_of_def c_str_def int32_def c_slice_def char_int_def dec_nat.simps
  dec_int_def snprintf_def is_space_def is_digit_def digits_value_def scan_nat_def scan_int_def
  forever.simps

lemma sdiv_smod_nonneg:
  fixes a b :: int
  assumes "0 \<le> a" "0 < b"
  shows "a sdiv b = a div b" "a smod b = a mod b"
proof -
  show "a sdiv b = a div b" using assms by (cases "a = 0") (simp_all add: signed_divide_int_def)
  show "a smod b = a mod b" using assms by (cases "a = 0") (simp_all add: signed_modulo_int_def)
qed

end
