(* ===== verification/Machine.thy ===== *)
theory Machine
  imports Prelude "HOL-Library.Multiset"
begin

unbundle bit_operations_syntax

text \<open>
  The outside world: the socket API, the resolver, the monotonic clock, \<open>errno\<close> and OpenSSL.
  None of it is under src/, so it is a parameter: \<open>sys_step\<close> answers a call from an unknown
  environment state of type \<open>'e\<close>, and \<open>call\<close> makes one call, stores what the call puts in
  \<open>errno\<close> and appends the call and its answer to a log. Every definition of the development
  takes the parameter as its first argument; what a theorem relies on is a hypothesis about it.
\<close>

subsection \<open>The calls and their answers\<close>

text \<open>
  The arguments are the ones the library passes. Descriptors and OpenSSL handles are integers
  (0 is the null handle). \<open>Sys_select fd r w x tv\<close> watches the one descriptor \<open>fd\<close> in the
  read, write and exception sets the three flags name, for at most \<open>tv\<close> (seconds,
  microseconds; \<open>None\<close> is the null pointer, no limit).
\<close>

datatype syscall =
    Sys_socket
  | Sys_set_nosigpipe int
  | Sys_getaddrinfo string
  | Sys_gethostbyname string
  | Sys_connect int "byte list" int
  | Sys_select int bool bool bool "(int \<times> int) option"
  | Sys_so_error int
  | Sys_getfl int
  | Sys_setfl int int
  | Sys_send int "byte list" int
  | Sys_recv int int
  | Sys_shutdown int
  | Sys_close int
  | Sys_clock
  | Ssl_ctx_new
  | Ssl_ctx_default_verify_paths int
  | Ssl_ctx_free int
  | Ssl_new int
  | Ssl_set_sni int string
  | Ssl_set1_host int string
  | Ssl_set_verify_peer int
  | Ssl_set_fd int int
  | Ssl_connect int
  | Ssl_get_error int int
  | Ssl_pending int
  | Ssl_read int int
  | Ssl_write int "byte list"
  | Ssl_shutdown int
  | Ssl_free int
  | Ssl_get_verify_result int
  | Ssl_verify_error_string int
  | Err_get_error
  | Err_error_string int

text \<open>
  An answer: the return value (pointers as integers), what the call stores in \<open>errno\<close> if
  anything, an integer output (the \<open>SO_ERROR\<close> value, the clock in nanoseconds, the sets
  \<open>select\<close> leaves: bit 0 read, bit 1 write, bit 2 exception), the bytes and the text it delivers.
\<close>

record sysret =
  sr_ret :: int
  sr_errno :: "int option"
  sr_val :: int
  sr_bytes :: "byte list"
  sr_text :: string

text \<open>How the library was built and for which platform (the POSIX branches of the sources).\<close>

record build =
  using_openssl :: bool
  has_msg_nosignal :: bool
  has_so_nosigpipe :: bool
  char_is_signed :: bool

record 'e sys =
  sys_step :: "syscall \<Rightarrow> 'e \<Rightarrow> sysret \<times> 'e"
  sys_strerror :: "int \<Rightarrow> string"
  sys_build :: build

record 'e world =
  w_env :: 'e
  w_errno :: int
  w_log :: "(syscall \<times> sysret) list"

definition call :: "'e sys \<Rightarrow> syscall \<Rightarrow> 'e world \<Rightarrow> sysret \<times> 'e world" where
  "call S k w =
     (let (r, e) = sys_step S k (w_env w)
      in (r, w\<lparr>w_env := e,
               w_errno := (case sr_errno r of None \<Rightarrow> w_errno w | Some n \<Rightarrow> n),
               w_log := w_log w @ [(k, r)]\<rparr>))"

text \<open>Constants of the platform's and of OpenSSL's headers (Linux values).\<close>

definition O_NONBLOCK :: int where "O_NONBLOCK = 2048"
definition EINPROGRESS :: int where "EINPROGRESS = 115"
definition EWOULDBLOCK :: int where "EWOULDBLOCK = 11"
definition MSG_NOSIGNAL :: int where "MSG_NOSIGNAL = 16384"
definition SSL_ERROR_WANT_READ :: int where "SSL_ERROR_WANT_READ = 2"
definition SSL_ERROR_WANT_WRITE :: int where "SSL_ERROR_WANT_WRITE = 3"
definition SSL_ERROR_SYSCALL :: int where "SSL_ERROR_SYSCALL = 5"
definition SSL_ERROR_ZERO_RETURN :: int where "SSL_ERROR_ZERO_RETURN = 6"
definition X509_V_OK :: int where "X509_V_OK = 0"

lemmas platform_defs =
  O_NONBLOCK_def EINPROGRESS_def EWOULDBLOCK_def MSG_NOSIGNAL_def SSL_ERROR_WANT_READ_def
  SSL_ERROR_WANT_WRITE_def SSL_ERROR_SYSCALL_def SSL_ERROR_ZERO_RETURN_def X509_V_OK_def

definition fd_isset_read :: "sysret \<Rightarrow> bool" where
  "fd_isset_read r = odd (sr_val r)"

definition fd_isset_write :: "sysret \<Rightarrow> bool" where
  "fd_isset_write r = odd (sr_val r div 2)"

definition fd_isset_except :: "sysret \<Rightarrow> bool" where
  "fd_isset_except r = odd (sr_val r div 4)"

text \<open>The byte a one-byte \<open>recv\<close> stored.\<close>

definition recv_byte :: "sysret \<Rightarrow> byte" where
  "recv_byte r = (case sr_bytes r of [] \<Rightarrow> 0 | b # _ \<Rightarrow> b)"

subsection \<open>What a run adds to the log\<close>

text \<open>\<open>emits P w w'\<close>: the run from \<open>w\<close> to \<open>w'\<close> only appended calls that satisfy \<open>P\<close>.\<close>

definition emits :: "(syscall \<Rightarrow> bool) \<Rightarrow> 'e world \<Rightarrow> 'e world \<Rightarrow> bool" where
  "emits P w w' \<longleftrightarrow> (\<exists>l. w_log w' = w_log w @ l \<and> (\<forall>x \<in> set l. P (fst x)))"

lemma emits_refl [simp, intro]: "emits P w w"
  by (simp add: emits_def)

lemma emits_trans [trans]: "emits P w w' \<Longrightarrow> emits P w' w'' \<Longrightarrow> emits P w w''"
  by (fastforce simp: emits_def)

lemma emits_mono: "emits P w w' \<Longrightarrow> (\<And>k. P k \<Longrightarrow> Q k) \<Longrightarrow> emits Q w w'"
  by (fastforce simp: emits_def)

lemma emits_call: "P k \<Longrightarrow> emits P w (snd (call S k w))"
  by (auto simp: emits_def call_def split: prod.splits)

lemma emits_callD: "call S k w = (r, w') \<Longrightarrow> P k \<Longrightarrow> emits P w w'"
  using emits_call [of P k w S] by simp

lemma emits_step: "emits P w w' \<Longrightarrow> call S k w' = (r, w'') \<Longrightarrow> P k \<Longrightarrow> emits P w w''"
  by (blast intro: emits_trans emits_callD)

lemma emits_back [frame_back]: "call S k w' = (r, w'') \<Longrightarrow> P k \<Longrightarrow> emits P w w' \<Longrightarrow> emits P w w''"
  by (rule emits_step)

lemma emits_errno [simp]: "emits P w (w'\<lparr>w_errno := n\<rparr>) = emits P w w'"
  by (simp add: emits_def)

lemma call_log: "call S k w = (r, w') \<Longrightarrow> w_log w' = w_log w @ [(k, r)]"
  by (auto simp: call_def split: prod.splits)

lemma call_env: "call S k w = (r, w') \<Longrightarrow> sys_step S k (w_env w) = (r, w_env w')"
  by (auto simp: call_def split: prod.splits)

lemma call_errno:
  "call S k w = (r, w') \<Longrightarrow> w_errno w' = (case sr_errno r of None \<Rightarrow> w_errno w | Some n \<Rightarrow> n)"
  by (auto simp: call_def split: prod.splits)

subsection \<open>Descriptors opened and closed\<close>

fun opened_by :: "syscall \<times> sysret \<Rightarrow> int list" where
  "opened_by (Sys_socket, r) = [sr_ret r]"
| "opened_by _ = []"

fun closed_by :: "syscall \<times> sysret \<Rightarrow> int list" where
  "closed_by (Sys_close fd, r) = [fd]"
| "closed_by _ = []"

text \<open>\<open>ledger f w\<close>: what \<open>f\<close> counts in the calls made so far, as a multiset.\<close>

definition ledger :: "(syscall \<times> sysret \<Rightarrow> int list) \<Rightarrow> 'e world \<Rightarrow> int multiset" where
  "ledger f w = mset (concat (map f (w_log w)))"

definition opens :: "'e world \<Rightarrow> int multiset" where
  "opens w = ledger opened_by w"

definition closes :: "'e world \<Rightarrow> int multiset" where
  "closes w = ledger closed_by w"

lemma ledger_call: "call S k w = (r, w') \<Longrightarrow> ledger f w' = ledger f w + mset (f (k, r))"
  by (simp add: ledger_def call_log)

lemma ledger_errno [simp]: "ledger f (w\<lparr>w_errno := n\<rparr>) = ledger f w"
  by (simp add: ledger_def)

lemma ledger_emits:
  assumes "emits P w w'" and none: "\<And>k r. P k \<Longrightarrow> f (k, r) = []"
  shows "ledger f w' = ledger f w"
proof -
  obtain l where l: "w_log w' = w_log w @ l" "\<forall>x \<in> set l. P (fst x)"
    using assms(1) by (auto simp: emits_def)
  have "f x = []" if "x \<in> set l" for x
    using l(2) that none [of "fst x" "snd x"] by simp
  then have "concat (map f l) = []" by simp
  then show ?thesis using l(1) by (simp add: ledger_def)
qed

text \<open>Calls that neither open nor close a descriptor.\<close>

fun keeps_fds :: "syscall \<Rightarrow> bool" where
  "keeps_fds Sys_socket = False"
| "keeps_fds (Sys_close _) = False"
| "keeps_fds _ = True"

lemma keeps_fds_opened: "keeps_fds k \<Longrightarrow> opened_by (k, r) = []"
  "keeps_fds k \<Longrightarrow> closed_by (k, r) = []"
  by (cases k; simp)+

lemma emits_keeps_fds: "emits keeps_fds w w' \<Longrightarrow> opens w' = opens w \<and> closes w' = closes w"
  unfolding opens_def closes_def by (blast intro: ledger_emits keeps_fds_opened)

lemma opens_call:
  "call S k w = (r, w') \<Longrightarrow> opens w' = opens w + mset (opened_by (k, r))"
  "call S k w = (r, w') \<Longrightarrow> closes w' = closes w + mset (closed_by (k, r))"
  by (simp_all add: opens_def closes_def ledger_call)

lemma opens_errno [simp]: "opens (w\<lparr>w_errno := n\<rparr>) = opens w"
  "closes (w\<lparr>w_errno := n\<rparr>) = closes w"
  by (simp_all add: opens_def closes_def)

text \<open>
  The descriptors in use, replayed from a log: \<open>closes_open\<close> says that every \<open>close\<close> was of one in
  use, \<open>fresh_opens\<close> that \<open>socket\<close> never answered one in use.
\<close>

fun in_use :: "int multiset \<Rightarrow> (syscall \<times> sysret) list \<Rightarrow> int multiset" where
  "in_use m [] = m"
| "in_use m (x # xs) = in_use (m - mset (closed_by x) + mset (opened_by x)) xs"

fun closes_open :: "int multiset \<Rightarrow> (syscall \<times> sysret) list \<Rightarrow> bool" where
  "closes_open m [] = True"
| "closes_open m (x # xs) =
     (mset (closed_by x) \<subseteq># m \<and> closes_open (m - mset (closed_by x) + mset (opened_by x)) xs)"

fun fresh_opens :: "int multiset \<Rightarrow> (syscall \<times> sysret) list \<Rightarrow> bool" where
  "fresh_opens m [] = True"
| "fresh_opens m (x # xs) =
     (set (opened_by x) \<inter> set_mset m = {} \<and> fresh_opens (m - mset (closed_by x) + mset (opened_by x)) xs)"

definition owned_closes :: "'e world \<Rightarrow> bool" where
  "owned_closes w \<longleftrightarrow> closes_open {#} (w_log w)"

lemma closes_open_append: "closes_open m (xs @ ys) \<longleftrightarrow> closes_open m xs \<and> closes_open (in_use m xs) ys"
  by (induction xs arbitrary: m) auto

lemma in_use_balance:
  "closes_open m xs \<Longrightarrow>
   m + mset (concat (map opened_by xs)) = mset (concat (map closed_by xs)) + in_use m xs"
proof (induction xs arbitrary: m)
  case (Cons x xs)
  let ?m = "m - mset (closed_by x) + mset (opened_by x)"
  have "mset (closed_by x) \<subseteq># m" using Cons.prems by simp
  then have c: "mset (closed_by x) + ?m = m + mset (opened_by x)"
    by (metis add.assoc subset_mset.add_diff_inverse)
  have IH: "?m + mset (concat (map opened_by xs)) = mset (concat (map closed_by xs)) + in_use ?m xs"
    using Cons.IH Cons.prems by (simp only: closes_open.simps)
  show ?case
    using c IH by (simp only: list.map concat.simps mset_append in_use.simps) (metis add.assoc)
qed simp

lemma in_use_opens: "owned_closes w \<Longrightarrow> opens w = closes w + in_use {#} (w_log w)"
  using in_use_balance [of "{#}" "w_log w"] by (simp add: owned_closes_def opens_def closes_def ledger_def)

lemma in_use_once: "fresh_opens m xs \<Longrightarrow> (\<And>x. count m x \<le> 1) \<Longrightarrow> count (in_use m xs) x \<le> 1"
proof (induction xs arbitrary: m)
  case (Cons k xs)
  have "count (m - mset (closed_by k) + mset (opened_by k)) x \<le> 1" for x
  proof (cases "x \<in> set (opened_by k)")
    case True
    then have "count m x = 0" using Cons.prems(1) by (auto simp: not_in_iff)
    moreover have "count (mset (opened_by k)) x \<le> 1" by (cases k rule: opened_by.cases) simp_all
    ultimately show ?thesis by simp
  next
    case False
    then have "count (mset (opened_by k)) x = 0" by (simp add: count_eq_zero_iff)
    moreover have "count m x \<le> 1" by (rule Cons.prems(2))
    ultimately show ?thesis by (simp only: count_union count_diff)
  qed
  then show ?case using Cons.IH Cons.prems(1) by simp
qed simp

lemma owned_closes_errno [simp]: "owned_closes (w\<lparr>w_errno := n\<rparr>) = owned_closes w"
  by (simp add: owned_closes_def)

lemma owned_closes_emits: "emits keeps_fds w w' \<Longrightarrow> owned_closes w' = owned_closes w"
proof -
  assume "emits keeps_fds w w'"
  then obtain l where l: "w_log w' = w_log w @ l" "\<forall>x \<in> set l. keeps_fds (fst x)"
    by (auto simp: emits_def)
  have "closes_open m l" for m
    using l(2) by (induction l arbitrary: m) (auto simp: keeps_fds_opened)
  then show ?thesis by (simp add: owned_closes_def l(1) closes_open_append)
qed

lemma owned_closes_call:
  assumes "call S k w = (r, w')" "owned_closes w" "\<And>s. k = Sys_close s \<Longrightarrow> \<exists>m. opens w = closes w + {#s#} + m"
  shows "owned_closes w'"
proof -
  have "mset (closed_by (k, r)) \<subseteq># in_use {#} (w_log w)"
  proof (cases "\<exists>s. k = Sys_close s")
    case True
    then obtain s m where "k = Sys_close s" "opens w = closes w + {#s#} + m" using assms(3) by blast
    moreover from this in_use_opens [OF assms(2)] have "in_use {#} (w_log w) = {#s#} + m"
      by (simp add: add.assoc)
    ultimately show ?thesis by simp
  next
    case False
    then show ?thesis by (cases k) simp_all
  qed
  then show ?thesis using assms(2) by (simp add: owned_closes_def call_log [OF assms(1)] closes_open_append)
qed

text \<open>Calls of the socket API only, and those of them that keep the descriptors.\<close>

fun plain_call :: "syscall \<Rightarrow> bool" where
  "plain_call Sys_socket = True"
| "plain_call (Sys_set_nosigpipe _) = True"
| "plain_call (Sys_getaddrinfo _) = True"
| "plain_call (Sys_gethostbyname _) = True"
| "plain_call (Sys_connect _ _ _) = True"
| "plain_call (Sys_select _ _ _ _ _) = True"
| "plain_call (Sys_so_error _) = True"
| "plain_call (Sys_getfl _) = True"
| "plain_call (Sys_setfl _ _) = True"
| "plain_call (Sys_send _ _ _) = True"
| "plain_call (Sys_recv _ _) = True"
| "plain_call (Sys_shutdown _) = True"
| "plain_call (Sys_close _) = True"
| "plain_call _ = False"

definition plain_io :: "syscall \<Rightarrow> bool" where
  "plain_io k \<longleftrightarrow> plain_call k \<and> keeps_fds k"

lemma plain_io_simps [simp]:
  "plain_io (Sys_set_nosigpipe s)" "plain_io (Sys_getaddrinfo h)" "plain_io (Sys_gethostbyname h)"
  "plain_io (Sys_connect s a p)" "plain_io (Sys_select s rd wr ex tv)" "plain_io (Sys_so_error s)"
  "plain_io (Sys_getfl s)" "plain_io (Sys_setfl s fl)" "plain_io (Sys_send s d fl)"
  "plain_io (Sys_recv s n)" "plain_io (Sys_shutdown s)"
  by (simp_all add: plain_io_def)

lemma emits_plain_io: "emits plain_io w w' \<Longrightarrow> emits plain_call w w'"
  "emits plain_io w w' \<Longrightarrow> emits keeps_fds w w'"
  by (auto elim: emits_mono simp: plain_io_def)

subsection \<open>TLS handles made and freed\<close>

fun ctx_made :: "syscall \<times> sysret \<Rightarrow> int list" where
  "ctx_made (Ssl_ctx_new, r) = (if sr_ret r = 0 then [] else [sr_ret r])"
| "ctx_made _ = []"

fun ctx_freed :: "syscall \<times> sysret \<Rightarrow> int list" where
  "ctx_freed (Ssl_ctx_free x, r) = [x]"
| "ctx_freed _ = []"

fun ssl_made :: "syscall \<times> sysret \<Rightarrow> int list" where
  "ssl_made (Ssl_new _, r) = (if sr_ret r = 0 then [] else [sr_ret r])"
| "ssl_made _ = []"

fun ssl_freed :: "syscall \<times> sysret \<Rightarrow> int list" where
  "ssl_freed (Ssl_free x, r) = [x]"
| "ssl_freed _ = []"

text \<open>
  Made and not yet freed, counted from the log: what one user holds, beside what \<open>oth\<close>, the others in
  the process, hold.
\<close>

definition tls_books ::
  "int multiset \<times> int multiset \<Rightarrow> int multiset \<Rightarrow> int multiset \<Rightarrow> 'e world \<Rightarrow> bool" where
  "tls_books oth ctxs ssls w \<longleftrightarrow>
     ledger ctx_made w = ledger ctx_freed w + fst oth + ctxs
     \<and> ledger ssl_made w = ledger ssl_freed w + snd oth + ssls"

abbreviation no_others :: "int multiset \<times> int multiset" where
  "no_others \<equiv> ({#}, {#})"

fun keeps_handles :: "syscall \<Rightarrow> bool" where
  "keeps_handles Ssl_ctx_new = False"
| "keeps_handles (Ssl_ctx_free _) = False"
| "keeps_handles (Ssl_new _) = False"
| "keeps_handles (Ssl_free _) = False"
| "keeps_handles _ = True"

lemma keeps_handles_ledger:
  "keeps_handles k \<Longrightarrow> ctx_made (k, r) = []" "keeps_handles k \<Longrightarrow> ctx_freed (k, r) = []"
  "keeps_handles k \<Longrightarrow> ssl_made (k, r) = []" "keeps_handles k \<Longrightarrow> ssl_freed (k, r) = []"
  by (cases k; simp)+

lemma tls_books_emits: "emits keeps_handles w w' \<Longrightarrow> tls_books oth x y w' = tls_books oth x y w"
  unfolding tls_books_def
  using ledger_emits [of keeps_handles w w'] keeps_handles_ledger by (metis (full_types))

lemma plain_keeps_handles: "plain_call k \<Longrightarrow> keeps_handles k"
  by (cases k) auto

lemma tls_books_call [frame_back]:
  "call S k w = (r, w') \<Longrightarrow> keeps_handles k \<Longrightarrow> tls_books oth x y w \<Longrightarrow> tls_books oth x y w'"
  using tls_books_emits [OF emits_callD] by blast

definition held :: "int \<Rightarrow> int multiset" where
  "held h = (if h = 0 then {#} else {#h#})"

lemma held_simps [simp]: "held 0 = {#}" "h \<noteq> 0 \<Longrightarrow> held h = {#h#}"
  by (simp_all add: held_def)

lemma tls_books_handles [frame_back]:
  "call S Ssl_ctx_new w = (r, w') \<Longrightarrow> tls_books oth {#} {#} w \<Longrightarrow> tls_books oth (held (sr_ret r)) {#} w'"
  "call S (Ssl_new c) w = (r, w') \<Longrightarrow> tls_books oth x {#} w \<Longrightarrow> tls_books oth x (held (sr_ret r)) w'"
  "call S (Ssl_free s) w = (r, w') \<Longrightarrow> tls_books oth x {#s#} w \<Longrightarrow> tls_books oth x {#} w'"
  "call S (Ssl_ctx_free c) w = (r, w') \<Longrightarrow> tls_books oth {#c#} y w \<Longrightarrow> tls_books oth {#} y w'"
  by (auto simp: tls_books_def held_def ledger_call)

subsection \<open>Bytes that went out on a descriptor\<close>

text \<open>The bytes the kernel accepted: the prefix of each buffer that \<open>send\<close> reported as sent.\<close>

fun wire_of :: "int \<Rightarrow> syscall \<times> sysret \<Rightarrow> byte list" where
  "wire_of fd (Sys_send fd' bs fl, r) = (if fd' = fd then take (nat (sr_ret r)) bs else [])"
| "wire_of fd _ = []"

definition wire :: "int \<Rightarrow> 'e world \<Rightarrow> byte list" where
  "wire fd w = concat (map (wire_of fd) (w_log w))"

lemma wire_call: "call S k w = (r, w') \<Longrightarrow> wire fd w' = wire fd w @ wire_of fd (k, r)"
  by (simp add: wire_def call_log)

lemma wire_errno [simp]: "wire fd (w\<lparr>w_errno := n\<rparr>) = wire fd w"
  by (simp add: wire_def)

text \<open>Calls that put nothing on any wire.\<close>

fun no_send :: "syscall \<Rightarrow> bool" where
  "no_send (Sys_send _ _ _) = False"
| "no_send _ = True"

lemma no_send_wire_of: "no_send k \<Longrightarrow> wire_of fd (k, r) = []"
  by (cases k) auto

lemma wire_emits: "emits no_send w w' \<Longrightarrow> wire fd w' = wire fd w"
proof -
  assume "emits no_send w w'"
  then obtain l where l: "w_log w' = w_log w @ l" "\<forall>x \<in> set l. no_send (fst x)"
    by (auto simp: emits_def)
  have "wire_of fd x = []" if "x \<in> set l" for x
    using l(2) that no_send_wire_of [of "fst x" fd "snd x"] by simp
  then have "concat (map (wire_of fd) l) = []" by simp
  then show ?thesis using l(1) by (simp add: wire_def)
qed

subsection \<open>A world that follows a script\<close>

text \<open>
  A concrete environment for worked examples: the answers to come, in order. After the last
  one every call fails with -1.
\<close>

definition ans :: "int \<Rightarrow> sysret" where
  "ans n = \<lparr>sr_ret = n, sr_errno = None, sr_val = 0, sr_bytes = [], sr_text = []\<rparr>"

definition script_step :: "syscall \<Rightarrow> sysret list \<Rightarrow> sysret \<times> sysret list" where
  "script_step k rs = (case rs of [] \<Rightarrow> (ans (- 1), []) | r # rs' \<Rightarrow> (r, rs'))"

definition linux :: build where
  "linux = \<lparr>using_openssl = True, has_msg_nosignal = True, has_so_nosigpipe = False,
            char_is_signed = True\<rparr>"

definition script_sys :: "sysret list sys" where
  "script_sys = \<lparr>sys_step = script_step, sys_strerror = (\<lambda>n. ''error '' @ dec_int n),
                 sys_build = linux\<rparr>"

definition start :: "'e \<Rightarrow> 'e world" where
  "start e = \<lparr>w_env = e, w_errno = 0, w_log = []\<rparr>"

subsection \<open>A peer that keeps talking\<close>

text \<open>
  What the documentation of the socket API promises on a connected stream descriptor whose peer
  answers in time: \<open>select\<close> reports the descriptor ready, a one-byte \<open>recv\<close> delivers the next byte
  of the stream, or 0 at its end, and \<open>send\<close> takes the whole buffer. \<open>rx\<close> names, in the unknown
  state of the environment, the bytes the peer will still deliver.
\<close>

definition prompt_peer :: "'e sys \<Rightarrow> int \<Rightarrow> ('e \<Rightarrow> byte list) \<Rightarrow> bool" where
  "prompt_peer S fd rx \<longleftrightarrow>
     (\<forall>e r e'. sys_step S (Sys_recv fd 1) e = (r, e') \<longrightarrow>
        (case rx e of [] \<Rightarrow> sr_ret r = 0 \<and> rx e' = []
         | b # bs \<Rightarrow> sr_ret r = 1 \<and> sr_bytes r = [b] \<and> rx e' = bs))
     \<and> (\<forall>e tv r e'. sys_step S (Sys_select fd True False False tv) e = (r, e') \<longrightarrow>
          0 < sr_ret r \<and> fd_isset_read r \<and> rx e' = rx e)
     \<and> (\<forall>e tv r e'. sys_step S (Sys_select fd False True False tv) e = (r, e') \<longrightarrow>
          0 < sr_ret r \<and> fd_isset_write r \<and> rx e' = rx e)
     \<and> (\<forall>e d fl r e'. sys_step S (Sys_send fd d fl) e = (r, e') \<longrightarrow>
          sr_ret r = int (length d) \<and> rx e' = rx e)"

lemma prompt_recv:
  assumes "prompt_peer S fd rx" "call S (Sys_recv fd 1) w = (r, w')"
  shows "case rx (w_env w) of [] \<Rightarrow> sr_ret r = 0 \<and> rx (w_env w') = []
         | b # bs \<Rightarrow> sr_ret r = 1 \<and> sr_bytes r = [b] \<and> rx (w_env w') = bs"
  using assms(1) call_env [OF assms(2)] unfolding prompt_peer_def by blast

lemma prompt_select_read:
  "prompt_peer S fd rx \<Longrightarrow> call S (Sys_select fd True False False tv) w = (r, w') \<Longrightarrow>
   0 < sr_ret r \<and> fd_isset_read r \<and> rx (w_env w') = rx (w_env w)"
  using call_env [of S "Sys_select fd True False False tv" w r w'] unfolding prompt_peer_def by blast

lemma prompt_select_write:
  "prompt_peer S fd rx \<Longrightarrow> call S (Sys_select fd False True False tv) w = (r, w') \<Longrightarrow>
   0 < sr_ret r \<and> fd_isset_write r \<and> rx (w_env w') = rx (w_env w)"
  using call_env [of S "Sys_select fd False True False tv" w r w'] unfolding prompt_peer_def by blast

lemma prompt_send:
  "prompt_peer S fd rx \<Longrightarrow> call S (Sys_send fd d fl) w = (r, w') \<Longrightarrow>
   sr_ret r = int (length d) \<and> rx (w_env w') = rx (w_env w)"
  using call_env [of S "Sys_send fd d fl" w r w'] unfolding prompt_peer_def by blast

text \<open>A concrete environment of this kind, whose state is the bytes still to come.\<close>

fun stream_step :: "syscall \<Rightarrow> byte list \<Rightarrow> sysret \<times> byte list" where
  "stream_step Sys_socket bs = (ans 3, bs)"
| "stream_step (Sys_getaddrinfo h) bs = ((ans 0)\<lparr>sr_val := 1, sr_bytes := [127, 0, 0, 1]\<rparr>, bs)"
| "stream_step (Sys_gethostbyname h) bs = ((ans 1)\<lparr>sr_bytes := [127, 0, 0, 1]\<rparr>, bs)"
| "stream_step (Sys_select fd rd wr ex tv) bs = ((ans 1)\<lparr>sr_val := 7\<rparr>, bs)"
| "stream_step (Sys_send fd d fl) bs = (ans (int (length d)), bs)"
| "stream_step (Sys_recv fd n) bs =
     (case bs of [] \<Rightarrow> (ans 0, []) | b # bs' \<Rightarrow> ((ans 1)\<lparr>sr_bytes := [b]\<rparr>, bs'))"
| "stream_step Ssl_ctx_new bs = (ans 1, bs)"
| "stream_step (Ssl_ctx_default_verify_paths c) bs = (ans 1, bs)"
| "stream_step (Ssl_new c) bs = (ans 2, bs)"
| "stream_step (Ssl_connect s) bs = (ans 1, bs)"
| "stream_step (Ssl_write s d) bs = (ans (int (length d)), bs)"
| "stream_step (Ssl_read s n) bs =
     (if n \<le> 0 then (ans 0, bs)
      else case bs of [] \<Rightarrow> (ans 0, []) | b # bs' \<Rightarrow> ((ans 1)\<lparr>sr_bytes := [b]\<rparr>, bs'))"
| "stream_step (Ssl_get_error s rc) bs = (ans SSL_ERROR_ZERO_RETURN, bs)"
| "stream_step k bs = (ans 0, bs)"

definition stream_sys :: "byte list sys" where
  "stream_sys = \<lparr>sys_step = stream_step, sys_strerror = (\<lambda>n. ''error '' @ dec_int n),
                 sys_build = linux\<rparr>"

lemma prompt_stream: "prompt_peer stream_sys fd (\<lambda>bs. bs)"
  by (auto simp: prompt_peer_def stream_sys_def ans_def fd_isset_read_def fd_isset_write_def
      split: list.splits)

text \<open>A TLS peer that never completes a record, on a machine whose every call takes a microsecond: the
  state is the time in nanoseconds.\<close>

fun stalled_step :: "syscall \<Rightarrow> int \<Rightarrow> sysret \<times> int" where
  "stalled_step Sys_clock t = ((ans 0)\<lparr>sr_val := t + 1000\<rparr>, t + 1000)"
| "stalled_step (Sys_select fd rd wr ex tv) t = ((ans 1)\<lparr>sr_val := 7\<rparr>, t + 1000)"
| "stalled_step Ssl_ctx_new t = (ans 1, t + 1000)"
| "stalled_step (Ssl_ctx_default_verify_paths c) t = (ans 1, t + 1000)"
| "stalled_step (Ssl_new c) t = (ans 2, t + 1000)"
| "stalled_step (Ssl_connect s) t = (ans (- 1), t + 1000)"
| "stalled_step (Ssl_read s n) t = (ans (- 1), t + 1000)"
| "stalled_step (Ssl_write s d) t = (ans (- 1), t + 1000)"
| "stalled_step (Ssl_get_error s rc) t = (ans SSL_ERROR_WANT_READ, t + 1000)"
| "stalled_step k t = (ans 0, t + 1000)"

definition stalled_sys :: "int sys" where
  "stalled_sys = \<lparr>sys_step = stalled_step, sys_strerror = (\<lambda>n. ''error '' @ dec_int n),
                  sys_build = linux\<rparr>"

lemma stalled_step_time: "snd (stalled_step k t) = t + 1000"
  by (cases k) simp_all

lemma fresh_start: "w_log (start e) = []" "w_env (start e) = e"
  by (simp_all add: start_def)

lemmas machine_run [run] = call_def start_def ans_def script_step_def script_sys_def stream_sys_def
  linux_def platform_defs fd_isset_read_def fd_isset_write_def fd_isset_except_def recv_byte_def

end
