(* ===== verification/Comm_Base.thy ===== *)
theory Comm_Base
  imports Machine
begin

text \<open>
  \<open>Socket_Comm\<close> (src/src/socket_comm.h, socket_comm.cpp): the base class of the two
  communication layers. Its fields are the record \<open>comm\<close>; a subclass extends the record, so
  the base operations are polymorphic in the extension as they are inherited in the code. The
  four template methods \<open>bind\<close>, \<open>finish\<close>, \<open>send\<close> and \<open>read\<close> take the virtual function they
  dispatch to as their first argument.
\<close>

record comm =
  comm_error :: string
  comm_tsecs :: int
  comm_tmicro :: int
  comm_sock :: int

definition comm_new :: comm where
  "comm_new = \<lparr>comm_error = [], comm_tsecs = 0, comm_tmicro = 0, comm_sock = 0\<rparr>"

definition comm_setError :: "string \<Rightarrow> 'a comm_scheme \<Rightarrow> 'a comm_scheme" where
  "comm_setError e c = c\<lparr>comm_error := e\<rparr>"

definition comm_setTimeout :: "int \<Rightarrow> int \<Rightarrow> 'a comm_scheme \<Rightarrow> 'a comm_scheme" where
  "comm_setTimeout secs microsecs c = c\<lparr>comm_tsecs := secs, comm_tmicro := microsecs\<rparr>"

definition has_timeout :: "'a comm_scheme \<Rightarrow> bool" where
  "has_timeout c = (comm_tsecs c > 0 \<or> comm_tmicro c > 0)"

subsection \<open>The template methods\<close>

definition base_bind ::
  "('a comm_scheme \<Rightarrow> 'e world \<Rightarrow> (bool \<times> 'a comm_scheme \<times> 'e world) option) \<Rightarrow>
   int \<Rightarrow> 'a comm_scheme \<Rightarrow> 'e world \<Rightarrow> (bool \<times> 'a comm_scheme \<times> 'e world) option" where
  "base_bind virtualbind sock c w =
     (if comm_sock c \<noteq> 0
      then Some (False, comm_setError ''Socket_Comm::Bind - already bound (call finish first)'' c, w)
      else if sock = 0
      then Some (False, comm_setError ''Socket_Comm::Bind - Socket Descriptor is not valid'' c, w)
      else virtualbind (c\<lparr>comm_sock := sock\<rparr>) w)"

definition base_finish ::
  "('a comm_scheme \<Rightarrow> 'e world \<Rightarrow> (bool \<times> 'a comm_scheme \<times> 'e world) option) \<Rightarrow>
   'a comm_scheme \<Rightarrow> 'e world \<Rightarrow> (bool \<times> 'a comm_scheme \<times> 'e world) option" where
  "base_finish virtualfinish c w =
     (if comm_sock c \<noteq> 0 then virtualfinish (c\<lparr>comm_sock := 0\<rparr>) w
      else Some (False, comm_setError ''Socket_Comm::finish - already finished'' c, w))"

definition base_send ::
  "('a comm_scheme \<Rightarrow> byte list \<Rightarrow> 'e world \<Rightarrow> (int \<times> 'a comm_scheme \<times> 'e world) option) \<Rightarrow>
   'a comm_scheme \<Rightarrow> byte list \<Rightarrow> 'e world \<Rightarrow> (int \<times> 'a comm_scheme \<times> 'e world) option" where
  "base_send virtualsend c d w =
     (if comm_sock c \<noteq> 0 then virtualsend c d w
      else Some (- 1, comm_setError ''Socket_Comm::send - Not bound to any socket Yet!!'' c, w))"

definition base_read ::
  "('a comm_scheme \<Rightarrow> int \<Rightarrow> 'e world \<Rightarrow>
      (int \<times> byte list \<times> 'a comm_scheme \<times> 'e world) option) \<Rightarrow>
   'a comm_scheme \<Rightarrow> int \<Rightarrow> 'e world \<Rightarrow> (int \<times> byte list \<times> 'a comm_scheme \<times> 'e world) option" where
  "base_read virtualread c n w =
     (if comm_sock c \<noteq> 0 then virtualread c n w
      else Some (- 1, [], comm_setError ''Socket_Comm::read - Not bound to any socket Yet!!!!'' c, w))"

lemma comm_setError_simps [simp]:
  "comm_sock (comm_setError e c) = comm_sock c"
  "comm_tsecs (comm_setError e c) = comm_tsecs c"
  "comm_tmicro (comm_setError e c) = comm_tmicro c"
  "comm_error (comm_setError e c) = e"
  "comm.more (comm_setError e c) = comm.more c"
  by (simp_all add: comm_setError_def)

lemma comm_setTimeout_simps [simp]:
  "comm_sock (comm_setTimeout s u c) = comm_sock c"
  "comm_tsecs (comm_setTimeout s u c) = s"
  "comm_tmicro (comm_setTimeout s u c) = u"
  "comm_error (comm_setTimeout s u c) = comm_error c"
  "comm.more (comm_setTimeout s u c) = comm.more c"
  by (simp_all add: comm_setTimeout_def)

lemma has_timeout_setError [simp]: "has_timeout (comm_setError e c) = has_timeout c"
  by (simp add: has_timeout_def)

subsection \<open>Runs that touch only the error message\<close>

definition err_only :: "'a comm_scheme \<Rightarrow> 'a comm_scheme \<Rightarrow> bool" where
  "err_only c c' \<longleftrightarrow> (\<exists>e. c' = c\<lparr>comm_error := e\<rparr>)"

lemma err_only_refl [simp, intro]: "err_only c c"
  unfolding err_only_def by (rule exI [of _ "comm_error c"]) simp

lemma err_only_setError [simp, intro]: "err_only c (comm_setError e c)"
  by (auto simp: err_only_def comm_setError_def)

lemma err_only_trans [trans]: "err_only c c' \<Longrightarrow> err_only c' c'' \<Longrightarrow> err_only c c''"
  by (auto simp: err_only_def)

lemma err_only_setError_trans [simp]: "err_only c c' \<Longrightarrow> err_only c (comm_setError e c')"
  by (rule err_only_trans [OF _ err_only_setError])

lemma err_only_fields:
  "err_only c c' \<Longrightarrow> comm_sock c' = comm_sock c \<and> comm_tsecs c' = comm_tsecs c
     \<and> comm_tmicro c' = comm_tmicro c \<and> comm.more c' = comm.more c"
  by (auto simp: err_only_def)

definition io_frame ::
  "(syscall \<Rightarrow> bool) \<Rightarrow> 'a comm_scheme \<Rightarrow> 'e world \<Rightarrow> 'a comm_scheme \<Rightarrow> 'e world \<Rightarrow> bool" where
  "io_frame P c w c' w' \<longleftrightarrow> err_only c c' \<and> emits P w w'"

lemma io_frame_trans:
  "io_frame P c w c' w' \<Longrightarrow> io_frame P c' w' c'' w'' \<Longrightarrow> io_frame P c w c'' w''"
  by (auto simp: io_frame_def intro: err_only_trans emits_trans)

lemma io_frame_refl [simp]: "io_frame P c w c w"
  by (simp add: io_frame_def)

lemma io_frame_setError [simp]: "io_frame P c w c' w' \<Longrightarrow> io_frame P c w (comm_setError e c') w'"
  by (simp add: io_frame_def)

lemma io_frame_back [frame_back]:
  "call S k w' = (r, w'') \<Longrightarrow> P k \<Longrightarrow> io_frame P c w c' w' \<Longrightarrow> io_frame P c w c' w''"
  by (auto simp: io_frame_def emits_back)

lemma io_frame_emits: "io_frame P c w c' w' \<Longrightarrow> emits P w' w'' \<Longrightarrow> io_frame P c w c' w''"
  by (auto simp: io_frame_def intro: emits_trans)

subsection \<open>The contract of a communication layer\<close>

text \<open>
  What the base class and its clients rely on, whatever the layer: the four virtual functions
  leave the binding to the base class, keep the timeouts, and neither open nor close a
  descriptor. \<open>layer_frame\<close> is the frame of one operation.
\<close>

definition layer_frame :: "'a comm_scheme \<Rightarrow> 'e world \<Rightarrow> 'a comm_scheme \<Rightarrow> 'e world \<Rightarrow> bool" where
  "layer_frame c w c' w' \<longleftrightarrow>
     comm_sock c' = comm_sock c \<and> comm_tsecs c' = comm_tsecs c \<and> comm_tmicro c' = comm_tmicro c
     \<and> emits keeps_fds w w'"

lemma layer_frame_refl [simp]: "layer_frame c w (comm_setError e c) w" "layer_frame c w c w"
  by (simp_all add: layer_frame_def)

lemma layer_frame_trans:
  "layer_frame c w c' w' \<Longrightarrow> layer_frame c' w' c'' w'' \<Longrightarrow> layer_frame c w c'' w''"
  by (auto simp: layer_frame_def intro: emits_trans)

lemma layer_frame_setError [simp]:
  "layer_frame c w (comm_setError e c') w' = layer_frame c w c' w'"
  by (simp add: layer_frame_def)

lemma layer_frame_call:
  "call S k w = (r, w') \<Longrightarrow> keeps_fds k \<Longrightarrow> layer_frame c w c w'"
  by (auto simp: layer_frame_def intro: emits_callD)

lemma layer_frame_step:
  "layer_frame c w c' w' \<Longrightarrow> call S k w' = (r, w'') \<Longrightarrow> keeps_fds k \<Longrightarrow> layer_frame c w c' w''"
  by (blast intro: layer_frame_trans layer_frame_call)

locale comm_layer =
  fixes vbind vfinish ::
      "'a comm_scheme \<Rightarrow> 'e world \<Rightarrow> (bool \<times> 'a comm_scheme \<times> 'e world) option"
    and vsend ::
      "'a comm_scheme \<Rightarrow> byte list \<Rightarrow> 'e world \<Rightarrow> (int \<times> 'a comm_scheme \<times> 'e world) option"
    and vread ::
      "'a comm_scheme \<Rightarrow> int \<Rightarrow> 'e world \<Rightarrow> (int \<times> byte list \<times> 'a comm_scheme \<times> 'e world) option"
  assumes vbind_frame: "post (vbind c w) (\<lambda>(ok, c', w'). layer_frame c w c' w')"
    and vfinish_frame: "post (vfinish c w) (\<lambda>(ok, c', w'). layer_frame c w c' w')"
    and vfinish_ok: "\<exists>c' w'. vfinish c w = Some (True, c', w')"
    and vsend_frame: "post (vsend c d w) (\<lambda>(rc, c', w'). layer_frame c w c' w')"
    and vread_frame: "post (vread c n w) (\<lambda>(rc, bs, c', w'). layer_frame c w c' w')"
begin

lemma bind_emits: "post (base_bind vbind s c w) (\<lambda>(ok, c', w'). emits keeps_fds w w')"
  unfolding base_bind_def
  using vbind_frame [of "c\<lparr>comm_sock := s\<rparr>" w] by (auto simp: layer_frame_def elim: post_weaken)

lemma bind_sock:
  "post (base_bind vbind s c w) (\<lambda>(ok, c', w'). ok \<longrightarrow> comm_sock c' = s \<and> s \<noteq> 0 \<and> comm_sock c = 0)"
  unfolding base_bind_def
  using vbind_frame [of "c\<lparr>comm_sock := s\<rparr>" w] by (auto simp: layer_frame_def elim: post_weaken)

lemma bind_sock_cases:
  "post (base_bind vbind s c w)
     (\<lambda>(ok, c', w'). comm_sock c' = (if comm_sock c = 0 then s else comm_sock c))"
  unfolding base_bind_def
  using vbind_frame [of "c\<lparr>comm_sock := s\<rparr>" w] by (auto simp: layer_frame_def elim: post_weaken)

lemma finish_emits: "post (base_finish vfinish c w) (\<lambda>(ok, c', w'). emits keeps_fds w w')"
  unfolding base_finish_def
  using vfinish_frame [of "c\<lparr>comm_sock := 0\<rparr>" w] by (auto simp: layer_frame_def elim: post_weaken)

lemma finish_unbinds: "post (base_finish vfinish c w) (\<lambda>(ok, c', w'). comm_sock c' = 0)"
  unfolding base_finish_def
  using vfinish_frame [of "c\<lparr>comm_sock := 0\<rparr>" w] by (auto simp: layer_frame_def elim: post_weaken)

lemma finish_returns: "\<exists>c' w'. base_finish vfinish c w = Some (comm_sock c \<noteq> 0, c', w')"
  using vfinish_ok [of "c\<lparr>comm_sock := 0\<rparr>" w] by (auto simp: base_finish_def)

lemma send_layer_frame: "post (base_send vsend c d w) (\<lambda>(rc, c', w'). layer_frame c w c' w')"
  unfolding base_send_def using vsend_frame by simp

lemma read_layer_frame: "post (base_read vread c n w) (\<lambda>(rc, bs, c', w'). layer_frame c w c' w')"
  unfolding base_read_def using vread_frame by simp

end

lemmas comm_base_run [run] = comm_new_def comm_setError_def comm_setTimeout_def has_timeout_def
  base_bind_def base_finish_def base_send_def base_read_def

end
