(* ===== verification/Comm_Normal.thy ===== *)
theory Comm_Normal
  imports Comm_Base
begin

text \<open>
  \<open>Socket_Comm_Normal\<close> (src/src/socket_comm_normal.h, socket_comm_normal.cpp): plain
  communication. With a timeout, \<open>virtualsend\<close> waits for and sends one byte at a time;
  \<open>virtualread\<close> always reads one byte at a time. The loops over \<open>x\<close> are recursions over the
  bytes still to do. The (pointer, length) pair of \<open>send\<close> is the list of those bytes.
\<close>

definition send_flags :: "'e sys \<Rightarrow> int" where
  "send_flags S = (if has_msg_nosignal (sys_build S) then MSG_NOSIGNAL else 0)"

subsection \<open>Operations\<close>

primrec normal_send_timed ::
  "'e sys \<Rightarrow> 'a comm_scheme \<Rightarrow> int \<Rightarrow> byte list \<Rightarrow> 'e world \<Rightarrow> int \<times> 'a comm_scheme \<times> 'e world" where
  "normal_send_timed S c x [] w = (x, c, w)"
| "normal_send_timed S c x (b # bs) w =
     (let (r, w) = call S (Sys_select (comm_sock c) False True False
                             (Some (comm_tsecs c, comm_tmicro c))) w
      in if sr_ret r < 0
         then (- 1, comm_setError ''Socket_Comm_Normal select failed for virtualsend'' c, w)
         else if sr_ret r = 0
         then (x, comm_setError ''Socket_Comm_Normal timed out on virtualsend'' c, w)
         else if \<not> fd_isset_write r
         then (- 1, comm_setError ''Socket_Comm_Normal virtualsend - select returned invalid FD'' c, w)
         else let (r, w) = call S (Sys_send (comm_sock c) [b] (send_flags S)) w
              in if sr_ret r = 0
                 then (- 1, comm_setError ''Socket_Comm_Normal virtualsend - peer terminated'' c, w)
                 else if sr_ret r < 0
                 then (- 1, comm_setError ''Socket_Comm_Normal virtualsend - Send Failed'' c, w)
                 else normal_send_timed S c (x + 1) bs w)"

definition normal_virtualsend ::
  "'e sys \<Rightarrow> 'a comm_scheme \<Rightarrow> byte list \<Rightarrow> 'e world \<Rightarrow> int \<times> 'a comm_scheme \<times> 'e world" where
  "normal_virtualsend S c d w =
     (if has_timeout c then normal_send_timed S c 0 d w
      else let (r, w) = call S (Sys_send (comm_sock c) d (send_flags S)) w
           in if sr_ret r = 0
              then (0, comm_setError ''Socket_Comm_Normal virtualsend - peer terminated'' c, w)
              else if sr_ret r < 0
              then (- 1, comm_setError ''Socket_Comm_Normal virtualsend - Send Failed'' c, w)
              else (sr_ret r, c, w))"

text \<open>The message of a read that timed out; \<open>who\<close> is the class that reports it.\<close>

definition timeout_message :: "string \<Rightarrow> 'a comm_scheme \<Rightarrow> string" where
  "timeout_message who c =
     snprintf 100 (who @ '' timed out on virtualread. Seconds: '' @ dec_int (comm_tsecs c)
                   @ ''  Milli: '' @ dec_int (comm_tmicro c))"

text \<open>
  One turn of the read loop: \<open>Inl rc\<close> is a \<open>return rc\<close>, \<open>Inr b\<close> is the byte stored at
  \<open>buffer[x]\<close>.
\<close>

definition normal_read_byte ::
  "'e sys \<Rightarrow> 'a comm_scheme \<Rightarrow> 'e world \<Rightarrow> (int + byte) \<times> 'a comm_scheme \<times> 'e world" where
  "normal_read_byte S c w =
     (let (stop, c, w) =
        (if has_timeout c then
           let (r, w) = call S (Sys_select (comm_sock c) True False False
                                  (Some (comm_tsecs c, comm_tmicro c))) w
           in if sr_ret r < 0
              then (True, comm_setError ''Socket_Comm_Normal select failed for virtualread'' c, w)
              else if sr_ret r = 0
              then (True, comm_setError (timeout_message ''Socket_Comm_Normal'' c) c, w)
              else if \<not> fd_isset_read r
              then (True, comm_setError ''Socket_Comm_Normal virtualread - select returned invalid FD'' c, w)
              else (False, c, w)
         else (False, c, w))
      in if stop then (Inl (- 1), c, w)
         else let (r, w) = call S (Sys_recv (comm_sock c) 1) w
              in if sr_ret r = 0
                 then (Inl 0, comm_setError ''Socket_Comm_Normal virtualread - peer terminated'' c, w)
                 else if sr_ret r < 0
                 then (Inl (- 1), comm_setError ''Socket_Comm_Normal virtualread - Receive Failed'' c, w)
                 else (Inr (recv_byte r), c, w))"

primrec normal_read_loop ::
  "'e sys \<Rightarrow> nat \<Rightarrow> int \<Rightarrow> byte list \<Rightarrow> 'a comm_scheme \<Rightarrow> 'e world \<Rightarrow>
   int \<times> byte list \<times> 'a comm_scheme \<times> 'e world" where
  "normal_read_loop S 0 x buf c w = (x, buf, c, w)"
| "normal_read_loop S (Suc n) x buf c w =
     (case normal_read_byte S c w of
        (Inl rc, c, w) \<Rightarrow> (rc, buf, c, w)
      | (Inr b, c, w) \<Rightarrow> normal_read_loop S n (x + 1) (buf @ [b]) c w)"

text \<open>Returns the code and the bytes stored in the caller's buffer, also on an error.\<close>

definition normal_virtualread ::
  "'e sys \<Rightarrow> 'a comm_scheme \<Rightarrow> int \<Rightarrow> 'e world \<Rightarrow> int \<times> byte list \<times> 'a comm_scheme \<times> 'e world" where
  "normal_virtualread S c bufferlength w = normal_read_loop S (nat bufferlength) 0 [] c w"

definition normal_virtualfinish ::
  "'e sys \<Rightarrow> 'a comm_scheme \<Rightarrow> 'e world \<Rightarrow> bool \<times> 'a comm_scheme \<times> 'e world" where
  "normal_virtualfinish S c w = (True, c, w)"

definition normal_virtualbind ::
  "'e sys \<Rightarrow> 'a comm_scheme \<Rightarrow> 'e world \<Rightarrow> bool \<times> 'a comm_scheme \<times> 'e world" where
  "normal_virtualbind S c w = (True, c, w)"

text \<open>The operations as a client of a \<open>Socket_Comm_Normal\<close> calls them.\<close>

definition normal_bind ::
  "'e sys \<Rightarrow> int \<Rightarrow> 'a comm_scheme \<Rightarrow> 'e world \<Rightarrow> (bool \<times> 'a comm_scheme \<times> 'e world) option" where
  "normal_bind S = base_bind (\<lambda>c w. Some (normal_virtualbind S c w))"

definition normal_finish ::
  "'e sys \<Rightarrow> 'a comm_scheme \<Rightarrow> 'e world \<Rightarrow> (bool \<times> 'a comm_scheme \<times> 'e world) option" where
  "normal_finish S = base_finish (\<lambda>c w. Some (normal_virtualfinish S c w))"

definition normal_send ::
  "'e sys \<Rightarrow> 'a comm_scheme \<Rightarrow> byte list \<Rightarrow> 'e world \<Rightarrow> (int \<times> 'a comm_scheme \<times> 'e world) option" where
  "normal_send S = base_send (\<lambda>c d w. Some (normal_virtualsend S c d w))"

definition normal_read ::
  "'e sys \<Rightarrow> 'a comm_scheme \<Rightarrow> int \<Rightarrow> 'e world \<Rightarrow>
   (int \<times> byte list \<times> 'a comm_scheme \<times> 'e world) option" where
  "normal_read S = base_read (\<lambda>c n w. Some (normal_virtualread S c n w))"

lemmas normal_op_defs = normal_bind_def normal_finish_def normal_send_def normal_read_def

subsection \<open>The message buffer is long enough\<close>

lemma timeout_message_fits:
  assumes "comm_tsecs c \<in> {- (2 ^ 31) ..< 2 ^ 31}" "comm_tmicro c \<in> {- (2 ^ 31) ..< 2 ^ 31}"
    and "length who \<le> 18"
  shows "timeout_message who c =
           who @ '' timed out on virtualread. Seconds: '' @ dec_int (comm_tsecs c)
           @ ''  Milli: '' @ dec_int (comm_tmicro c)"
proof -
  have "length (dec_int (comm_tsecs c)) \<le> 11" "length (dec_int (comm_tmicro c)) \<le> 11"
    using assms by (auto intro: length_dec_int)
  then show ?thesis using assms(3) unfolding timeout_message_def by (simp add: snprintf_id)
qed

subsection \<open>Frames\<close>

text \<open>The plain layer changes only its error message and makes only socket calls.\<close>

lemma normal_send_timed_frame:
  "normal_send_timed S c x d w = (rc, c', w') \<Longrightarrow> io_frame plain_io c0 w0 c w \<Longrightarrow>
   io_frame plain_io c0 w0 c' w'"
proof (induction d arbitrary: x w)
  case (Cons b bs)
  then show ?case
    by (auto simp: Let_def frame_back split: prod.splits if_splits dest: Cons.IH)
qed simp

lemma normal_virtualsend_frame:
  "normal_virtualsend S c d w = (rc, c', w') \<Longrightarrow> io_frame plain_io c0 w0 c w \<Longrightarrow>
   io_frame plain_io c0 w0 c' w'"
  by (auto simp: normal_virtualsend_def Let_def frame_back split: prod.splits if_splits
      dest: normal_send_timed_frame)

lemma normal_read_byte_frame:
  "normal_read_byte S c w = (x, c', w') \<Longrightarrow> io_frame plain_io c0 w0 c w \<Longrightarrow> io_frame plain_io c0 w0 c' w'"
  by (auto simp: normal_read_byte_def Let_def frame_back split: prod.splits if_splits)

lemma normal_read_loop_frame:
  "normal_read_loop S n x buf c w = (rc, bs, c', w') \<Longrightarrow> io_frame plain_io c0 w0 c w \<Longrightarrow>
   io_frame plain_io c0 w0 c' w'"
  by (induction n arbitrary: x buf c w)
    (auto split: prod.splits sum.splits dest: normal_read_byte_frame)

lemma io_frame_layer_frame: "io_frame plain_io c w c' w' \<Longrightarrow> layer_frame c w c' w'"
  using err_only_fields [of c c'] emits_plain_io(2) [of w w']
  by (simp add: io_frame_def layer_frame_def)

text \<open>The plain layer meets the contract of a communication layer.\<close>

interpretation normal: comm_layer
  "\<lambda>c w. Some (normal_virtualbind S c w)" "\<lambda>c w. Some (normal_virtualfinish S c w)"
  "\<lambda>c d w. Some (normal_virtualsend S c d w)" "\<lambda>c n w. Some (normal_virtualread S c n w)"
  for S
proof (unfold_locales, goal_cases)
  case (4 c d w)
  show ?case using normal_virtualsend_frame [of S c d w _ _ _ c w]
    by (auto intro: io_frame_layer_frame split: prod.splits)
next
  case (5 c n w)
  show ?case using normal_read_loop_frame [of S "nat n" 0 "[]" c w _ _ _ _ c w]
    by (auto simp: normal_virtualread_def intro: io_frame_layer_frame)
qed (simp_all add: normal_virtualbind_def normal_virtualfinish_def)

lemma normal_ops_emits [frame_back]:
  "normal_bind S s c w = Some (ok, c', w') \<Longrightarrow> emits plain_io w0 w \<Longrightarrow> emits plain_io w0 w'"
  "normal_finish S c w = Some (ok, c', w') \<Longrightarrow> emits plain_io w0 w \<Longrightarrow> emits plain_io w0 w'"
  "normal_send S c d w = Some (rc, c', w') \<Longrightarrow> emits plain_io w0 w \<Longrightarrow> emits plain_io w0 w'"
  "normal_read S c n w = Some (rc, bs, c', w') \<Longrightarrow> emits plain_io w0 w \<Longrightarrow> emits plain_io w0 w'"
  using normal_virtualsend_frame [of S c d w rc c' w' c w]
    normal_read_loop_frame [of S "nat n" 0 "[]" c w rc bs c' w' c w]
  by (auto simp: normal_op_defs base_bind_def base_finish_def base_send_def base_read_def
      normal_virtualbind_def normal_virtualfinish_def normal_virtualread_def io_frame_def
      intro: emits_trans split: if_splits)

lemma normal_read_loop_numeral [run]:
  "normal_read_loop S (numeral k) x buf c w =
     (case normal_read_byte S c w of
        (Inl rc, c, w) \<Rightarrow> (rc, buf, c, w)
      | (Inr b, c, w) \<Rightarrow> normal_read_loop S (pred_numeral k) (x + 1) (buf @ [b]) c w)"
  by (simp add: numeral_eq_Suc)

lemmas comm_normal_run [run] = send_flags_def normal_virtualsend_def timeout_message_def
  normal_read_byte_def normal_virtualread_def normal_virtualfinish_def normal_virtualbind_def normal_op_defs

subsection \<open>A prompt peer\<close>

text \<open>Reading and sending with a prompt peer; \<open>linked\<close> is a plain layer bound to its descriptor.\<close>

definition linked :: "'e sys \<Rightarrow> ('e \<Rightarrow> byte list) \<Rightarrow> int \<Rightarrow> 'a comm_scheme \<Rightarrow> bool" where
  "linked S rx fd c \<longleftrightarrow> prompt_peer S fd rx \<and> comm_sock c = fd \<and> fd \<noteq> 0"

lemma linked_setError [simp]: "linked S rx fd (comm_setError e c) = linked S rx fd c"
  by (simp add: linked_def)

lemma normal_read_byte_prompt:
  assumes "linked S rx fd c"
  shows "\<exists>x c' w'. normal_read_byte S c w = (x, c', w')
    \<and> (case rx (w_env w) of
         [] \<Rightarrow> x = Inl 0 \<and> linked S rx fd c' \<and> rx (w_env w') = []
       | b # bs \<Rightarrow> x = Inr b \<and> c' = c \<and> rx (w_env w') = bs)"
proof -
  have p: "prompt_peer S fd rx" and s: "comm_sock c = fd" using assms by (auto simp: linked_def)
  have recv: "\<exists>x c' w'. (let (r, w) = call S (Sys_recv fd 1) w0
          in if sr_ret r = 0
             then (Inl 0, comm_setError ''Socket_Comm_Normal virtualread - peer terminated'' c, w)
             else if sr_ret r < 0
             then (Inl (- 1), comm_setError ''Socket_Comm_Normal virtualread - Receive Failed'' c, w)
             else (Inr (recv_byte r), c, w)) = (x, c', w')
      \<and> (case rx (w_env w0) of
           [] \<Rightarrow> x = Inl 0 \<and> linked S rx fd c' \<and> rx (w_env w') = []
         | b # bs \<Rightarrow> x = Inr b \<and> c' = c \<and> rx (w_env w') = bs)" for w0
    using prompt_recv [OF p, of w0] assms
    by (cases "call S (Sys_recv fd 1) w0"; cases "rx (w_env w0)") (auto simp: recv_byte_def)
  show ?thesis
  proof (cases "has_timeout c")
    case False
    then show ?thesis using recv [of w] by (simp add: normal_read_byte_def s)
  next
    case True
    obtain r w1 where 1: "call S (Sys_select fd True False False (Some (comm_tsecs c, comm_tmicro c))) w = (r, w1)"
      by fastforce
    from prompt_select_read [OF p 1] have "0 < sr_ret r" "fd_isset_read r" "rx (w_env w1) = rx (w_env w)" by auto
    then show ?thesis using recv [of w1] True by (simp add: normal_read_byte_def s 1)
  qed
qed

text \<open>A whole read: either all \<open>n\<close> bytes, or 0 once the stream has ended.\<close>

lemma normal_read_loop_prompt:
  "linked S rx fd c \<Longrightarrow>
   \<exists>c' w'. normal_read_loop S n x buf c w
       = (if n \<le> length (rx (w_env w)) then x + int n else 0, buf @ take n (rx (w_env w)), c', w')
     \<and> linked S rx fd c' \<and> rx (w_env w') = drop n (rx (w_env w))
     \<and> (n \<le> length (rx (w_env w)) \<longrightarrow> c' = c)"
proof (induction n arbitrary: x buf w)
  case 0
  then show ?case by simp
next
  case (Suc n)
  from normal_read_byte_prompt [OF Suc.prems, of w] obtain r c1 w1 where
    1: "normal_read_byte S c w = (r, c1, w1)"
    and k: "case rx (w_env w) of
         [] \<Rightarrow> r = Inl 0 \<and> linked S rx fd c1 \<and> rx (w_env w1) = []
       | b # bs \<Rightarrow> r = Inr b \<and> c1 = c \<and> rx (w_env w1) = bs" by blast
  show ?case
  proof (cases "rx (w_env w)")
    case Nil
    then show ?thesis using k 1 by simp
  next
    case (Cons b bs)
    then show ?thesis using k 1 Suc.IH [OF Suc.prems, of "x + 1" "buf @ [b]" w1] by (auto simp: algebra_simps)
  qed
qed

lemma normal_read_prompt:
  assumes "linked S rx fd c" "0 \<le> n"
  shows "\<exists>c' w'. normal_read S c n w
       = Some (if nat n \<le> length (rx (w_env w)) then n else 0, take (nat n) (rx (w_env w)), c', w')
     \<and> linked S rx fd c' \<and> rx (w_env w') = drop (nat n) (rx (w_env w))
     \<and> (nat n \<le> length (rx (w_env w)) \<longrightarrow> c' = c)"
proof -
  have "comm_sock c \<noteq> 0" using assms(1) by (simp add: linked_def)
  then have "normal_read S c n w = Some (normal_read_loop S (nat n) 0 [] c w)"
    by (simp add: normal_read_def base_read_def normal_virtualread_def)
  with normal_read_loop_prompt [OF assms(1), of "nat n" 0 "[]" w] assms(2) show ?thesis by auto
qed

lemma normal_send_timed_prompt:
  "linked S rx fd c \<Longrightarrow> \<exists>w'. normal_send_timed S c x d w = (x + int (length d), c, w')
     \<and> rx (w_env w') = rx (w_env w) \<and> wire fd w' = wire fd w @ d"
proof (induction d arbitrary: x w)
  case Nil
  then show ?case by simp
next
  case (Cons b d)
  then have p: "prompt_peer S fd rx" and s: "comm_sock c = fd" by (auto simp: linked_def)
  obtain r w1 where 1: "call S (Sys_select fd False True False (Some (comm_tsecs c, comm_tmicro c))) w = (r, w1)"
    by fastforce
  obtain q w2 where 2: "call S (Sys_send fd [b] (send_flags S)) w1 = (q, w2)" by fastforce
  have w1: "0 < sr_ret r" "fd_isset_write r" "rx (w_env w1) = rx (w_env w)" "wire fd w1 = wire fd w"
    using prompt_select_write [OF p 1] wire_call [OF 1] by auto
  have w2: "sr_ret q = 1" "rx (w_env w2) = rx (w_env w)" "wire fd w2 = wire fd w @ [b]"
    using prompt_send [OF p 2] wire_call [OF 2] w1 by auto
  from Cons.IH [OF Cons.prems, of "x + 1" w2] w1 w2 show ?case
    by (auto simp: s 1 2)
qed

lemma normal_send_prompt:
  assumes l: "linked S rx fd c" and d: "d \<noteq> []"
  shows "\<exists>w'. normal_send S c d w = Some (int (length d), c, w')
     \<and> rx (w_env w') = rx (w_env w) \<and> wire fd w' = wire fd w @ d"
proof -
  have p: "prompt_peer S fd rx" and s: "comm_sock c = fd" "fd \<noteq> 0" using l by (auto simp: linked_def)
  show ?thesis
  proof (cases "has_timeout c")
    case True
    then show ?thesis
      using normal_send_timed_prompt [OF l, of 0 d w] s
      by (auto simp: normal_send_def base_send_def normal_virtualsend_def)
  next
    case False
    obtain q w2 where 2: "call S (Sys_send fd d (send_flags S)) w = (q, w2)" by fastforce
    have "sr_ret q = int (length d)" "rx (w_env w2) = rx (w_env w)" "wire fd w2 = wire fd w @ d"
      using prompt_send [OF p 2] wire_call [OF 2] by auto
    then show ?thesis using False s d 2
      by (simp add: normal_send_def base_send_def normal_virtualsend_def)
  qed
qed

lemma normal_read_byte_no_send:
  "normal_read_byte S c w = (x, c', w') \<Longrightarrow> emits no_send w0 w \<Longrightarrow> emits no_send w0 w'"
  by (auto simp: normal_read_byte_def Let_def frame_back split: prod.splits if_splits)

lemma normal_read_loop_no_send:
  "normal_read_loop S n x buf c w = (rc, bs, c', w') \<Longrightarrow> emits no_send w0 w \<Longrightarrow> emits no_send w0 w'"
  by (induction n arbitrary: x buf c w)
    (auto split: prod.splits sum.splits dest: normal_read_byte_no_send)

lemma normal_read_no_send [frame_back]:
  "normal_read S c n w = Some (rc, bs, c', w') \<Longrightarrow> emits no_send w0 w \<Longrightarrow> emits no_send w0 w'"
  using normal_read_loop_no_send [of S "nat n" 0 "[]" c w rc bs c' w' w0]
  by (auto simp: normal_read_def base_read_def normal_virtualread_def split: if_splits)

lemma normal_read_exact:
  assumes "linked S rx fd c" "rx (w_env w) = bs @ rest" "n = int (length bs)"
  shows "\<exists>w'. normal_read S c n w = Some (n, bs, c, w') \<and> rx (w_env w') = rest
    \<and> wire fd w' = wire fd w"
proof -
  obtain c' w' where r: "normal_read S c n w = Some (n, bs, c', w')" "c' = c" "rx (w_env w') = rest"
    using normal_read_prompt [OF assms(1), of n w] assms(2,3) by auto
  then show ?thesis using wire_emits [OF normal_read_no_send [OF r(1) emits_refl]] by auto
qed

lemma normal_bind_fresh:
  "comm_sock c = 0 \<Longrightarrow> s \<noteq> 0 \<Longrightarrow> normal_bind S s c w = Some (True, c\<lparr>comm_sock := s\<rparr>, w)"
  by (simp add: normal_bind_def base_bind_def normal_virtualbind_def)

lemma linked_new:
  "prompt_peer S s rx \<Longrightarrow> s \<noteq> 0 \<Longrightarrow> linked S rx s (comm_setTimeout a b (c\<lparr>comm_sock := s\<rparr>))"
  by (simp add: linked_def)

lemma normal_send_timed_prefix:
  "normal_send_timed S c x d w = (rc, c', w') \<Longrightarrow>
   \<exists>k \<le> length d. wire (comm_sock c) w' = wire (comm_sock c) w @ take k d \<and> (rc = - 1 \<or> rc = x + int k)"
proof (induction d arbitrary: x w)
  case Nil
  then show ?case by simp
next
  case (Cons b bs)
  let ?fd = "comm_sock c"
  obtain r w1 where 1: "call S (Sys_select ?fd False True False (Some (comm_tsecs c, comm_tmicro c))) w = (r, w1)"
    by fastforce
  obtain q w2 where 2: "call S (Sys_send ?fd [b] (send_flags S)) w1 = (q, w2)" by fastforce
  have w1: "wire ?fd w1 = wire ?fd w" using wire_call [OF 1] by simp
  show ?case
  proof (cases "0 < sr_ret r \<and> fd_isset_write r \<and> 0 < sr_ret q")
    case True
    then have w2: "wire ?fd w2 = wire ?fd w @ [b]" using wire_call [OF 2, of ?fd] w1 by (cases "nat (sr_ret q)") auto
    have "normal_send_timed S c (x + 1) bs w2 = (rc, c', w')"
      using Cons.prems True 1 2 by auto
    from Cons.IH [OF this] obtain k where "k \<le> length bs" "wire ?fd w' = wire ?fd w2 @ take k bs"
      "rc = - 1 \<or> rc = x + 1 + int k" by blast
    then show ?thesis using w2 by (intro exI [of _ "Suc k"]) auto
  next
    case False
    have "wire ?fd w2 = wire ?fd w1" if "\<not> 0 < sr_ret q" using wire_call [OF 2, of ?fd] that by simp
    then show ?thesis
      using Cons.prems False w1 by (intro exI [of _ 0]) (auto simp: 1 2 split: if_splits)
  qed
qed

end
