(* ===== verification/Comm_Normal_Time.thy ===== *)
theory Comm_Normal_Time
  imports Comm_Normal
begin

text \<open>
  How long the timed operations of \<open>Socket_Comm_Normal\<close> take (src/src/socket\_comm\_normal.cpp): each byte
  has a \<open>select\<close> of its own with the whole timeout, so the timeout bounds the wait for a byte, not the
  operation.
\<close>

text \<open>
  The longest a call may take, apart from a \<open>tick\<close>: a \<open>select\<close> its limit; \<open>recv\<close> and \<open>send\<close>, made on a
  descriptor that is ready, no wait at all. \<open>lingering\<close> says that a wait with a limit of \<open>d\<close> or
  more takes at least \<open>d\<close>.
\<close>

fun wait_limit :: "syscall \<Rightarrow> int option" where
  "wait_limit (Sys_select fd rd wr ex (Some (s, u))) = (if 0 \<le> s \<and> 0 \<le> u then Some (s * 1000000000 + u * 1000) else None)"
| "wait_limit (Sys_recv fd n) = Some 0"
| "wait_limit (Sys_send fd d fl) = Some 0"
| "wait_limit k = None"

definition paced :: "'e sys \<Rightarrow> ('e \<Rightarrow> int) \<Rightarrow> int \<Rightarrow> bool" where
  "paced S now tick \<longleftrightarrow> (\<forall>k t e r e'. wait_limit k = Some t \<longrightarrow> sys_step S k e = (r, e') \<longrightarrow>
     now e \<le> now e' \<and> now e' \<le> now e + t + tick)"

definition lingering :: "'e sys \<Rightarrow> ('e \<Rightarrow> int) \<Rightarrow> int \<Rightarrow> bool" where
  "lingering S now d \<longleftrightarrow> (\<forall>fd rd wr ex s u e r e'. d \<le> s * 1000000000 + u * 1000 \<longrightarrow>
     sys_step S (Sys_select fd rd wr ex (Some (s, u))) e = (r, e') \<longrightarrow> now e + d \<le> now e')"

definition timeout_of :: "'a comm_scheme \<Rightarrow> int" where
  "timeout_of c = comm_tsecs c * 1000000000 + comm_tmicro c * 1000"

definition timeout_ok :: "'a comm_scheme \<Rightarrow> bool" where
  "timeout_ok c \<longleftrightarrow> has_timeout c \<and> 0 \<le> comm_tsecs c \<and> 0 \<le> comm_tmicro c"

lemma paced_call:
  "paced S now tick \<Longrightarrow> call S k w = (r, w') \<Longrightarrow> wait_limit k = Some t \<Longrightarrow>
   now (w_env w) \<le> now (w_env w') \<and> now (w_env w') \<le> now (w_env w) + t + tick"
  using call_env [of S k w r w'] unfolding paced_def by blast

lemma lingering_call:
  "lingering S now d \<Longrightarrow> call S (Sys_select fd rd wr ex (Some (s, u))) w = (r, w') \<Longrightarrow>
   d \<le> s * 1000000000 + u * 1000 \<Longrightarrow> now (w_env w) + d \<le> now (w_env w')"
  using call_env [of S "Sys_select fd rd wr ex (Some (s, u))" w r w'] unfolding lingering_def by blast

text \<open>One byte: one wait.\<close>

lemma read_byte_time:
  assumes p: "paced S now tick" and l: "lingering S now d" "0 \<le> tick" "d \<le> timeout_of c" and c: "timeout_ok c"
    and r: "normal_read_byte S c w = (x, c', w')"
  shows "now (w_env w') \<le> now (w_env w) + (timeout_of c + 2 * tick) \<and> now (w_env w) + d \<le> now (w_env w')
    \<and> (\<forall>b. x = Inr b \<longrightarrow> c' = c)"
proof -
  obtain q w1 where 1: "call S (Sys_select (comm_sock c) True False False (Some (comm_tsecs c, comm_tmicro c))) w = (q, w1)"
    by fastforce
  obtain v w2 where 2: "call S (Sys_recv (comm_sock c) 1) w1 = (v, w2)" by fastforce
  have "w' = w1 \<and> (\<forall>b. x \<noteq> Inr b) \<or> w' = w2 \<and> (\<forall>b. x = Inr b \<longrightarrow> c' = c)"
    using r c by (auto simp: normal_read_byte_def timeout_ok_def 1 2 Let_def split: if_splits)
  then show ?thesis
    using paced_call [OF p 1] paced_call [OF p 2] lingering_call [OF l(1) 1] c l(2,3)
    by (auto simp: timeout_ok_def timeout_of_def)
qed

lemma read_loop_time:
  assumes p: "paced S now tick" and l: "lingering S now d" "0 \<le> d" "0 \<le> tick" "d \<le> timeout_of c" and c: "timeout_ok c"
    and r: "normal_read_loop S n x buf c w = (rc, bs, c', w')"
  shows "now (w_env w') \<le> now (w_env w) + int n * (timeout_of c + 2 * tick)
    \<and> now (w_env w) + (int (length bs) - int (length buf)) * d \<le> now (w_env w')"
  using r
proof (induction n arbitrary: x buf w)
  case (Suc n)
  obtain y c1 w1 where 1: "normal_read_byte S c w = (y, c1, w1)" using prod_cases3 by blast
  note t = read_byte_time [OF p l(1,3,4) c 1]
  have T: "0 \<le> timeout_of c + 2 * tick" using c l(3) by (simp add: timeout_ok_def timeout_of_def)
  show ?case
  proof (cases y)
    case (Inl e)
    then have "w' = w1" "bs = buf" using Suc.prems 1 by simp_all
    then show ?thesis using t T l(2) mult_nonneg_nonneg [of "int n" "timeout_of c + 2 * tick"]
      by (auto simp: algebra_simps)
  next
    case (Inr b)
    then have "normal_read_loop S n (x + 1) (buf @ [b]) c w1 = (rc, bs, c', w')" using Suc.prems 1 t by simp
    from Suc.IH [OF this] t show ?thesis by (simp add: algebra_simps)
  qed
qed simp

text \<open>
  C27. The timeout bounds the wait for each byte, not the operation: a timed read of \<open>n\<close> bytes over a plain
  layer, whatever the peer does, is over after \<open>n\<close> timeouts (and the time of the calls themselves), and a peer that
  keeps each byte back for \<open>d\<close> makes it take \<open>d\<close> for every byte stored, however much that is (in the worked
  example, 2.7 seconds under a timeout of one).
\<close>

theorem timeout_is_per_byte:
  assumes "paced S now tick" "lingering S now d" "0 \<le> d" "0 \<le> tick" "d \<le> timeout_of c" "timeout_ok c" "0 \<le> n"
    and "normal_read S c n w = Some (rc, bs, c', w')"
  shows "now (w_env w') \<le> now (w_env w) + n * (timeout_of c + 2 * tick)
    \<and> now (w_env w) + int (length bs) * d \<le> now (w_env w')"
proof (cases "comm_sock c = 0")
  case True
  then have "w' = w" "bs = []" using assms(8) by (simp_all add: normal_read_def base_read_def)
  moreover have "0 \<le> timeout_of c + 2 * tick" using assms(4,6) by (simp add: timeout_ok_def timeout_of_def)
  ultimately show ?thesis using assms(7) by simp
next
  case False
  then have "normal_read_loop S (nat n) 0 [] c w = (rc, bs, c', w')"
    using assms(8) by (simp add: normal_read_def base_read_def normal_virtualread_def)
  from read_loop_time [OF assms(1-6) this] assms(7) show ?thesis by simp
qed

text \<open>The same for a timed send.\<close>

lemma send_loop_time:
  assumes p: "paced S now tick" and l: "0 \<le> tick" and c: "timeout_ok c"
    and r: "normal_send_timed S c x bs w = (rc, c', w')"
  shows "now (w_env w') \<le> now (w_env w) + int (length bs) * (timeout_of c + 2 * tick)"
  using r
proof (induction bs arbitrary: x w)
  case (Cons b bs)
  obtain q w1 where 1: "call S (Sys_select (comm_sock c) False True False (Some (comm_tsecs c, comm_tmicro c))) w = (q, w1)"
    by fastforce
  obtain v w2 where 2: "call S (Sys_send (comm_sock c) [b] (send_flags S)) w1 = (v, w2)" by fastforce
  have t: "now (w_env w1) \<le> now (w_env w) + timeout_of c + tick" "now (w_env w2) \<le> now (w_env w1) + tick"
    using paced_call [OF p 1] paced_call [OF p 2] c by (simp_all add: timeout_ok_def timeout_of_def)
  have T: "0 \<le> int (length bs) * (timeout_of c + 2 * tick)" using c l by (simp add: timeout_ok_def timeout_of_def)
  consider "w' = w1" | "w' = w2" | "normal_send_timed S c (x + 1) bs w2 = (rc, c', w')"
    using Cons.prems by (auto simp: 1 2 Let_def split: if_splits)
  then show ?case
  proof cases
    case 3
    from Cons.IH [OF this] t show ?thesis by (simp add: algebra_simps)
  qed (use t T l in \<open>simp_all add: algebra_simps\<close>)
qed simp

text \<open>A peer that lets each byte come after nine tenths of a second; the state is the time and the bytes.\<close>

fun drip_step :: "syscall \<Rightarrow> int \<times> byte list \<Rightarrow> sysret \<times> int \<times> byte list" where
  "drip_step (Sys_select fd rd wr ex (Some (s, u))) (t, bs) =
     (let limit = s * 1000000000 + u * 1000
      in if 0 \<le> s \<and> 0 \<le> u \<and> limit < 900000000 then (ans 0, t + limit, bs)
         else ((ans 1)\<lparr>sr_val := 7\<rparr>, t + 900000000, bs))"
| "drip_step (Sys_recv fd n) (t, bs) =
     (case bs of [] \<Rightarrow> (ans 0, t, []) | b # cs \<Rightarrow> ((ans 1)\<lparr>sr_bytes := [b]\<rparr>, t, cs))"
| "drip_step k (t, bs) = (ans 0, t, bs)"

definition drip_sys :: "(int \<times> byte list) sys" where
  "drip_sys = \<lparr>sys_step = drip_step, sys_strerror = (\<lambda>n. []), sys_build = linux\<rparr>"

lemma paced_drip: "paced drip_sys fst 0"
  unfolding paced_def
proof (intro allI impI)
  fix k t and e e' :: "int \<times> byte list" and r
  assume "wait_limit k = Some t" "sys_step drip_sys k e = (r, e')"
  then show "fst e \<le> fst e' \<and> fst e' \<le> fst e + t + 0"
    by (cases "(k, e)" rule: drip_step.cases) (auto simp: drip_sys_def Let_def split: if_splits list.splits)
qed

lemma lingering_drip: "lingering drip_sys fst 900000000"
  by (auto simp: lingering_def drip_sys_def Let_def split: if_splits)

lemma timeout_is_per_byte_witness:
  "\<exists>(c :: comm) c' w'. timeout_of c = 1000000000 \<and> normal_read drip_sys c 3 (start (0, [1, 2, 3])) = Some (3, [1, 2, 3], c', w')
    \<and> 2700000000 \<le> fst (w_env w') \<and> fst (w_env w') \<le> 3000000000"
proof -
  let ?c = "comm_new\<lparr>comm_sock := 3, comm_tsecs := 1\<rparr>"
  have ok: "timeout_ok ?c" "timeout_of ?c = 1000000000"
    by (simp_all add: timeout_ok_def has_timeout_def timeout_of_def comm_new_def)
  obtain c' w' where r: "normal_read drip_sys ?c 3 (start (0, [1, 2, 3])) = Some (3, [1, 2, 3], c', w')"
    by (simp add: run drip_sys_def)
  have "2700000000 \<le> fst (w_env w') \<and> fst (w_env w') \<le> 3000000000"
    using timeout_is_per_byte [OF paced_drip lingering_drip _ _ _ ok(1) _ r] by (simp add: ok(2) start_def)
  then show ?thesis using r ok(2) by blast
qed

end
