(* ===== verification/Comm_SSH.thy ===== *)
theory Comm_SSH
  imports Comm_Base
begin

text \<open>
  \<open>Socket_Comm_SSH\<close> (src/src/socket_comm_ssh.h, socket_comm_ssh.cpp): TLS over OpenSSL, for
  OpenSSL 1.1.0 or newer. The record extends \<open>comm\<close> with the two OpenSSL handles, the host name
  and the verification switch. The clock counts nanoseconds. Each \<open>while(1)\<close> is a \<open>forever\<close>
  whose body is the turn defined before it: \<open>Inl rc\<close> returns, \<open>Inr\<close> goes round again.
\<close>

record ssh_comm = comm +
  ssh_ctx :: int
  ssh_ssl :: int
  ssh_hostname :: string
  ssh_verify :: bool

definition ssh_new :: ssh_comm where
  "ssh_new = comm.extend comm_new (ssh_comm.fields 0 0 [] True)"

definition ssh_setHostname :: "string option \<Rightarrow> ssh_comm \<Rightarrow> ssh_comm" where
  "ssh_setHostname h c = c\<lparr>ssh_hostname := (case h of None \<Rightarrow> [] | Some s \<Rightarrow> s)\<rparr>"

definition ssh_setVerifyPeer :: "bool \<Rightarrow> ssh_comm \<Rightarrow> ssh_comm" where
  "ssh_setVerifyPeer v c = c\<lparr>ssh_verify := v\<rparr>"

subsection \<open>Helpers\<close>

definition isIPLiteral :: "string \<Rightarrow> bool" where
  "isIPLiteral host =
     (if CHR '':'' \<in> set host then True
      else let span = length (takeWhile (\<lambda>c. c \<in> set ''0123456789.'') host)
           in span > 0 \<and> span = length host)"

definition remainingUntil ::
  "'e sys \<Rightarrow> int \<Rightarrow> 'e world \<Rightarrow> (int \<times> int) option \<times> 'e world" where
  "remainingUntil S deadline w =
     (let (r, w) = call S Sys_clock w; left = deadline - sr_val r
      in if left \<le> 0 then (None, w)
         else let usecs = left div 1000 in (Some (usecs div 1000000, usecs mod 1000000), w))"

definition deadline_after :: "'e sys \<Rightarrow> 'a comm_scheme \<Rightarrow> 'e world \<Rightarrow> int \<times> 'e world" where
  "deadline_after S c w =
     (let (r, w) = call S Sys_clock w
      in (sr_val r + comm_tsecs c * 1000000000 + comm_tmicro c * 1000, w))"

text \<open>\<open>NonBlockingScope\<close>: its constructor and its destructor, which runs on every return.\<close>

record nonblocking_scope =
  nb_socket :: int
  nb_restore :: bool
  nb_oldflags :: int

definition nb_enter :: "'e sys \<Rightarrow> int \<Rightarrow> 'e world \<Rightarrow> nonblocking_scope \<times> 'e world" where
  "nb_enter S sock w =
     (let (r, w) = call S (Sys_getfl sock) w
      in if sr_ret r \<noteq> - 1
         then let (q, w) = call S (Sys_setfl sock (sr_ret r OR O_NONBLOCK)) w
              in (\<lparr>nb_socket = sock, nb_restore = (sr_ret q \<noteq> - 1), nb_oldflags = sr_ret r\<rparr>, w)
         else (\<lparr>nb_socket = sock, nb_restore = False, nb_oldflags = sr_ret r\<rparr>, w))"

definition nb_leave :: "'e sys \<Rightarrow> nonblocking_scope \<Rightarrow> 'e world \<Rightarrow> 'e world" where
  "nb_leave S nb w =
     (if \<not> nb_restore nb then w
      else let (r, w) = call S (Sys_setfl (nb_socket nb) (nb_oldflags nb)) w in w)"

definition drain_turn ::
  "'e sys \<Rightarrow> string \<times> 'e world \<Rightarrow> ((string \<times> 'e world) + (string \<times> 'e world)) option" where
  "drain_turn S = (\<lambda>(message, w).
     let (r, w) = call S Err_get_error w
     in if sr_ret r = 0 then Some (Inl (message, w))
        else let (t, w) = call S (Err_error_string (sr_ret r)) w
             in Some (Inr (message @ '': '' @ sr_text t, w)))"

definition setSSLError ::
  "'e sys \<Rightarrow> string \<Rightarrow> ssh_comm \<Rightarrow> 'e world \<Rightarrow> (ssh_comm \<times> 'e world) option" where
  "setSSLError S prefix c w =
     (let (message, w) =
        (if ssh_ssl c \<noteq> 0 then
           let (r, w) = call S (Ssl_get_verify_result (ssh_ssl c)) w
           in if sr_ret r \<noteq> X509_V_OK then
                let (t, w) = call S (Ssl_verify_error_string (sr_ret r)) w
                in (prefix @ '': certificate verification failed: '' @ sr_text t
                    @ '' (call setSSLVerify(false) to disable verification)'', w)
              else (prefix, w)
         else (prefix, w))
      in do {
        (message, w) \<leftarrow> forever (drain_turn S) (message, w);
        Some (comm_setError message c, w)
      })"

definition want_io :: "int \<Rightarrow> bool" where
  "want_io e = (e = SSL_ERROR_WANT_READ \<or> e = SSL_ERROR_WANT_WRITE)"

subsection \<open>virtualsend\<close>

text \<open>The wait before an \<open>SSL_write\<close>: whether to give up, with the error set.\<close>

definition ssh_send_wait ::
  "'e sys \<Rightarrow> int \<Rightarrow> bool \<Rightarrow> ssh_comm \<Rightarrow> 'e world \<Rightarrow> bool \<times> ssh_comm \<times> 'e world" where
  "ssh_send_wait S deadline wantread c w =
     (case remainingUntil S deadline w of
        (None, w) \<Rightarrow> (True, comm_setError ''Socket_Comm_SSH timed out on virtualsend'' c, w)
      | (Some tv, w) \<Rightarrow>
          let (r, w) = call S (Sys_select (comm_sock c) wantread True False (Some tv)) w
          in if sr_ret r < 0
             then (True, comm_setError ''Socket_Comm_SSH select failed for virtualsend'' c, w)
             else if sr_ret r = 0
             then (True, comm_setError ''Socket_Comm_SSH timed out on virtualsend'' c, w)
             else (False, c, w))"

definition ssh_send_turn ::
  "'e sys \<Rightarrow> byte list \<Rightarrow> int \<Rightarrow> bool \<times> ssh_comm \<times> 'e world \<Rightarrow>
   ((int \<times> ssh_comm \<times> 'e world) + (bool \<times> ssh_comm \<times> 'e world)) option" where
  "ssh_send_turn S d deadline = (\<lambda>(wantread, c, w).
     let (stop, c, w) = (if has_timeout c then ssh_send_wait S deadline wantread c w
                         else (False, c, w))
     in if stop then Some (Inl (- 1, c, w))
        else let (r, w) = call S (Ssl_write (ssh_ssl c) d) w
        in if sr_ret r > 0 then Some (Inl (sr_ret r, c, w))
        else let (q, w) = call S (Ssl_get_error (ssh_ssl c) (sr_ret r)) w; sslerror = sr_ret q
        in if want_io sslerror then
             (if \<not> has_timeout c then
                let (s, w) = call S (Sys_select (comm_sock c) False True False None) w
                in if sr_ret s < 0
                   then Some (Inl (- 1, comm_setError ''Socket_Comm_SSH select failed for virtualsend'' c, w))
                   else Some (Inr (sslerror = SSL_ERROR_WANT_READ, c, w))
              else Some (Inr (sslerror = SSL_ERROR_WANT_READ, c, w)))
           else if sslerror = SSL_ERROR_ZERO_RETURN
           then Some (Inl (- 1, comm_setError ''Socket_Comm_SSH virtualsend - peer terminated'' c, w))
           else do {
             (c, w) \<leftarrow> setSSLError S ''Socket_Comm_SSH virtualsend - Send Failed'' c w;
             Some (Inl (- 1, c, w))
           })"

definition ssh_virtualsend ::
  "'e sys \<Rightarrow> ssh_comm \<Rightarrow> byte list \<Rightarrow> 'e world \<Rightarrow> (int \<times> ssh_comm \<times> 'e world) option" where
  "ssh_virtualsend S c d w =
     (if ssh_ssl c = 0
      then Some (- 1, comm_setError ''Socket_Comm_SSH virtualsend - SSL connection not established'' c, w)
      else do {
        let (nb, w) = nb_enter S (if has_timeout c then comm_sock c else - 1) w;
        let (deadline, w) = deadline_after S c w;
        (rc, c, w) \<leftarrow> forever (ssh_send_turn S d deadline) (False, c, w);
        Some (rc, c, nb_leave S nb w)
      })"

subsection \<open>virtualread\<close>

definition ssh_timeout_message :: "'a comm_scheme \<Rightarrow> string" where
  "ssh_timeout_message c =
     snprintf 100 (''Socket_Comm_SSH timed out on virtualread. Seconds: '' @ dec_int (comm_tsecs c)
                   @ ''  Milli: '' @ dec_int (comm_tmicro c))"

definition ssh_read_wait ::
  "'e sys \<Rightarrow> int \<Rightarrow> bool \<Rightarrow> ssh_comm \<Rightarrow> 'e world \<Rightarrow> bool \<times> ssh_comm \<times> 'e world" where
  "ssh_read_wait S deadline wantwrite c w =
     (case remainingUntil S deadline w of
        (None, w) \<Rightarrow> (True, comm_setError (ssh_timeout_message c) c, w)
      | (Some tv, w) \<Rightarrow>
          let (r, w) = call S (Sys_select (comm_sock c) True wantwrite False (Some tv)) w
          in if sr_ret r < 0
             then (True, comm_setError ''Socket_Comm_SSH select failed for virtualread'' c, w)
             else if sr_ret r = 0
             then (True, comm_setError (ssh_timeout_message c) c, w)
             else (False, c, w))"

definition ssh_read_turn ::
  "'e sys \<Rightarrow> int \<Rightarrow> int \<Rightarrow> bool \<times> ssh_comm \<times> 'e world \<Rightarrow>
   ((int \<times> byte list \<times> ssh_comm \<times> 'e world) + (bool \<times> ssh_comm \<times> 'e world)) option" where
  "ssh_read_turn S n deadline = (\<lambda>(wantwrite, c, w).
     let (p, w) = call S (Ssl_pending (ssh_ssl c)) w;
         (stop, c, w) = (if sr_ret p \<le> 0 \<and> has_timeout c
                         then ssh_read_wait S deadline wantwrite c w else (False, c, w))
     in if stop then Some (Inl (- 1, [], c, w))
        else let (r, w) = call S (Ssl_read (ssh_ssl c) n) w
        in if sr_ret r > 0 then Some (Inl (sr_ret r, sr_bytes r, c, w))
        else let (q, w) = call S (Ssl_get_error (ssh_ssl c) (sr_ret r)) w; sslerror = sr_ret q
        in if want_io sslerror then
             (if \<not> has_timeout c then
                let (s, w) = call S (Sys_select (comm_sock c) True False False None) w
                in if sr_ret s < 0
                   then Some (Inl (- 1, [], comm_setError ''Socket_Comm_SSH select failed for virtualread'' c, w))
                   else Some (Inr (sslerror = SSL_ERROR_WANT_WRITE, c, w))
              else Some (Inr (sslerror = SSL_ERROR_WANT_WRITE, c, w)))
           else if sslerror = SSL_ERROR_ZERO_RETURN
           then Some (Inl (0, [], comm_setError ''Socket_Comm_SSH virtualread - peer terminated'' c, w))
           else if sslerror = SSL_ERROR_SYSCALL \<and> sr_ret r = 0
           then Some (Inl (0, [], comm_setError ''Socket_Comm_SSH virtualread - peer terminated'' c, w))
           else do {
             (c, w) \<leftarrow> setSSLError S ''Socket_Comm_SSH virtualread - Receive Failed'' c w;
             Some (Inl (- 1, [], c, w))
           })"

definition ssh_virtualread ::
  "'e sys \<Rightarrow> ssh_comm \<Rightarrow> int \<Rightarrow> 'e world \<Rightarrow> (int \<times> byte list \<times> ssh_comm \<times> 'e world) option" where
  "ssh_virtualread S c n w =
     (if ssh_ssl c = 0
      then Some (- 1, [], comm_setError ''Socket_Comm_SSH virtualread - SSL connection not established'' c, w)
      else do {
        let (nb, w) = nb_enter S (if has_timeout c then comm_sock c else - 1) w;
        let (deadline, w) = deadline_after S c w;
        (rc, bs, c, w) \<leftarrow> forever (ssh_read_turn S n deadline) (False, c, w);
        Some (rc, bs, c, nb_leave S nb w)
      })"

subsection \<open>virtualfinish\<close>

definition ssh_virtualfinish ::
  "'e sys \<Rightarrow> ssh_comm \<Rightarrow> 'e world \<Rightarrow> bool \<times> ssh_comm \<times> 'e world" where
  "ssh_virtualfinish S c w =
     (let (c, w) =
        (if ssh_ssl c \<noteq> 0 then
           let (r, w) = call S (Ssl_shutdown (ssh_ssl c)) w;
               (r, w) = call S (Ssl_free (ssh_ssl c)) w
           in (c\<lparr>ssh_ssl := 0\<rparr>, w)
         else (c, w));
          (c, w) =
        (if ssh_ctx c \<noteq> 0 then
           let (r, w) = call S (Ssl_ctx_free (ssh_ctx c)) w
           in (c\<lparr>ssh_ctx := 0\<rparr>, w)
         else (c, w))
      in (True, c, w))"

subsection \<open>virtualbind\<close>

definition ssh_handshake_turn ::
  "'e sys \<Rightarrow> int \<Rightarrow> ssh_comm \<times> 'e world \<Rightarrow>
   ((bool \<times> ssh_comm \<times> 'e world) + (ssh_comm \<times> 'e world)) option" where
  "ssh_handshake_turn S deadline = (\<lambda>(c, w).
     let (r, w) = call S (Ssl_connect (ssh_ssl c)) w
     in if sr_ret r = 1 then Some (Inl (True, c, w))
        else let (q, w) = call S (Ssl_get_error (ssh_ssl c) (sr_ret r)) w; sslerror = sr_ret q
        in if \<not> has_timeout c \<or> \<not> want_io sslerror
           then do {
             (c, w) \<leftarrow> setSSLError S ''Socket_Comm_SSH SSL handshake failed'' c w;
             Some (Inl (False, c, w))
           }
           else case remainingUntil S deadline w of
             (None, w) \<Rightarrow>
               Some (Inl (False, comm_setError ''Socket_Comm_SSH timed out during SSL handshake'' c, w))
           | (Some tv, w) \<Rightarrow>
               let wantwrite = (sslerror = SSL_ERROR_WANT_WRITE);
                   (s, w) = call S (Sys_select (comm_sock c) (\<not> wantwrite) wantwrite False (Some tv)) w
               in if sr_ret s < 0
                  then Some (Inl (False, comm_setError ''Socket_Comm_SSH select failed during SSL handshake'' c, w))
                  else if sr_ret s = 0
                  then Some (Inl (False, comm_setError ''Socket_Comm_SSH timed out during SSL handshake'' c, w))
                  else Some (Inr (c, w)))"

text \<open>What is configured on the fresh \<open>SSL\<close> object before the handshake: SNI, the host to match,
  the verification mode and the descriptor.\<close>

definition ssh_configure :: "'e sys \<Rightarrow> ssh_comm \<Rightarrow> 'e world \<Rightarrow> 'e world" where
  "ssh_configure S c w =
     (let h = ssh_hostname c;
          isip = (if h = [] then False else isIPLiteral h);
          w = (if h \<noteq> [] \<and> \<not> isip then snd (call S (Ssl_set_sni (ssh_ssl c) h) w) else w);
          w = (if ssh_verify c then
                 let w = (if h \<noteq> [] \<and> \<not> isip then snd (call S (Ssl_set1_host (ssh_ssl c) h) w) else w)
                 in snd (call S (Ssl_set_verify_peer (ssh_ssl c)) w)
               else w)
      in snd (call S (Ssl_set_fd (ssh_ssl c) (comm_sock c)) w))"

definition ssh_handshake ::
  "'e sys \<Rightarrow> ssh_comm \<Rightarrow> 'e world \<Rightarrow> (bool \<times> ssh_comm \<times> 'e world) option" where
  "ssh_handshake S c w = do {
     let (nb, w) = nb_enter S (if has_timeout c then comm_sock c else - 1) w;
     let (deadline, w) = deadline_after S c w;
     (ok, c, w) \<leftarrow> forever (ssh_handshake_turn S deadline) (c, w);
     Some (ok, c, nb_leave S nb w)
   }"

definition ssh_virtualbind ::
  "'e sys \<Rightarrow> ssh_comm \<Rightarrow> 'e world \<Rightarrow> (bool \<times> ssh_comm \<times> 'e world) option" where
  "ssh_virtualbind S c w =
     (let (r, w) = call S Ssl_ctx_new w; c = c\<lparr>ssh_ctx := sr_ret r\<rparr>
      in if ssh_ctx c = 0
         then do {
           (c, w) \<leftarrow> setSSLError S ''Socket_Comm_SSH could not create SSL context'' c w;
           Some (False, c, w)
         }
         else
           let (cas, w) = (if ssh_verify c
                           then let (r, w) = call S (Ssl_ctx_default_verify_paths (ssh_ctx c)) w
                                in (sr_ret r \<noteq> 0, w)
                           else (True, w))
           in if \<not> cas
              then do {
                (c, w) \<leftarrow> setSSLError S ''Socket_Comm_SSH could not load system CA certificates'' c w;
                Some (False, c, w)
              }
              else
                let (r, w) = call S (Ssl_new (ssh_ctx c)) w; c = c\<lparr>ssh_ssl := sr_ret r\<rparr>
                in if ssh_ssl c = 0
                   then do {
                     (c, w) \<leftarrow> setSSLError S ''Socket_Comm_SSH could not create SSL structure'' c w;
                     Some (False, c, w)
                   }
                   else ssh_handshake S c (ssh_configure S c w))"

text \<open>The operations as a client of a \<open>Socket_Comm_SSH\<close> calls them.\<close>

definition ssh_bind ::
  "'e sys \<Rightarrow> int \<Rightarrow> ssh_comm \<Rightarrow> 'e world \<Rightarrow> (bool \<times> ssh_comm \<times> 'e world) option" where
  "ssh_bind S = base_bind (ssh_virtualbind S)"

definition ssh_finish ::
  "'e sys \<Rightarrow> ssh_comm \<Rightarrow> 'e world \<Rightarrow> (bool \<times> ssh_comm \<times> 'e world) option" where
  "ssh_finish S = base_finish (\<lambda>c w. Some (ssh_virtualfinish S c w))"

definition ssh_send ::
  "'e sys \<Rightarrow> ssh_comm \<Rightarrow> byte list \<Rightarrow> 'e world \<Rightarrow> (int \<times> ssh_comm \<times> 'e world) option" where
  "ssh_send S = base_send (ssh_virtualsend S)"

definition ssh_read ::
  "'e sys \<Rightarrow> ssh_comm \<Rightarrow> int \<Rightarrow> 'e world \<Rightarrow> (int \<times> byte list \<times> ssh_comm \<times> 'e world) option" where
  "ssh_read S = base_read (ssh_virtualread S)"

subsection \<open>Frames\<close>

text \<open>The calls of reading and writing: no handle is made or freed, nothing bypasses TLS.\<close>

fun tls_io :: "syscall \<Rightarrow> bool" where
  "tls_io (Sys_getfl _) = True"
| "tls_io (Sys_setfl _ _) = True"
| "tls_io Sys_clock = True"
| "tls_io (Sys_select _ _ _ _ _) = True"
| "tls_io (Ssl_get_error _ _) = True"
| "tls_io (Ssl_pending _) = True"
| "tls_io (Ssl_read _ _) = True"
| "tls_io (Ssl_write _ _) = True"
| "tls_io (Ssl_connect _) = True"
| "tls_io (Ssl_get_verify_result _) = True"
| "tls_io (Ssl_verify_error_string _) = True"
| "tls_io Err_get_error = True"
| "tls_io (Err_error_string _) = True"
| "tls_io _ = False"

text \<open>Those of them that are made between the entry into non-blocking mode and its end.\<close>

fun keeps_mode :: "syscall \<Rightarrow> bool" where
  "keeps_mode (Sys_getfl _) = False"
| "keeps_mode (Sys_setfl _ _) = False"
| "keeps_mode _ = True"

definition tls_loop :: "syscall \<Rightarrow> bool" where
  "tls_loop k \<longleftrightarrow> tls_io k \<and> keeps_mode k"

lemma tls_loop_simps [simp]:
  "tls_loop Sys_clock" "tls_loop (Sys_select s rd wr ex tv)" "tls_loop (Ssl_get_error s rc)"
  "tls_loop (Ssl_pending s)" "tls_loop (Ssl_read s n)" "tls_loop (Ssl_write s d)" "tls_loop (Ssl_connect s)"
  "tls_loop (Ssl_get_verify_result s)" "tls_loop (Ssl_verify_error_string e)" "tls_loop Err_get_error"
  "tls_loop (Err_error_string e)"
  by (simp_all add: tls_loop_def)

lemma tls_loop_io: "tls_loop k \<Longrightarrow> tls_io k"
  by (simp add: tls_loop_def)

lemma tls_io_keeps_fds: "tls_io k \<Longrightarrow> keeps_fds k"
  by (cases k) auto

lemma remainingUntil_emits [frame_back]:
  "remainingUntil S deadline w' = (tv, w'') \<Longrightarrow> emits tls_loop w w' \<Longrightarrow> emits tls_loop w w''"
  by (auto simp: remainingUntil_def Let_def frame_back split: prod.splits if_splits)

lemma deadline_after_emits [frame_back]:
  "deadline_after S c w' = (d, w'') \<Longrightarrow> emits tls_loop w w' \<Longrightarrow> emits tls_loop w w''"
  by (auto simp: deadline_after_def frame_back split: prod.splits)

lemma nb_enter_emits [frame_back]:
  "nb_enter S s w' = (nb, w'') \<Longrightarrow> emits tls_io w w' \<Longrightarrow> emits tls_io w w''"
  by (auto simp: nb_enter_def frame_back split: prod.splits if_splits)

lemma nb_leave_emits [frame_back]: "emits tls_io w w' \<Longrightarrow> emits tls_io w (nb_leave S nb w')"
  by (auto simp: nb_leave_def frame_back split: prod.splits)

lemma drain_frame:
  "emits tls_loop w0 w \<Longrightarrow> post (forever (drain_turn S) (m, w)) (\<lambda>(m', w'). emits tls_loop w0 w')"
  by (rule forever_post [where I = "\<lambda>(m', w'). emits tls_loop w0 w'"])
    (auto simp: drain_turn_def frame_back split: prod.splits)

lemma drain_emits [frame_back]:
  "forever (drain_turn S) (m, w) = Some (m', w') \<Longrightarrow> emits tls_loop w0 w \<Longrightarrow> emits tls_loop w0 w'"
  using postD [OF drain_frame] by fastforce

lemma setSSLError_post:
  "io_frame tls_loop c0 w0 c w \<Longrightarrow>
   post (setSSLError S p c w) (\<lambda>(c', w'). io_frame tls_loop c0 w0 c' w')"
  unfolding setSSLError_def Let_def
  by (intro vc) (auto simp: io_frame_def frame_back split: prod.splits if_splits)

lemma setSSLError_frame [frame_back]:
  "setSSLError S p c w = Some (c', w') \<Longrightarrow> io_frame tls_loop c0 w0 c w \<Longrightarrow> io_frame tls_loop c0 w0 c' w'"
  using postD [OF setSSLError_post] by fastforce

lemma remainingUntil_frame [frame_back]:
  "remainingUntil S deadline w = (tv, w') \<Longrightarrow> io_frame tls_loop c0 w0 c w \<Longrightarrow> io_frame tls_loop c0 w0 c w'"
  by (simp add: io_frame_def frame_back)

lemma deadline_after_loop [frame_back]:
  "deadline_after S c2 w = (d, w') \<Longrightarrow> io_frame tls_loop c0 w0 c w \<Longrightarrow> io_frame tls_loop c0 w0 c w'"
  by (simp add: io_frame_def frame_back)

lemma ssh_send_wait_frame [frame_back]:
  "ssh_send_wait S deadline rd c w = (stop, c', w') \<Longrightarrow> io_frame tls_loop c0 w0 c w \<Longrightarrow>
   io_frame tls_loop c0 w0 c' w'"
  by (auto simp: ssh_send_wait_def frame_back Let_def split: prod.splits option.splits if_splits)

lemma ssh_read_wait_frame [frame_back]:
  "ssh_read_wait S deadline wr c w = (stop, c', w') \<Longrightarrow> io_frame tls_loop c0 w0 c w \<Longrightarrow>
   io_frame tls_loop c0 w0 c' w'"
  by (auto simp: ssh_read_wait_def frame_back Let_def split: prod.splits option.splits if_splits)

lemma ssh_send_turn_frame:
  assumes "io_frame tls_loop c0 w0 c w"
  shows "post (ssh_send_turn S d deadline (wr, c, w))
     (\<lambda>x. case x of Inl (rc, c', w') \<Rightarrow> io_frame tls_loop c0 w0 c' w'
                  | Inr (wr', c', w') \<Rightarrow> io_frame tls_loop c0 w0 c' w')"
  unfolding ssh_send_turn_def Let_def prod.case
  by (intro vc) (use assms in \<open>auto simp: frame_back split: if_splits\<close>)

lemma ssh_read_turn_frame:
  assumes "io_frame tls_loop c0 w0 c w"
  shows "post (ssh_read_turn S n deadline (wr, c, w))
     (\<lambda>x. case x of Inl (rc, bs, c', w') \<Rightarrow> io_frame tls_loop c0 w0 c' w'
                  | Inr (wr', c', w') \<Rightarrow> io_frame tls_loop c0 w0 c' w')"
  unfolding ssh_read_turn_def Let_def prod.case
  by (intro vc) (use assms in \<open>auto simp: frame_back split: if_splits\<close>)

lemma ssh_handshake_turn_frame:
  assumes "io_frame tls_loop c0 w0 c w"
  shows "post (ssh_handshake_turn S deadline (c, w))
     (\<lambda>x. case x of Inl (rc, c', w') \<Rightarrow> io_frame tls_loop c0 w0 c' w'
                  | Inr (c', w') \<Rightarrow> io_frame tls_loop c0 w0 c' w')"
  unfolding ssh_handshake_turn_def Let_def prod.case
  by (intro vc) (use assms in \<open>auto simp: frame_back split: if_splits\<close>)

lemma ssh_send_loop_frame [frame_back]:
  assumes "forever (ssh_send_turn S d deadline) (wr, c, w) = Some (rc, c', w')"
    and "io_frame tls_loop c0 w0 c w"
  shows "io_frame tls_loop c0 w0 c' w'"
proof -
  have "post (forever (ssh_send_turn S d deadline) (wr, c, w)) (\<lambda>(rc, c', w'). io_frame tls_loop c0 w0 c' w')"
    by (rule forever_post [where I = "\<lambda>(wr, c', w'). io_frame tls_loop c0 w0 c' w'"])
      (use assms(2) ssh_send_turn_frame [where ?c0.0 = c0 and ?w0.0 = w0] in auto)
  then show ?thesis using assms(1) by (auto dest: postD)
qed

lemma ssh_read_loop_frame [frame_back]:
  assumes "forever (ssh_read_turn S n deadline) (wr, c, w) = Some (rc, bs, c', w')"
    and "io_frame tls_loop c0 w0 c w"
  shows "io_frame tls_loop c0 w0 c' w'"
proof -
  have "post (forever (ssh_read_turn S n deadline) (wr, c, w)) (\<lambda>(rc, bs, c', w'). io_frame tls_loop c0 w0 c' w')"
    by (rule forever_post [where I = "\<lambda>(wr, c', w'). io_frame tls_loop c0 w0 c' w'"])
      (use assms(2) ssh_read_turn_frame [where ?c0.0 = c0 and ?w0.0 = w0] in auto)
  then show ?thesis using assms(1) by (auto dest: postD)
qed

lemma ssh_handshake_loop_frame [frame_back]:
  assumes "forever (ssh_handshake_turn S deadline) (c, w) = Some (ok, c', w')"
    and "io_frame tls_loop c0 w0 c w"
  shows "io_frame tls_loop c0 w0 c' w'"
proof -
  have "post (forever (ssh_handshake_turn S deadline) (c, w)) (\<lambda>(ok, c', w'). io_frame tls_loop c0 w0 c' w')"
    by (rule forever_post [where I = "\<lambda>(c', w'). io_frame tls_loop c0 w0 c' w'"])
      (use assms(2) ssh_handshake_turn_frame [where ?c0.0 = c0 and ?w0.0 = w0] in auto)
  then show ?thesis using assms(1) by (auto dest: postD)
qed

text \<open>The same frames among the calls of reading and writing.\<close>

lemma loop_io_frame:
  "io_frame tls_loop c w c' w' \<Longrightarrow> io_frame tls_io c0 w0 c w \<Longrightarrow> io_frame tls_io c0 w0 c' w'"
  by (auto simp: io_frame_def intro: err_only_trans emits_trans [OF _ emits_mono [OF _ tls_loop_io]])

lemma tls_io_scope [frame_back]:
  "nb_enter S sk w = (nb, w') \<Longrightarrow> io_frame tls_io c0 w0 c w \<Longrightarrow> io_frame tls_io c0 w0 c w'"
  "io_frame tls_io c0 w0 c w \<Longrightarrow> io_frame tls_io c0 w0 c (nb_leave S nb w)"
  by (simp_all add: io_frame_def frame_back)

lemmas tls_io_frames [frame_back] =
  loop_io_frame [OF setSSLError_frame [OF _ io_frame_refl]]
  loop_io_frame [OF deadline_after_loop [OF _ io_frame_refl]]
  loop_io_frame [OF ssh_send_loop_frame [OF _ io_frame_refl]]
  loop_io_frame [OF ssh_read_loop_frame [OF _ io_frame_refl]]
  loop_io_frame [OF ssh_handshake_loop_frame [OF _ io_frame_refl]]

lemma ssh_virtualsend_frame:
  "post (ssh_virtualsend S c d w) (\<lambda>(rc, c', w'). io_frame tls_io c w c' w')"
  unfolding ssh_virtualsend_def Let_def by (intro vc) (auto simp: frame_back)

lemma ssh_virtualread_frame:
  "post (ssh_virtualread S c n w) (\<lambda>(rc, bs, c', w'). io_frame tls_io c w c' w')"
  unfolding ssh_virtualread_def Let_def by (intro vc) (auto simp: frame_back)

lemma ssh_handshake_frame:
  "post (ssh_handshake S c w) (\<lambda>(ok, c', w'). io_frame tls_io c w c' w')"
  unfolding ssh_handshake_def Let_def by (intro vc) (auto simp: frame_back)

text \<open>Binding and finishing also make and free the handles and configure the session.\<close>

fun tls_call :: "syscall \<Rightarrow> bool" where
  "tls_call Ssl_ctx_new = True"
| "tls_call (Ssl_ctx_default_verify_paths _) = True"
| "tls_call (Ssl_ctx_free _) = True"
| "tls_call (Ssl_new _) = True"
| "tls_call (Ssl_set_sni _ _) = True"
| "tls_call (Ssl_set1_host _ _) = True"
| "tls_call (Ssl_set_verify_peer _) = True"
| "tls_call (Ssl_set_fd _ _) = True"
| "tls_call (Ssl_shutdown _) = True"
| "tls_call (Ssl_free _) = True"
| "tls_call k = tls_io k"

lemma tls_io_call: "tls_io k \<Longrightarrow> tls_call k"
  by (cases k) auto

lemma tls_call_keeps_fds: "tls_call k \<Longrightarrow> keeps_fds k"
  by (cases k) auto

lemma ssh_configure_emits [frame_back]:
  "emits tls_call w0 w \<Longrightarrow> emits tls_call w0 (ssh_configure S c w)"
  unfolding ssh_configure_def Let_def by (simp add: emits_trans [OF _ emits_call])

text \<open>A secure layer keeps its binding, timeouts and verification settings; only the handles change.\<close>

definition tls_frame :: "ssh_comm \<Rightarrow> 'e world \<Rightarrow> ssh_comm \<Rightarrow> 'e world \<Rightarrow> bool" where
  "tls_frame c w c' w' \<longleftrightarrow>
     comm_sock c' = comm_sock c \<and> comm_tsecs c' = comm_tsecs c \<and> comm_tmicro c' = comm_tmicro c
     \<and> ssh_hostname c' = ssh_hostname c \<and> ssh_verify c' = ssh_verify c \<and> emits tls_call w w'"

lemma ssh_fields_ext:
  "comm.more c' = comm.more c \<Longrightarrow>
   ssh_ctx c' = ssh_ctx c \<and> ssh_ssl c' = ssh_ssl c \<and> ssh_hostname c' = ssh_hostname c
   \<and> ssh_verify c' = ssh_verify c"
  for c :: ssh_comm
  by (cases c, cases c') simp

lemma io_frame_tls_frame: "io_frame tls_io c w c' w' \<Longrightarrow> tls_frame c w c' w'"
  using err_only_fields [of c c'] ssh_fields_ext [of c' c] emits_mono [OF _ tls_io_call]
  by (auto simp: io_frame_def tls_frame_def)

lemma tls_frame_trans: "tls_frame c w c' w' \<Longrightarrow> tls_frame c' w' c'' w'' \<Longrightarrow> tls_frame c w c'' w''"
  by (auto simp: tls_frame_def intro: emits_trans)

lemma tls_frame_handles [simp]:
  "tls_frame c0 w0 (c\<lparr>ssh_ctx := x\<rparr>) w = tls_frame c0 w0 c w"
  "tls_frame c0 w0 (c\<lparr>ssh_ssl := x\<rparr>) w = tls_frame c0 w0 c w"
  by (simp_all add: tls_frame_def)

lemma tls_frame_refl [simp]: "tls_frame c w c w"
  by (simp add: tls_frame_def)

lemma tls_frame_back [frame_back]:
  "call S k w' = (r, w'') \<Longrightarrow> tls_call k \<Longrightarrow> tls_frame c w c' w' \<Longrightarrow> tls_frame c w c' w''"
  by (auto simp: tls_frame_def emits_back)

lemma tls_frame_steps [frame_back]:
  "tls_frame c0 w0 c w \<Longrightarrow> tls_frame c0 w0 c (ssh_configure S c1 w)"
  "setSSLError S p c w = Some (c', w') \<Longrightarrow> tls_frame c0 w0 c w \<Longrightarrow> tls_frame c0 w0 c' w'"
  "ssh_handshake S c w = Some (ok, c', w') \<Longrightarrow> tls_frame c0 w0 c w \<Longrightarrow> tls_frame c0 w0 c' w'"
  using io_frame_tls_frame [OF tls_io_frames(1) [of S p c w c' w' c w]]
    postD [OF ssh_handshake_frame [of S c w]] io_frame_tls_frame [of c w c' w']
  by (auto simp: tls_frame_def frame_back intro: emits_trans)

lemma ssh_handshake_post [frame_back]:
  "tls_frame c0 w0 c w \<Longrightarrow> post (ssh_handshake S c w) (\<lambda>(ok, c', w'). tls_frame c0 w0 c' w')"
  by (auto intro!: postI simp: frame_back)

lemma ssh_virtualbind_frame:
  "post (ssh_virtualbind S c w) (\<lambda>(ok, c', w'). tls_frame c w c' w')"
  unfolding ssh_virtualbind_def Let_def
  by (intro vc) (auto simp: frame_back split: if_splits prod.splits)

lemma ssh_virtualfinish_frame:
  "ssh_virtualfinish S c w = (ok, c', w') \<Longrightarrow> tls_frame c w c' w' \<and> ok \<and> ssh_ssl c' = 0 \<and> ssh_ctx c' = 0"
  by (auto simp: ssh_virtualfinish_def Let_def frame_back split: if_splits prod.splits)

lemma tls_frame_layer_frame: "tls_frame c w c' w' \<Longrightarrow> layer_frame c w c' w'"
  by (auto simp: tls_frame_def layer_frame_def intro: emits_mono tls_call_keeps_fds)

text \<open>The secure layer meets the contract of a communication layer.\<close>

interpretation ssh: comm_layer
  "ssh_virtualbind S" "\<lambda>c w. Some (ssh_virtualfinish S c w)" "ssh_virtualsend S" "ssh_virtualread S"
  for S
proof (unfold_locales, goal_cases)
  case (1 c w)
  show ?case using ssh_virtualbind_frame by (rule post_weaken) (auto intro: tls_frame_layer_frame)
next
  case (2 c w)
  show ?case using ssh_virtualfinish_frame [of S c w]
    by (auto intro: tls_frame_layer_frame split: prod.splits)
next
  case (3 c w)
  show ?case using ssh_virtualfinish_frame [of S c w] by (cases "ssh_virtualfinish S c w") auto
next
  case (4 c d w)
  show ?case using ssh_virtualsend_frame
    by (rule post_weaken) (auto intro: tls_frame_layer_frame io_frame_tls_frame)
next
  case (5 c n w)
  show ?case using ssh_virtualread_frame
    by (rule post_weaken) (auto intro: tls_frame_layer_frame io_frame_tls_frame)
qed

subsection \<open>The handles a secure layer holds\<close>

definition ssh_books :: "int multiset \<times> int multiset \<Rightarrow> ssh_comm \<Rightarrow> 'e world \<Rightarrow> bool" where
  "ssh_books oth c w \<longleftrightarrow> tls_books oth (held (ssh_ctx c)) (held (ssh_ssl c)) w"

lemma tls_io_keeps_handles: "tls_io k \<Longrightarrow> keeps_handles k"
  by (cases k) auto

lemma io_frame_books:
  assumes "io_frame tls_io c w c' w'"
  shows "ssh_books oth c' w' = ssh_books oth c w"
proof -
  have "ssh_ctx c' = ssh_ctx c" "ssh_ssl c' = ssh_ssl c" "emits tls_io w w'"
    using assms ssh_fields_ext [of c' c] err_only_fields [of c c'] by (auto simp: io_frame_def)
  then show ?thesis
    using tls_books_emits [OF emits_mono [OF _ tls_io_keeps_handles]] by (simp add: ssh_books_def)
qed

lemma ssh_configure_books [simp]: "tls_books oth x y (ssh_configure S c w) = tls_books oth x y w"
proof (rule tls_books_emits)
  show "emits keeps_handles w (ssh_configure S c w)"
    unfolding ssh_configure_def Let_def by (simp add: emits_trans [OF _ emits_call])
qed

lemma setSSLError_books [frame_back]:
  "setSSLError S p c w = Some (c', w') \<Longrightarrow> ssh_books oth c w \<Longrightarrow> ssh_books oth c' w'"
  using io_frame_books [OF tls_io_frames(1)] io_frame_refl by blast

lemma ssh_handshake_books [frame_back]:
  "ssh_handshake S c w = Some (ok, c', w') \<Longrightarrow> ssh_books oth c w \<Longrightarrow> ssh_books oth c' w'"
  using postD [OF ssh_handshake_frame, of S c w "(ok, c', w')"] io_frame_books [of c w c' w' oth] by simp

lemma ssh_virtualbind_books:
  assumes "ssh_ctx c = 0" "ssh_ssl c = 0" "ssh_books oth c w"
  shows "post (ssh_virtualbind S c w) (\<lambda>(ok, c', w'). ssh_books oth c' w')"
proof -
  have start: "tls_books oth {#} {#} w" using assms by (simp add: ssh_books_def)
  have hs: "post (ssh_handshake S c2 (ssh_configure S c2 w2)) (\<lambda>(ok, c', w'). ssh_books oth c' w')"
    if "ssh_books oth c2 w2" for c2 :: ssh_comm and w2
  proof (rule postI, clarify)
    fix ok c' w'
    assume "ssh_handshake S c2 (ssh_configure S c2 w2) = Some (ok, c', w')"
    then show "ssh_books oth c' w'"
      by (rule ssh_handshake_books) (use that in \<open>simp add: ssh_books_def\<close>)
  qed
  obtain r1 w1 where 1: "call S Ssl_ctx_new w = (r1, w1)" by fastforce
  define c1 where "c1 = c\<lparr>ssh_ctx := sr_ret r1\<rparr>"
  have b1: "ssh_books oth c1 w1" using 1 start assms by (simp add: c1_def ssh_books_def frame_back)
  obtain cas w2 where 2: "(if ssh_verify c1
      then case call S (Ssl_ctx_default_verify_paths (ssh_ctx c1)) w1 of (r, w) \<Rightarrow> (sr_ret r \<noteq> 0, w)
      else (True, w1)) = (cas, w2)" by fastforce
  have b2: "ssh_books oth c1 w2"
    using 2 b1 by (auto simp: ssh_books_def frame_back split: if_splits prod.splits)
  obtain r3 w3 where 3: "call S (Ssl_new (ssh_ctx c1)) w2 = (r3, w3)" by fastforce
  define c3 where "c3 = c1\<lparr>ssh_ssl := sr_ret r3\<rparr>"
  have b3: "ssh_books oth c3 w3"
    using 3 b2 assms by (simp add: c1_def c3_def ssh_books_def frame_back)
  show ?thesis
    unfolding ssh_virtualbind_def 1 Let_def prod.case c1_def [symmetric] 2 3 c3_def [symmetric]
    by (intro vc) (use hs [OF b3] b1 b2 b3 in \<open>auto simp: frame_back\<close>)
qed

lemma ssh_virtualfinish_books:
  "ssh_virtualfinish S c w = (ok, c', w') \<Longrightarrow> ssh_books oth c w \<Longrightarrow> ssh_books oth c' w'"
  by (auto simp: ssh_virtualfinish_def ssh_books_def Let_def frame_back split: if_splits prod.splits)

lemmas comm_ssh_run [run] = ssh_new_def ssh_setHostname_def ssh_setVerifyPeer_def isIPLiteral_def
  remainingUntil_def deadline_after_def nb_enter_def nb_leave_def drain_turn_def setSSLError_def
  want_io_def ssh_send_wait_def ssh_send_turn_def ssh_virtualsend_def ssh_timeout_message_def
  ssh_read_wait_def ssh_read_turn_def ssh_virtualread_def ssh_virtualfinish_def
  ssh_handshake_turn_def ssh_configure_def ssh_handshake_def ssh_virtualbind_def ssh_bind_def
  ssh_finish_def ssh_send_def ssh_read_def ssh_comm.defs comm.defs

end
