(* ===== verification/Comm_SSH_Deadline.thy ===== *)
theory Comm_SSH_Deadline
  imports Comm_SSH
begin

text \<open>
  The three loops of \<open>Socket_Comm_SSH\<close> end (src/src/socket_comm_ssh.cpp: \<open>virtualsend\<close>,
  \<open>virtualread\<close>, and the handshake in \<open>virtualbind\<close>). Each computes one deadline and gives every
  \<open>select\<close> the time that remains; a turn that goes round again started before the deadline and
  ended later than it started, so the time to the deadline is the measure.
\<close>

subsection \<open>A clock that ticks\<close>

text \<open>
  What the loops rely on: every call takes some time, the monotonic clock tells it, the queue of
  OpenSSL's errors gets shorter as it is read, and bytes that \<open>SSL_pending\<close> reports are there for
  the next \<open>SSL_read\<close>.
\<close>

definition ticking :: "'e sys \<Rightarrow> ('e \<Rightarrow> int) \<Rightarrow> ('e \<Rightarrow> nat) \<Rightarrow> bool" where
  "ticking S now errs \<longleftrightarrow>
     (\<forall>k e r e'. sys_step S k e = (r, e') \<longrightarrow>
        now e < now e' \<and> (k = Sys_clock \<longrightarrow> sr_val r = now e')
        \<and> (k = Err_get_error \<longrightarrow> sr_ret r = 0 \<or> errs e' < errs e)
        \<and> (\<forall>n. k = Err_error_string n \<longrightarrow> errs e' = errs e))"

definition pending_reads :: "'e sys \<Rightarrow> bool" where
  "pending_reads S \<longleftrightarrow>
     (\<forall>h n e r e' q e''. sys_step S (Ssl_pending h) e = (r, e') \<longrightarrow> 0 < sr_ret r \<longrightarrow> 0 < n \<longrightarrow>
        sys_step S (Ssl_read h n) e' = (q, e'') \<longrightarrow> 0 < sr_ret q)"

text \<open>A \<open>select\<close> with a limit of at most \<open>T\<close> nanoseconds.\<close>

fun short_wait :: "int \<Rightarrow> syscall \<Rightarrow> bool" where
  "short_wait T (Sys_select fd rd wr ex tv) =
     (case tv of None \<Rightarrow> False
      | Some (s, u) \<Rightarrow> 0 \<le> s \<and> 0 \<le> u \<and> u < 1000000 \<and> 1000 * (1000000 * s + u) \<le> T)"
| "short_wait T k = True"

text \<open>A run that waits in no \<open>select\<close> for longer than \<open>T\<close> and ends at time \<open>b\<close> or later.\<close>

definition timed :: "('e \<Rightarrow> int) \<Rightarrow> int \<Rightarrow> int \<Rightarrow> 'e world \<Rightarrow> 'e world \<Rightarrow> bool" where
  "timed now T b w w' \<longleftrightarrow> b \<le> now (w_env w') \<and> emits (short_wait T) w w'"

lemma timed_start: "timed now T (now (w_env w)) w w"
  by (simp add: timed_def)

lemma timed_weaken: "timed now T b w w' \<Longrightarrow> a \<le> b \<Longrightarrow> timed now T a w w'"
  by (simp add: timed_def)

lemma tick_call:
  "ticking S now errs \<Longrightarrow> call S k w = (r, w') \<Longrightarrow>
   now (w_env w) < now (w_env w') \<and> (k = Sys_clock \<longrightarrow> sr_val r = now (w_env w'))
   \<and> (k = Err_get_error \<longrightarrow> sr_ret r = 0 \<or> errs (w_env w') < errs (w_env w))
   \<and> (\<forall>n. k = Err_error_string n \<longrightarrow> errs (w_env w') = errs (w_env w))"
  using call_env [of S k w r w'] unfolding ticking_def by blast

lemma timed_call:
  "ticking S now errs \<Longrightarrow> call S k w = (r, w') \<Longrightarrow> short_wait T k \<Longrightarrow> timed now T b w0 w \<Longrightarrow> timed now T b w0 w'"
  using tick_call [of S now errs k w r w'] by (auto simp: timed_def intro: emits_step)

lemma drain_yields:
  assumes t: "ticking S now errs" and w: "timed now T b w0 w"
  shows "yields (forever (drain_turn S) (m, w)) (\<lambda>(m', w'). timed now T b w0 w')"
proof (rule forever_yields [where I = "\<lambda>(m, w). timed now T b w0 w" and m = "\<lambda>(m, w). errs (w_env w)"])
  show "case (m, w) of (m, w) \<Rightarrow> timed now T b w0 w" using w by simp
  fix s :: "string \<times> 'a world"
  assume "case s of (m, w) \<Rightarrow> timed now T b w0 w"
  moreover have "errs (w_env w2) < errs (w_env w1)"
    if "call S Err_get_error w1 = (r, wa)" "sr_ret r \<noteq> 0" "call S (Err_error_string n) wa = (q, w2)" for w1 r wa n q w2
    using tick_call [OF t that(1)] tick_call [OF t that(3)] that(2) by simp
  ultimately show "yields (drain_turn S s)
      (\<lambda>x. case x of Inl r \<Rightarrow> (case r of (m', w') \<Rightarrow> timed now T b w0 w')
         | Inr s' \<Rightarrow> (case s' of (m, w) \<Rightarrow> timed now T b w0 w) \<and>
             (case s' of (m, w) \<Rightarrow> errs (w_env w)) < (case s of (m, w) \<Rightarrow> errs (w_env w)))"
    unfolding drain_turn_def Let_def
    by (intro tc) (auto simp: timed_call [OF t] yields_def split: prod.splits)
qed

lemma setSSLError_yields:
  assumes t: "ticking S now errs" and w: "timed now T b w0 w"
  shows "yields (setSSLError S p c w) (\<lambda>(c', w'). timed now T b w0 w')"
proof -
  have "timed now T b w0 w1" if "(if ssh_ssl c \<noteq> 0
       then case call S (Ssl_get_verify_result (ssh_ssl c)) w of (r, w) \<Rightarrow>
              if sr_ret r \<noteq> X509_V_OK
              then case call S (Ssl_verify_error_string (sr_ret r)) w of (t, w) \<Rightarrow> (f t, w)
              else (p, w)
       else (p, w)) = (m, w1)" for m w1 and f :: "sysret \<Rightarrow> string"
    using that w by (auto simp: timed_call [OF t] split: if_splits prod.splits)
  then show ?thesis
    unfolding setSSLError_def Let_def
    by (intro tc yields_bind [OF drain_yields [OF t]]) (auto intro!: tc)
qed

text \<open>The rest of a turn after a failed OpenSSL call that is not a request to wait.\<close>

lemma setSSLError_bind:
  assumes "ticking S now errs" "timed now T b w0 w"
    and "\<And>c' w'. timed now T b w0 w' \<Longrightarrow> yields (f (c', w')) Q"
  shows "yields (Option.bind (setSSLError S p c w) f) Q"
  using setSSLError_yields [OF assms(1,2)] by (rule yields_bind) (auto intro: assms(3))

lemma split_usecs:
  fixes l :: int
  assumes "0 < l" "l \<le> T"
  shows "short_wait T (Sys_select fd rd wr ex (Some (l div 1000 div 1000000, l div 1000 mod 1000000)))"
proof -
  define x where "x = l div 1000"
  have "1000 * x \<le> l" "0 \<le> x" using assms(1) by (simp_all add: x_def pos_imp_zdiv_nonneg_iff)
  moreover have "1000000 * (x div 1000000) + x mod 1000000 = x" by simp
  ultimately show ?thesis
    using assms(2) by (simp add: pos_imp_zdiv_nonneg_iff x_def [symmetric] del: distrib_left_numeral)
qed

lemma remainingUntil_timed:
  assumes t: "ticking S now errs" and w: "timed now T b w0 w" and d: "deadline \<le> b + T"
    and r: "remainingUntil S deadline w = (tv, w')"
  shows "timed now T b w0 w' \<and> (\<forall>x. tv = Some x \<longrightarrow> now (w_env w) < deadline
    \<and> (\<forall>fd rd wr ex. short_wait T (Sys_select fd rd wr ex (Some x))))"
proof -
  obtain q w1 where q: "call S Sys_clock w = (q, w1)" by fastforce
  have w1: "sr_val q = now (w_env w1)" "now (w_env w) < now (w_env w1)" using tick_call [OF t q] by auto
  then have "b \<le> sr_val q" using w by (simp add: timed_def)
  then have l: "deadline - sr_val q \<le> T" using d by simp
  have "timed now T b w0 w1" by (rule timed_call [OF t q _ w]) simp
  then show ?thesis
    using r w1 split_usecs [OF _ l]
    by (auto simp: remainingUntil_def q Let_def simp del: short_wait.simps split: if_splits)
qed

lemma ssh_read_wait_timed:
  assumes t: "ticking S now errs" and w: "timed now T b w0 w" and d: "deadline \<le> b + T"
    and r: "ssh_read_wait S deadline wr c w = (stop, c', w')"
  shows "timed now T b w0 w' \<and> has_timeout c' = has_timeout c \<and> (\<not> stop \<longrightarrow> now (w_env w) < deadline)"
proof -
  obtain tv w1 where 1: "remainingUntil S deadline w = (tv, w1)" by fastforce
  note 2 = remainingUntil_timed [OF t w d 1]
  show ?thesis
  proof (cases tv)
    case None
    then show ?thesis using r 1 2 by (auto simp: ssh_read_wait_def)
  next
    case (Some x)
    obtain q w2 where q: "call S (Sys_select (comm_sock c) True wr False (Some x)) w1 = (q, w2)" by fastforce
    have "timed now T b w0 w2" using timed_call [OF t q] 2 Some by blast
    then show ?thesis using r 1 2 Some q
      by (auto simp: ssh_read_wait_def Let_def split: if_splits)
  qed
qed

lemma ssh_read_turn_yields:
  assumes t: "ticking S now errs" and p: "pending_reads S" "0 < n"
    and w: "timed now T b w0 w" and d: "deadline \<le> b + T" and h: "has_timeout c"
  shows "yields (ssh_read_turn S n deadline (wr, c, w))
     (\<lambda>x. case x of Inl (rc, bs, c', w') \<Rightarrow> timed now T b w0 w'
        | Inr (wr', c', w') \<Rightarrow> timed now T b w0 w' \<and> has_timeout c' \<and> now (w_env w) < deadline
            \<and> now (w_env w) < now (w_env w'))"
proof -
  obtain r1 w1 where 1: "call S (Ssl_pending (ssh_ssl c)) w = (r1, w1)" by fastforce
  let ?b = "now (w_env w) + 1"
  have b: "b \<le> ?b" using w by (simp add: timed_def)
  have w1: "timed now T ?b w0 w1"
    using timed_call [OF t 1 _ w] tick_call [OF t 1] by (simp add: timed_def)
  obtain stop c2 w2 where 2: "(if sr_ret r1 \<le> 0 \<and> has_timeout c
      then ssh_read_wait S deadline wr c w1 else (False, c, w1)) = (stop, c2, w2)"
    using prod_cases3 by blast
  have d': "deadline \<le> ?b + T" using d b by simp
  have w2: "timed now T ?b w0 w2" "has_timeout c2"
    "stop \<or> now (w_env w1) < deadline \<or> (c2 = c \<and> w2 = w1 \<and> 0 < sr_ret r1)"
    using 2 w1 h by (auto split: if_splits dest!: ssh_read_wait_timed [OF t w1 d'])
  have late: "now (w_env w) < deadline" if "now (w_env w1) < deadline"
    using that tick_call [OF t 1] by simp
  have pos: "0 < sr_ret q" if "call S (Ssl_read (ssh_ssl c) n) w1 = (q, w3)" "0 < sr_ret r1" for q w3
    using p that call_env [OF 1] call_env [OF that(1)] unfolding pending_reads_def by blast
  have fin: "now (w_env w) < now (w_env x)" if "timed now T ?b w0 x" for x
    using that by (simp add: timed_def)
  show ?thesis
    unfolding ssh_read_turn_def Let_def prod.case 1 2
    by (intro tc setSSLError_bind [OF t])
      (use w2 late pos b in \<open>auto simp: timed_call [OF t] fin
        intro: timed_weaken [where b = ?b and a = b]\<close>)
qed


text \<open>The loop: every turn that goes round again ends later, and started before the deadline.\<close>

lemma ssh_read_loop_yields:
  assumes t: "ticking S now errs" and p: "pending_reads S" "0 < n"
    and w: "timed now T b w0 w" and d: "deadline \<le> b + T" and h: "has_timeout c"
  shows "yields (forever (ssh_read_turn S n deadline) (wr, c, w))
     (\<lambda>(rc, bs, c', w'). timed now T b w0 w')"
proof (rule forever_yields [where I = "\<lambda>(wr, c, w). timed now T b w0 w \<and> has_timeout c"
      and m = "\<lambda>(wr, c, w). nat (deadline - now (w_env w))"])
  show "case (wr, c, w) of (wr, c, w) \<Rightarrow> timed now T b w0 w \<and> has_timeout c" using w h by simp
next
  fix s :: "bool \<times> ssh_comm \<times> 'a world"
  assume i: "case s of (wr, c, w) \<Rightarrow> timed now T b w0 w \<and> has_timeout c"
  obtain wr c w where s: "s = (wr, c, w)" using prod_cases3 by blast
  from i s have "timed now T b w0 w" "has_timeout c" by simp_all
  from ssh_read_turn_yields [OF t p this(1) d this(2)]
  show "yields (ssh_read_turn S n deadline s)
      (\<lambda>x. case x of Inl r \<Rightarrow> (case r of (rc, bs, c', w') \<Rightarrow> timed now T b w0 w')
         | Inr s' \<Rightarrow> (case s' of (wr, c, w) \<Rightarrow> timed now T b w0 w \<and> has_timeout c) \<and>
             (case s' of (wr, c, w) \<Rightarrow> nat (deadline - now (w_env w)))
               < (case s of (wr, c, w) \<Rightarrow> nat (deadline - now (w_env w))))"
    unfolding s by (rule yields_weaken) (auto split: sum.splits)
qed

lemma nb_enter_timed:
  "ticking S now errs \<Longrightarrow> nb_enter S sk w = (nb, w') \<Longrightarrow> timed now T b w0 w \<Longrightarrow> timed now T b w0 w'"
  by (auto simp: nb_enter_def timed_call split: prod.splits if_splits)

lemma nb_leave_timed:
  "ticking S now errs \<Longrightarrow> timed now T b w0 w \<Longrightarrow> timed now T b w0 (nb_leave S nb w)"
  by (auto simp: nb_leave_def timed_call split: prod.splits)

definition timeout_ns :: "'a comm_scheme \<Rightarrow> int" where
  "timeout_ns c = comm_tsecs c * 1000000000 + comm_tmicro c * 1000"

lemma timeout_ns_handles [simp]:
  "timeout_ns (c\<lparr>ssh_ctx := x\<rparr>) = timeout_ns c" "timeout_ns (c\<lparr>ssh_ssl := x\<rparr>) = timeout_ns c"
  "has_timeout (c\<lparr>ssh_ctx := x\<rparr>) = has_timeout c" "has_timeout (c\<lparr>ssh_ssl := x\<rparr>) = has_timeout c"
  by (simp_all add: timeout_ns_def has_timeout_def)

text \<open>Entering a timed loop: the deadline is the timeout after the start of the loop.\<close>

lemma deadline_timed:
  assumes t: "ticking S now errs" and n: "nb_enter S sk w = (nb, w1)"
    and d: "deadline_after S c w1 = (deadline, w2)"
  shows "timed now (timeout_ns c) (now (w_env w2)) w w2 \<and> deadline \<le> now (w_env w2) + timeout_ns c"
proof -
  have w1: "timed now (timeout_ns c) (now (w_env w)) w w1" by (rule nb_enter_timed [OF t n timed_start])
  obtain q where q: "call S Sys_clock w1 = (q, w2)" and dl: "deadline = sr_val q + timeout_ns c"
    using d by (auto simp: deadline_after_def timeout_ns_def split: prod.splits)
  have "emits (short_wait (timeout_ns c)) w w2"
    using timed_call [OF t q _ w1] by (simp add: timed_def)
  then show ?thesis using tick_call [OF t q] dl by (simp add: timed_def)
qed

lemma ssh_send_wait_timed:
  assumes t: "ticking S now errs" and w: "timed now T b w0 w" and d: "deadline \<le> b + T"
    and r: "ssh_send_wait S deadline rd c w = (stop, c', w')"
  shows "timed now T b w0 w' \<and> has_timeout c' = has_timeout c \<and> (\<not> stop \<longrightarrow> now (w_env w) < deadline)"
proof -
  obtain tv w1 where 1: "remainingUntil S deadline w = (tv, w1)" by fastforce
  note 2 = remainingUntil_timed [OF t w d 1]
  show ?thesis
  proof (cases tv)
    case None
    then show ?thesis using r 1 2 by (auto simp: ssh_send_wait_def)
  next
    case (Some x)
    obtain q w2 where q: "call S (Sys_select (comm_sock c) rd True False (Some x)) w1 = (q, w2)" by fastforce
    have "timed now T b w0 w2" using timed_call [OF t q] 2 Some by blast
    then show ?thesis using r 1 2 Some q
      by (auto simp: ssh_send_wait_def Let_def split: if_splits)
  qed
qed

lemma ssh_send_turn_yields:
  assumes t: "ticking S now errs"
    and w: "timed now T b w0 w" and d: "deadline \<le> b + T" and h: "has_timeout c"
  shows "yields (ssh_send_turn S bs deadline (rd, c, w))
     (\<lambda>x. case x of Inl (rc, c', w') \<Rightarrow> timed now T b w0 w'
        | Inr (rd', c', w') \<Rightarrow> timed now T b w0 w' \<and> has_timeout c' \<and> now (w_env w) < deadline
            \<and> now (w_env w) < now (w_env w'))"
proof -
  let ?b = "now (w_env w)"
  have b: "b \<le> ?b" "timed now T ?b w0 w" using w by (auto simp: timed_def)
  obtain stop c2 w2 where 2: "ssh_send_wait S deadline rd c w = (stop, c2, w2)" using prod_cases3 by blast
  have w2: "timed now T ?b w0 w2" "has_timeout c2" "\<not> stop \<longrightarrow> ?b < deadline"
    using ssh_send_wait_timed [OF t b(2) _ 2] d b h by auto
  have fin: "?b < now (w_env w4)" if "call S k w3 = (r, w4)" "timed now T ?b w0 w3" for k w3 r w4
    using that tick_call [OF t that(1)] by (simp add: timed_def)
  show ?thesis
    unfolding ssh_send_turn_def Let_def prod.case if_P [OF h] 2
    by (intro tc setSSLError_bind [OF t])
      (use w2 b in \<open>auto simp: timed_call [OF t] fin intro: timed_weaken [where b = ?b and a = b]\<close>)
qed

lemma ssh_send_loop_yields:
  assumes t: "ticking S now errs"
    and w: "timed now T b w0 w" and d: "deadline \<le> b + T" and h: "has_timeout c"
  shows "yields (forever (ssh_send_turn S bs deadline) (rd, c, w)) (\<lambda>(rc, c', w'). timed now T b w0 w')"
proof (rule forever_yields [where I = "\<lambda>(rd, c, w). timed now T b w0 w \<and> has_timeout c"
      and m = "\<lambda>(rd, c, w). nat (deadline - now (w_env w))"])
  show "case (rd, c, w) of (rd, c, w) \<Rightarrow> timed now T b w0 w \<and> has_timeout c" using w h by simp
next
  fix s :: "bool \<times> ssh_comm \<times> 'a world"
  assume i: "case s of (rd, c, w) \<Rightarrow> timed now T b w0 w \<and> has_timeout c"
  obtain rd c w where s: "s = (rd, c, w)" using prod_cases3 by blast
  from i s have "timed now T b w0 w" "has_timeout c" by simp_all
  from ssh_send_turn_yields [OF t this(1) d this(2)]
  show "yields (ssh_send_turn S bs deadline s)
      (\<lambda>x. case x of Inl r \<Rightarrow> (case r of (rc, c', w') \<Rightarrow> timed now T b w0 w')
         | Inr s' \<Rightarrow> (case s' of (rd, c, w) \<Rightarrow> timed now T b w0 w \<and> has_timeout c) \<and>
             (case s' of (rd, c, w) \<Rightarrow> nat (deadline - now (w_env w)))
               < (case s of (rd, c, w) \<Rightarrow> nat (deadline - now (w_env w))))"
    unfolding s by (rule yields_weaken) (auto split: sum.splits)
qed

lemma ssh_handshake_turn_yields:
  assumes t: "ticking S now errs"
    and w: "timed now T b w0 w" and d: "deadline \<le> b + T" and h: "has_timeout c"
  shows "yields (ssh_handshake_turn S deadline (c, w))
     (\<lambda>x. case x of Inl (ok, c', w') \<Rightarrow> timed now T b w0 w'
        | Inr (c', w') \<Rightarrow> timed now T b w0 w' \<and> has_timeout c' \<and> now (w_env w) < deadline
            \<and> now (w_env w) < now (w_env w'))"
proof -
  let ?b = "now (w_env w)"
  have b: "b \<le> ?b" "timed now T ?b w0 w" using w by (auto simp: timed_def)
  have dl: "deadline \<le> ?b + T" using d b by simp
  have fin: "?b < now (w_env w4)" if "call S k w3 = (r, w4)" "timed now T ?b w0 w3" for k w3 r w4
    using that tick_call [OF t that(1)] by (simp add: timed_def)
  have rem: "timed now T ?b w0 w4 \<and> (\<forall>x. tv = Some x \<longrightarrow> ?b < deadline
      \<and> (\<forall>fd rd wr ex. short_wait T (Sys_select fd rd wr ex (Some x))))"
    if "remainingUntil S deadline w3 = (tv, w4)" "timed now T ?b w0 w3" for w3 tv w4
    using remainingUntil_timed [OF t that(2) dl that(1)] that(2) by (auto simp: timed_def)
  show ?thesis
    unfolding ssh_handshake_turn_def Let_def prod.case
    by (intro tc setSSLError_bind [OF t])
      (use b h in \<open>auto simp: timed_call [OF t] fin simp del: short_wait.simps(1) dest!: rem
         intro: timed_weaken [where b = ?b and a = b]\<close>)
qed


lemma ssh_handshake_loop_yields:
  assumes t: "ticking S now errs"
    and w: "timed now T b w0 w" and d: "deadline \<le> b + T" and h: "has_timeout c"
  shows "yields (forever (ssh_handshake_turn S deadline) (c, w)) (\<lambda>(ok, c', w'). timed now T b w0 w')"
proof (rule forever_yields [where I = "\<lambda>(c, w). timed now T b w0 w \<and> has_timeout c"
      and m = "\<lambda>(c, w). nat (deadline - now (w_env w))"])
  show "case (c, w) of (c, w) \<Rightarrow> timed now T b w0 w \<and> has_timeout c" using w h by simp
next
  fix s :: "ssh_comm \<times> 'a world"
  assume i: "case s of (c, w) \<Rightarrow> timed now T b w0 w \<and> has_timeout c"
  obtain c w where s: "s = (c, w)" by fastforce
  from i s have "timed now T b w0 w" "has_timeout c" by simp_all
  from ssh_handshake_turn_yields [OF t this(1) d this(2)]
  show "yields (ssh_handshake_turn S deadline s)
      (\<lambda>x. case x of Inl r \<Rightarrow> (case r of (ok, c', w') \<Rightarrow> timed now T b w0 w')
         | Inr s' \<Rightarrow> (case s' of (c, w) \<Rightarrow> timed now T b w0 w \<and> has_timeout c) \<and>
             (case s' of (c, w) \<Rightarrow> nat (deadline - now (w_env w)))
               < (case s of (c, w) \<Rightarrow> nat (deadline - now (w_env w))))"
    unfolding s by (rule yields_weaken) (auto split: sum.splits)
qed

lemma timed_rebase: "timed now T b w0 w \<Longrightarrow> emits (short_wait T) w00 w0 \<Longrightarrow> timed now T b w00 w"
  by (auto simp: timed_def intro: emits_trans)

lemma ssh_handshake_yields:
  assumes t: "ticking S now errs" and h: "has_timeout c"
  shows "yields (ssh_handshake S c w) (\<lambda>(ok, c', w'). emits (short_wait (timeout_ns c)) w w')"
proof -
  obtain nb w1 where 1: "nb_enter S (comm_sock c) w = (nb, w1)" by fastforce
  obtain dl w2 where 2: "deadline_after S c w1 = (dl, w2)" by fastforce
  note d = deadline_timed [OF t 1 2]
  from ssh_handshake_loop_yields [OF t d [THEN conjunct1] d [THEN conjunct2] h]
  show ?thesis
    using h nb_leave_timed [OF t]
    by (fastforce simp: ssh_handshake_def 1 2 yields_def timed_def)
qed

lemma ssh_configure_short: "emits (short_wait T) w (ssh_configure S c w)"
  unfolding ssh_configure_def Let_def by (simp add: emits_trans [OF _ emits_call])

text \<open>
  C26. A read over TLS with a timeout returns, whatever the peer does, and waits in no \<open>select\<close> for
  longer than the timeout: the deadline is fixed once, when the call starts, so a peer that keeps
  sending records without data cannot hold the caller. The clock ticks, OpenSSL's error queue is
  finite, and data that \<open>SSL_pending\<close> announces can be read.
\<close>

theorem tls_read_meets_deadline:
  assumes "ticking S now errs" "pending_reads S" "0 < n" "has_timeout c"
  shows "\<exists>rc bs c' w'. ssh_virtualread S c n w = Some (rc, bs, c', w')
    \<and> emits (short_wait (timeout_ns c)) w w'"
proof (cases "ssh_ssl c = 0")
  case False
  obtain nb w1 where 1: "nb_enter S (comm_sock c) w = (nb, w1)" by fastforce
  obtain dl w2 where 2: "deadline_after S c w1 = (dl, w2)" by fastforce
  note d = deadline_timed [OF assms(1) 1 2]
  from ssh_read_loop_yields [OF assms(1-3) d [THEN conjunct1] d [THEN conjunct2] assms(4), of False]
  show ?thesis
    using False assms(4) nb_leave_timed [OF assms(1)]
    by (fastforce simp: ssh_virtualread_def 1 2 yields_def timed_def)
qed (simp add: ssh_virtualread_def)



text \<open>
  The same for a send over TLS: it returns by the deadline fixed when it starts.
\<close>

theorem tls_send_meets_deadline:
  assumes "ticking S now errs" "has_timeout c"
  shows "\<exists>rc c' w'. ssh_virtualsend S c d w = Some (rc, c', w')
    \<and> emits (short_wait (timeout_ns c)) w w'"
proof (cases "ssh_ssl c = 0")
  case False
  obtain nb w1 where 1: "nb_enter S (comm_sock c) w = (nb, w1)" by fastforce
  obtain dl w2 where 2: "deadline_after S c w1 = (dl, w2)" by fastforce
  note d = deadline_timed [OF assms(1) 1 2]
  from ssh_send_loop_yields [OF assms(1) d [THEN conjunct1] d [THEN conjunct2] assms(2), of d False]
  show ?thesis
    using False assms(2) nb_leave_timed [OF assms(1)]
    by (fastforce simp: ssh_virtualsend_def 1 2 yields_def timed_def)
qed (simp add: ssh_virtualsend_def)

text \<open>
  C28. The same for the TLS handshake: binding a secure layer with a timeout returns, even when the peer
  accepts the connection and never speaks TLS.
\<close>

theorem tls_handshake_meets_deadline:
  assumes t: "ticking S now errs" and h: "has_timeout c"
  shows "\<exists>ok c' w'. ssh_virtualbind S c w = Some (ok, c', w')
    \<and> emits (short_wait (timeout_ns c)) w w'"
proof -
  define T b where "T = timeout_ns c" and "b = now (w_env w)"
  have st: "timed now T b w w" unfolding b_def by (rule timed_start)
  have hs: "yields (ssh_handshake S c1 (ssh_configure S c1 w1)) (\<lambda>(ok, c', w'). emits (short_wait T) w w')"
    if "timed now T b w w1" "has_timeout c1" "timeout_ns c1 = T" for c1 w1
    using ssh_handshake_yields [OF t that(2), of "ssh_configure S c1 w1"] ssh_configure_short [of T w1 S c1] that
    by (auto elim!: yields_weaken simp: timed_def intro: emits_trans)
  have fin: "emits (short_wait T) w w1" if "timed now T b w w1" for w1 using that by (simp add: timed_def)
  have "yields (ssh_virtualbind S c w) (\<lambda>(ok, c', w'). emits (short_wait T) w w')"
    unfolding ssh_virtualbind_def Let_def
    by (intro tc setSSLError_bind [OF t, where T = T and b = b and ?w0.0 = w] hs)
      (use st h in \<open>auto simp: timed_call [OF t] fin T_def [symmetric] split: if_splits prod.splits\<close>)
  then show ?thesis by (auto simp: yields_def T_def)
qed

text \<open>A peer that stalls, and a session with a timeout of two seconds.\<close>

lemma ticking_stalled: "ticking stalled_sys (\<lambda>t. t) (\<lambda>t. 0)" "pending_reads stalled_sys"
proof -
  have "t < t' \<and> (k = Sys_clock \<longrightarrow> sr_val r = t')
      \<and> (k = Err_get_error \<longrightarrow> sr_ret r = 0 \<or> (0 :: nat) < 0) \<and> (\<forall>n. k = Err_error_string n \<longrightarrow> (0 :: nat) = 0)"
    if "stalled_step k t = (r, t')" for k t r t'
    using that stalled_step_time [of k t] by (cases k) (auto simp: ans_def)
  then show "ticking stalled_sys (\<lambda>t. t) (\<lambda>t. 0)" by (simp add: ticking_def stalled_sys_def)
  show "pending_reads stalled_sys" by (auto simp: pending_reads_def stalled_sys_def ans_def)
qed

definition demo_tls :: ssh_comm where
  "demo_tls = ssh_new\<lparr>comm_sock := 3, comm_tsecs := 2, ssh_ctx := 1, ssh_ssl := 2\<rparr>"

lemma demo_tls_simps: "has_timeout demo_tls" "timeout_ns demo_tls = 2000000000" "ssh_ssl demo_tls = 2" "comm_sock demo_tls = 3"
  by (simp_all add: demo_tls_def has_timeout_def timeout_ns_def ssh_new_def comm_new_def comm.defs ssh_comm.defs)

lemma tls_read_meets_deadline_witness:
  "\<exists>rc bs c' w'. ssh_virtualread stalled_sys demo_tls 10 (start 0) = Some (rc, bs, c', w')
    \<and> emits (short_wait 2000000000) (start 0) w'"
  using tls_read_meets_deadline [OF ticking_stalled, of 10 demo_tls "start 0"] by (simp add: demo_tls_simps)

lemma tls_send_meets_deadline_witness:
  "\<exists>rc c' w'. ssh_virtualsend stalled_sys demo_tls [1, 2] (start 0) = Some (rc, c', w')
    \<and> emits (short_wait 2000000000) (start 0) w'"
  using tls_send_meets_deadline [OF ticking_stalled(1), of demo_tls "[1, 2]" "start 0"] by (simp add: demo_tls_simps)

lemma tls_handshake_meets_deadline_witness:
  "\<exists>ok c' w'. ssh_virtualbind stalled_sys demo_tls (start 0) = Some (ok, c', w')
    \<and> emits (short_wait 2000000000) (start 0) w'"
  using tls_handshake_meets_deadline [OF ticking_stalled(1), of demo_tls "start 0"] by (simp add: demo_tls_simps)

end
