(* ===== verification/Comm_SSH_Session.thy ===== *)
theory Comm_SSH_Session
  imports Comm_SSH_Deadline
begin

text \<open>
  What a TLS session does to the descriptor's mode and what its handshake was configured with
  (src/src/socket_comm_ssh.cpp: \<open>NonBlockingScope\<close>, \<open>virtualbind\<close>).
\<close>

subsection \<open>What a timed call does to the descriptor's mode\<close>

lemma err_only_ssl: "err_only c c' \<Longrightarrow> ssh_ssl c' = ssh_ssl c" for c :: ssh_comm
  using err_only_fields [of c c'] ssh_fields_ext [of c' c] by simp

lemma deadline_after_emits_loop: "deadline_after S c w = (d, w') \<Longrightarrow> emits keeps_mode w w'"
  by (auto simp: deadline_after_def frame_back split: prod.splits)

lemma loop_keeps_mode: "io_frame tls_loop c w c' w' \<Longrightarrow> emits keeps_mode w w'"
  by (auto simp: io_frame_def tls_loop_def elim: emits_mono)

lemma nb_scope_log:
  assumes n: "nb_enter S sk w = (nb, w1)" and m: "emits keeps_mode w1 w2"
  shows "\<exists>f q l. (\<forall>x \<in> set l. keeps_mode (fst x)) \<and> w_log (nb_leave S nb w2) = w_log w @ (Sys_getfl sk, f) #
    (if sr_ret f = - 1 then l
     else (Sys_setfl sk (sr_ret f OR O_NONBLOCK), q) # l
          @ (if sr_ret q = - 1 then [] else [(Sys_setfl sk (sr_ret f), fst (call S (Sys_setfl sk (sr_ret f)) w2))]))"
proof -
  obtain l where l: "w_log w2 = w_log w1 @ l" "\<forall>x \<in> set l. keeps_mode (fst x)"
    using m by (auto simp: emits_def)
  obtain f wa where f: "call S (Sys_getfl sk) w = (f, wa)" by fastforce
  obtain q wb where q: "call S (Sys_setfl sk (sr_ret f OR O_NONBLOCK)) wa = (q, wb)" by fastforce
  show ?thesis
    using l n call_log [OF f] call_log [OF q]
    by (intro exI [of _ f] exI [of _ q] exI [of _ l])
      (auto simp: nb_enter_def nb_leave_def f q call_log split: prod.splits if_splits)
qed

text \<open>
  C35. A timed read over TLS leaves the descriptor's mode as it found it: the flags are read, set with
  \<open>O_NONBLOCK\<close>, left alone during the loop, and set back to the value read as the last call before
  the return, on every return path; nothing is restored only if the change of mode had failed.
\<close>

theorem tls_read_restores_mode:
  assumes "ssh_virtualread S c n w = Some (rc, bs, c', w')" "has_timeout c" "ssh_ssl c \<noteq> 0"
  shows "\<exists>f q r l. (\<forall>x \<in> set l. keeps_mode (fst x)) \<and> w_log w' = w_log w @ (Sys_getfl (comm_sock c), f) #
    (if sr_ret f = - 1 then l
     else (Sys_setfl (comm_sock c) (sr_ret f OR O_NONBLOCK), q) # l
          @ (if sr_ret q = - 1 then [] else [(Sys_setfl (comm_sock c) (sr_ret f), r)]))"
proof -
  obtain nb w1 where 1: "nb_enter S (comm_sock c) w = (nb, w1)" by fastforce
  obtain dl w2 where 2: "deadline_after S c w1 = (dl, w2)" by fastforce
  obtain w3 where 3: "forever (ssh_read_turn S n dl) (False, c, w2) = Some (rc, bs, c', w3)" "w' = nb_leave S nb w3"
    using assms 1 2 by (auto simp: ssh_virtualread_def split: bind_splits)
  have "emits keeps_mode w1 w3"
    using deadline_after_emits_loop [OF 2] loop_keeps_mode [OF ssh_read_loop_frame [OF 3(1) io_frame_refl]]
    by (rule emits_trans)
  from nb_scope_log [OF 1 this] 3(2) show ?thesis by blast
qed

subsection \<open>What a handshake was configured with\<close>

lemma handshake_turn_ok:
  "post (ssh_handshake_turn S dl (c, w)) (\<lambda>x. case x of
      Inl (ok, c', w') \<Rightarrow> ok \<longrightarrow> (\<exists>r. w_log w' = w_log w @ [(Ssl_connect (ssh_ssl c), r)] \<and> sr_ret r = 1 \<and> c' = c)
    | Inr (c', w') \<Rightarrow> True)"
  unfolding ssh_handshake_turn_def Let_def
  by (intro vc) (auto simp: call_log)

lemma handshake_loop_ok:
  assumes "forever (ssh_handshake_turn S dl) (c, w) = Some (True, c', w')"
  shows "\<exists>r l. w_log w' = w_log w @ l @ [(Ssl_connect (ssh_ssl c), r)] \<and> sr_ret r = 1
    \<and> (\<forall>x \<in> set l. tls_loop (fst x))"
proof -
  let ?I = "\<lambda>(c1, w1). io_frame tls_loop c w c1 w1"
  let ?Q = "\<lambda>(ok, c1, w1). ok \<longrightarrow> (\<exists>r l. w_log w1 = w_log w @ l @ [(Ssl_connect (ssh_ssl c), r)] \<and> sr_ret r = 1
    \<and> (\<forall>x \<in> set l. tls_loop (fst x)))"
  have "post (forever (ssh_handshake_turn S dl) (c, w)) ?Q"
  proof (rule forever_post [where I = ?I])
    fix s :: "ssh_comm \<times> 'a world"
    assume i: "?I s"
    obtain c1 w1 where s: "s = (c1, w1)" by fastforce
    have c1: "ssh_ssl c1 = ssh_ssl c" using i s err_only_ssl by (auto simp: io_frame_def)
    have i1: "io_frame tls_loop c w c1 w1" using i s by simp
    then obtain l where l: "w_log w1 = w_log w @ l" "\<forall>x \<in> set l. tls_loop (fst x)"
      by (auto simp: io_frame_def emits_def)
    show "post (ssh_handshake_turn S dl s) (\<lambda>x. case x of Inl r \<Rightarrow> ?Q r | Inr s' \<Rightarrow> ?I s')"
      unfolding s
      using post_conj [OF handshake_turn_ok ssh_handshake_turn_frame [OF i1, of S dl]]
    proof (rule post_weaken, goal_cases)
      case (1 x)
      then show ?case
        using l c1 by (cases x) (fastforce split: prod.splits)+
    qed
  qed simp
  then show ?thesis using assms by (auto dest: postD)
qed

lemma nb_enter_log: "nb_enter S sk w = (nb, w') \<Longrightarrow> emits tls_io w w'"
  by (auto simp: nb_enter_def frame_back split: prod.splits if_splits)

lemma handshake_ok:
  assumes "ssh_handshake S c w = Some (True, c', w')"
  shows "\<exists>hs. w_log w' = w_log w @ hs \<and> (\<forall>x \<in> set hs. tls_io (fst x))
    \<and> (\<exists>r. (Ssl_connect (ssh_ssl c), r) \<in> set hs \<and> sr_ret r = 1)"
proof -
  obtain nb w1 where 1: "nb_enter S (if has_timeout c then comm_sock c else - 1) w = (nb, w1)" by fastforce
  obtain dl w2 where 2: "deadline_after S c w1 = (dl, w2)" by fastforce
  obtain w3 where 3: "forever (ssh_handshake_turn S dl) (c, w2) = Some (True, c', w3)" "w' = nb_leave S nb w3"
    using assms 1 2 by (auto simp: ssh_handshake_def split: bind_splits)
  have "emits tls_io w w2"
    using nb_enter_log [OF 1] emits_mono [OF deadline_after_emits [OF 2 emits_refl] tls_loop_io]
    by (rule emits_trans)
  then obtain l1 where l1: "w_log w2 = w_log w @ l1" "\<forall>x \<in> set l1. tls_io (fst x)" by (auto simp: emits_def)
  obtain r l where l: "w_log w3 = w_log w2 @ l @ [(Ssl_connect (ssh_ssl c), r)]" "sr_ret r = 1"
    "\<forall>x \<in> set l. tls_loop (fst x)" using handshake_loop_ok [OF 3(1)] by blast
  have "emits tls_io w3 w'" unfolding 3(2) by (simp add: frame_back)
  then obtain l2 where l2: "w_log w' = w_log w3 @ l2" "\<forall>x \<in> set l2. tls_io (fst x)" by (auto simp: emits_def)
  show ?thesis
    using l1 l l2 tls_loop_io by (intro exI [of _ "l1 @ l @ [(Ssl_connect (ssh_ssl c), r)] @ l2"]) auto
qed

text \<open>
  C21. A verified secure layer is bound only by a handshake that checks the peer: with verification on and
  a host name, \<open>virtualbind\<close> succeeds only if the system's CA certificates were loaded, SNI and the
  host to match were set to that name and peer verification was required, in this order and before the
  descriptor was attached, and if \<open>SSL_connect\<close> of this session then answered 1. (The answer of \<open>SSL_set1_host\<close>
  is not looked at.)
\<close>

theorem verified_handshake:
  assumes "ssh_virtualbind S c w = Some (True, c', w')"
    and "ssh_verify c" "ssh_hostname c = h" "h \<noteq> []" "\<not> isIPLiteral h"
  shows "\<exists>r1 r2 r3 r4 r5 r6 r7 hs. w_log w' = w_log w @
      [(Ssl_ctx_new, r1), (Ssl_ctx_default_verify_paths (ssh_ctx c'), r2), (Ssl_new (ssh_ctx c'), r3),
       (Ssl_set_sni (ssh_ssl c') h, r4), (Ssl_set1_host (ssh_ssl c') h, r5),
       (Ssl_set_verify_peer (ssh_ssl c'), r6), (Ssl_set_fd (ssh_ssl c') (comm_sock c), r7)] @ hs
    \<and> sr_ret r2 \<noteq> 0 \<and> (\<forall>x \<in> set hs. tls_io (fst x))
    \<and> (\<exists>r. (Ssl_connect (ssh_ssl c'), r) \<in> set hs \<and> sr_ret r = 1)"
proof -
  obtain r1 w1 where 1: "call S Ssl_ctx_new w = (r1, w1)" by fastforce
  obtain r2 w2 where 2: "call S (Ssl_ctx_default_verify_paths (sr_ret r1)) w1 = (r2, w2)" by fastforce
  obtain r3 w3 where 3: "call S (Ssl_new (sr_ret r1)) w2 = (r3, w3)" by fastforce
  let ?c = "c\<lparr>ssh_ctx := sr_ret r1, ssh_ssl := sr_ret r3\<rparr>"
  have ok: "sr_ret r1 \<noteq> 0" "sr_ret r2 \<noteq> 0" "sr_ret r3 \<noteq> 0"
    and hs: "ssh_handshake S ?c (ssh_configure S ?c w3) = Some (True, c', w')"
    using assms(1,2) by (auto simp: ssh_virtualbind_def Let_def 1 2 3 split: bind_splits if_splits)
  obtain r4 w4 where 4: "call S (Ssl_set_sni (sr_ret r3) h) w3 = (r4, w4)" by fastforce
  obtain r5 w5 where 5: "call S (Ssl_set1_host (sr_ret r3) h) w4 = (r5, w5)" by fastforce
  obtain r6 w6 where 6: "call S (Ssl_set_verify_peer (sr_ret r3)) w5 = (r6, w6)" by fastforce
  obtain r7 w7 where 7: "call S (Ssl_set_fd (sr_ret r3) (comm_sock c)) w6 = (r7, w7)" by fastforce
  have cf: "ssh_configure S ?c w3 = w7"
    using assms by (simp add: ssh_configure_def Let_def 4 5 6 7)
  have c': "ssh_ctx c' = sr_ret r1" "ssh_ssl c' = sr_ret r3"
    using postD [OF ssh_handshake_frame hs] ssh_fields_ext [of c' ?c] err_only_fields [of ?c c']
    by (auto simp: io_frame_def)
  obtain l where "w_log w' = w_log w7 @ l" "\<forall>x \<in> set l. tls_io (fst x)"
    "\<exists>r. (Ssl_connect (sr_ret r3), r) \<in> set l \<and> sr_ret r = 1"
    using handshake_ok [OF hs] by (auto simp: cf)
  moreover have "w_log w7 = w_log w @
      [(Ssl_ctx_new, r1), (Ssl_ctx_default_verify_paths (sr_ret r1), r2), (Ssl_new (sr_ret r1), r3),
       (Ssl_set_sni (sr_ret r3) h, r4), (Ssl_set1_host (sr_ret r3) h, r5),
       (Ssl_set_verify_peer (sr_ret r3), r6), (Ssl_set_fd (sr_ret r3) (comm_sock c), r7)]"
    using call_log [OF 1] call_log [OF 2] call_log [OF 3] call_log [OF 4] call_log [OF 5] call_log [OF 6]
      call_log [OF 7] by simp
  ultimately show ?thesis unfolding c' using ok(2) by (metis append.assoc)
qed

fun no_host_set :: "syscall \<Rightarrow> bool" where
  "no_host_set (Ssl_set1_host _ _) = False"
| "no_host_set (Ssl_set_sni _ _) = False"
| "no_host_set _ = True"

lemma tls_io_no_host: "tls_io k \<Longrightarrow> no_host_set k"
  by (cases k) auto

lemma io_frame_no_host: "io_frame tls_io c w c' w' \<Longrightarrow> emits no_host_set w0 w \<Longrightarrow> emits no_host_set w0 w'"
  by (auto simp: io_frame_def intro: emits_trans emits_mono tls_io_no_host)

lemma ssh_handshake_no_host:
  assumes "emits no_host_set w0 w"
  shows "post (ssh_handshake S c w) (\<lambda>(ok, c', w'). emits no_host_set w0 w')"
  using ssh_handshake_frame by (rule post_weaken) (use assms io_frame_no_host in auto)

text \<open>
  The host is not checked for an IP literal: whatever the verification switch says, neither SNI nor
  the host to match is ever set.
\<close>

theorem ip_literal_is_not_matched:
  assumes "ssh_virtualbind S c w = Some (ok, c', w')" "isIPLiteral (ssh_hostname c)"
  shows "emits no_host_set w w'"
proof -
  have cf: "emits no_host_set w0 (ssh_configure S c1 w1)"
    if "emits no_host_set w0 w1" "isIPLiteral (ssh_hostname c1)" for w0 w1 :: "'a world" and c1
    using that unfolding ssh_configure_def Let_def by (simp add: emits_trans [OF _ emits_call])
  have er: "emits no_host_set w0 w2" if "setSSLError S p c1 w1 = Some (c2, w2)" "emits no_host_set w0 w1"
    for w0 w1 :: "'a world" and p c1 c2 w2
    using io_frame_no_host [OF tls_io_frames(1) [OF that(1) io_frame_refl] that(2)] .
  have "post (ssh_virtualbind S c w) (\<lambda>(ok, c', w'). emits no_host_set w w')"
    unfolding ssh_virtualbind_def Let_def
    by (intro vc ssh_handshake_no_host cf)
      (use assms(2) in \<open>auto simp: frame_back er split: if_splits prod.splits\<close>)
  then show ?thesis using assms(1) by (auto dest: postD)
qed

text \<open>Worked examples.\<close>

definition demo_host :: "string \<Rightarrow> ssh_comm" where
  "demo_host h = (ssh_setHostname (Some h) ssh_new)\<lparr>comm_sock := 3\<rparr>"

lemma verified_handshake_witness:
  "\<exists>c' w' pre hs. ssh_virtualbind stream_sys (demo_host ''host'') (start []) = Some (True, c', w')
    \<and> w_log w' = pre @ hs \<and> (\<exists>r. (Ssl_set1_host (ssh_ssl c') ''host'', r) \<in> set pre)
    \<and> (\<exists>r. (Ssl_set_verify_peer (ssh_ssl c'), r) \<in> set pre)
    \<and> (\<exists>r. (Ssl_connect (ssh_ssl c'), r) \<in> set hs \<and> sr_ret r = 1)"
proof -
  obtain c' w' where b: "ssh_virtualbind stream_sys (demo_host ''host'') (start []) = Some (True, c', w')"
    by (simp add: run demo_host_def cong: bind_weak_cong)
  have h: "ssh_verify (demo_host ''host'')" "ssh_hostname (demo_host ''host'') = ''host''" "\<not> isIPLiteral ''host''" "''host'' \<noteq> []"
    by (simp_all add: run demo_host_def)
  obtain r1 r2 r3 r4 r5 r6 r7 hs where "w_log w' =
      [(Ssl_ctx_new, r1), (Ssl_ctx_default_verify_paths (ssh_ctx c'), r2), (Ssl_new (ssh_ctx c'), r3),
       (Ssl_set_sni (ssh_ssl c') ''host'', r4), (Ssl_set1_host (ssh_ssl c') ''host'', r5),
       (Ssl_set_verify_peer (ssh_ssl c'), r6), (Ssl_set_fd (ssh_ssl c') (comm_sock (demo_host ''host'')), r7)] @ hs"
     "\<exists>r. (Ssl_connect (ssh_ssl c'), r) \<in> set hs \<and> sr_ret r = 1"
    using verified_handshake [OF b h(1,2) h(4) h(3), unfolded fresh_start append_Nil] by (elim exE conjE) (rule that, assumption, blast)
  then show ?thesis using b
    by (intro exI [of _ c'] exI [of _ w'] exI [of _ "[(Ssl_ctx_new, r1), (Ssl_ctx_default_verify_paths (ssh_ctx c'), r2), (Ssl_new (ssh_ctx c'), r3),
       (Ssl_set_sni (ssh_ssl c') ''host'', r4), (Ssl_set1_host (ssh_ssl c') ''host'', r5),
       (Ssl_set_verify_peer (ssh_ssl c'), r6), (Ssl_set_fd (ssh_ssl c') (comm_sock (demo_host ''host'')), r7)]"]
       exI [of _ hs]) (auto simp: fresh_start)
qed

lemma ip_literal_is_not_matched_witness:
  "\<exists>c' w'. ssh_virtualbind stream_sys (demo_host ''10.0.0.1'') (start []) = Some (True, c', w')
    \<and> emits no_host_set (start []) w'"
proof -
  obtain c' w' where b: "ssh_virtualbind stream_sys (demo_host ''10.0.0.1'') (start []) = Some (True, c', w')"
    by (simp add: run demo_host_def cong: bind_weak_cong)
  have "isIPLiteral (ssh_hostname (demo_host ''10.0.0.1''))" by (simp add: run demo_host_def)
  from ip_literal_is_not_matched [OF b this] b show ?thesis by blast
qed

lemma tls_read_restores_mode_witness:
  "\<exists>c' w' f q r l. ssh_virtualread stream_sys demo_tls 1 (start [7]) = Some (1, [7], c', w')
    \<and> w_log w' = [(Sys_getfl 3, f), (Sys_setfl 3 (sr_ret f OR O_NONBLOCK), q)] @ l @ [(Sys_setfl 3 (sr_ret f), r)]"
proof -
  obtain c' w' where b: "ssh_virtualread stream_sys demo_tls 1 (start [7]) = Some (1, [7], c', w')"
    "map (sr_ret \<circ> snd) (take 2 (w_log w')) = [0, 0]"
    by (simp add: run demo_tls_def cong: bind_weak_cong)
  from tls_read_restores_mode [OF b(1)] show ?thesis
    using b by (fastforce simp: demo_tls_simps fresh_start)
qed

end
