(* ===== verification/Comm.thy ===== *)
theory Comm
  imports Comm_Normal Comm_SSH_Session
begin

text \<open>
  A \<open>Socket_Comm *\<close>: an object of one of the two subclasses, and the operations a client calls
  through the pointer, dispatched on the class (src/src/socket_comm.h). The destructors call
  \<open>finish()\<close> and release the object.
\<close>

datatype comm_obj = Normal_Comm comm | SSH_Comm ssh_comm

fun isSecure :: "comm_obj \<Rightarrow> bool" where
  "isSecure (Normal_Comm c) = False"
| "isSecure (SSH_Comm c) = True"

fun obj_getError :: "comm_obj \<Rightarrow> string" where
  "obj_getError (Normal_Comm c) = comm_error c"
| "obj_getError (SSH_Comm c) = comm_error c"

fun obj_sock :: "comm_obj \<Rightarrow> int" where
  "obj_sock (Normal_Comm c) = comm_sock c"
| "obj_sock (SSH_Comm c) = comm_sock c"

fun obj_setTimeout :: "int \<Rightarrow> int \<Rightarrow> comm_obj \<Rightarrow> comm_obj" where
  "obj_setTimeout s u (Normal_Comm c) = Normal_Comm (comm_setTimeout s u c)"
| "obj_setTimeout s u (SSH_Comm c) = SSH_Comm (comm_setTimeout s u c)"

fun obj_bind :: "'e sys \<Rightarrow> int \<Rightarrow> comm_obj \<Rightarrow> 'e world \<Rightarrow> (bool \<times> comm_obj \<times> 'e world) option" where
  "obj_bind S sock (Normal_Comm c) w =
     do { (ok, c, w) \<leftarrow> normal_bind S sock c w; Some (ok, Normal_Comm c, w) }"
| "obj_bind S sock (SSH_Comm c) w =
     do { (ok, c, w) \<leftarrow> ssh_bind S sock c w; Some (ok, SSH_Comm c, w) }"

fun obj_finish :: "'e sys \<Rightarrow> comm_obj \<Rightarrow> 'e world \<Rightarrow> (bool \<times> comm_obj \<times> 'e world) option" where
  "obj_finish S (Normal_Comm c) w =
     do { (ok, c, w) \<leftarrow> normal_finish S c w; Some (ok, Normal_Comm c, w) }"
| "obj_finish S (SSH_Comm c) w =
     do { (ok, c, w) \<leftarrow> ssh_finish S c w; Some (ok, SSH_Comm c, w) }"

fun obj_send ::
  "'e sys \<Rightarrow> comm_obj \<Rightarrow> byte list \<Rightarrow> 'e world \<Rightarrow> (int \<times> comm_obj \<times> 'e world) option" where
  "obj_send S (Normal_Comm c) d w =
     do { (rc, c, w) \<leftarrow> normal_send S c d w; Some (rc, Normal_Comm c, w) }"
| "obj_send S (SSH_Comm c) d w =
     do { (rc, c, w) \<leftarrow> ssh_send S c d w; Some (rc, SSH_Comm c, w) }"

fun obj_read ::
  "'e sys \<Rightarrow> comm_obj \<Rightarrow> int \<Rightarrow> 'e world \<Rightarrow> (int \<times> byte list \<times> comm_obj \<times> 'e world) option" where
  "obj_read S (Normal_Comm c) n w =
     do { (rc, bs, c, w) \<leftarrow> normal_read S c n w; Some (rc, bs, Normal_Comm c, w) }"
| "obj_read S (SSH_Comm c) n w =
     do { (rc, bs, c, w) \<leftarrow> ssh_read S c n w; Some (rc, bs, SSH_Comm c, w) }"

text \<open>\<open>delete comm\<close>: \<open>~Socket_Comm_Normal\<close> and \<open>~Socket_Comm_SSH\<close> call \<open>finish()\<close>.\<close>

definition obj_delete :: "'e sys \<Rightarrow> comm_obj \<Rightarrow> 'e world \<Rightarrow> 'e world option" where
  "obj_delete S c w = do { (ok, c, w) \<leftarrow> obj_finish S c w; Some w }"

text \<open>The byte a one-byte read stored in its \<open>char\<close> variable.\<close>

definition first_byte :: "byte list \<Rightarrow> byte" where
  "first_byte bs = (case bs of [] \<Rightarrow> 0 | b # _ \<Rightarrow> b)"

subsection \<open>What an operation through the pointer keeps\<close>

lemma obj_send_frame:
  "obj_send S x d w = Some (rc, x', w') \<Longrightarrow>
   obj_sock x' = obj_sock x \<and> isSecure x' = isSecure x \<and> emits keeps_fds w w'"
  by (cases x)
    (auto simp: normal_send_def ssh_send_def layer_frame_def split: bind_splits
      dest: postD [OF normal.send_layer_frame] postD [OF ssh.send_layer_frame])

lemma obj_read_frame:
  "obj_read S x n w = Some (rc, bs, x', w') \<Longrightarrow>
   obj_sock x' = obj_sock x \<and> isSecure x' = isSecure x \<and> emits keeps_fds w w'"
  by (cases x)
    (auto simp: normal_read_def ssh_read_def layer_frame_def split: bind_splits
      dest: postD [OF normal.read_layer_frame] postD [OF ssh.read_layer_frame])

lemma obj_bind_frame:
  "obj_bind S s x w = Some (ok, x', w') \<Longrightarrow>
   obj_sock x' = (if obj_sock x = 0 then s else obj_sock x) \<and> isSecure x' = isSecure x
   \<and> emits keeps_fds w w'"
  by (cases x)
    (auto simp: normal_bind_def ssh_bind_def split: bind_splits
      dest: postD [OF normal.bind_sock_cases] postD [OF ssh.bind_sock_cases]
        postD [OF normal.bind_emits] postD [OF ssh.bind_emits])

lemma obj_finish_frame:
  "obj_finish S x w = Some (ok, x', w') \<Longrightarrow>
   obj_sock x' = 0 \<and> isSecure x' = isSecure x \<and> emits keeps_fds w w'"
  by (cases x)
    (auto simp: normal_finish_def ssh_finish_def split: bind_splits
      dest: postD [OF normal.finish_unbinds] postD [OF ssh.finish_unbinds]
        postD [OF normal.finish_emits] postD [OF ssh.finish_emits])

lemma obj_finish_returns: "\<exists>x' w'. obj_finish S x w = Some (obj_sock x \<noteq> 0, x', w')"
proof (cases x)
  case (Normal_Comm c)
  then show ?thesis using normal.finish_returns [where S = S and c = c and w = w] by (auto simp: normal_finish_def)
next
  case (SSH_Comm c)
  then show ?thesis using ssh.finish_returns [where S = S and c = c and w = w] by (auto simp: ssh_finish_def)
qed

lemma obj_delete_returns: "\<exists>w'. obj_delete S x w = Some w' \<and> emits keeps_fds w w'"
  using obj_finish_returns [of S x w] obj_finish_frame [of S x w]
  by (fastforce simp: obj_delete_def)

subsection \<open>The handles a layer object holds\<close>

fun obj_books :: "int multiset \<times> int multiset \<Rightarrow> comm_obj \<Rightarrow> 'e world \<Rightarrow> bool" where
  "obj_books oth (Normal_Comm c) w = tls_books oth {#} {#} w"
| "obj_books oth (SSH_Comm c) w =
     (ssh_books oth c w \<and> (comm_sock c = 0 \<longrightarrow> ssh_ctx c = 0 \<and> ssh_ssl c = 0))"

lemma plain_books: "emits plain_io w w' \<Longrightarrow> tls_books oth x y w' = tls_books oth x y w"
  by (rule tls_books_emits) (auto elim!: emits_mono simp: plain_io_def plain_keeps_handles)

lemma obj_setTimeout_simps [simp]:
  "obj_sock (obj_setTimeout s u x) = obj_sock x" "isSecure (obj_setTimeout s u x) = isSecure x"
  "obj_books oth (obj_setTimeout s u x) w = obj_books oth x w"
  by (cases x; simp add: comm_setTimeout_def ssh_books_def)+

lemma obj_bind_books:
  assumes "obj_bind S s x w = Some (ok, x', w')" "obj_books oth x w"
  shows "obj_books oth x' w'"
proof (cases x)
  case (Normal_Comm c)
  then show ?thesis
    using assms normal_ops_emits(1) [OF _ emits_refl] plain_books [where oth = oth] by (fastforce split: bind_splits)
next
  case (SSH_Comm c)
  have cl: "ssh_ctx c = 0" "ssh_ssl c = 0" if "comm_sock c = 0"
    using assms SSH_Comm that by auto
  have "post (ssh_bind S s c w) (\<lambda>(ok, c', w'). obj_books oth (SSH_Comm c') w')"
    unfolding ssh_bind_def base_bind_def
  proof (intro vc)
    assume free: "\<not> comm_sock c \<noteq> 0" and s: "s \<noteq> 0"
    let ?c = "c\<lparr>comm_sock := s\<rparr>"
    have "ssh_books oth ?c w" using assms SSH_Comm by (simp add: ssh_books_def)
    then show "post (ssh_virtualbind S ?c w) (\<lambda>(ok, c', w'). obj_books oth (SSH_Comm c') w')"
      using post_conj [OF ssh_virtualbind_books [of ?c oth w S] ssh_virtualbind_frame [of S ?c w]] cl free s
      by (auto elim!: post_weaken simp: tls_frame_def)
  qed (use assms SSH_Comm in \<open>auto simp: ssh_books_def comm_setError_def\<close>)
  then show ?thesis using assms SSH_Comm by (auto dest: postD split: bind_splits)
qed

lemma obj_finish_books:
  assumes "obj_finish S x w = Some (ok, x', w')" "obj_books oth x w"
  shows "tls_books oth {#} {#} w' \<and> obj_books oth x' w'"
proof (cases x)
  case (Normal_Comm c)
  then show ?thesis
    using assms normal_ops_emits(2) [OF _ emits_refl] plain_books [where oth = oth] by (fastforce split: bind_splits)
next
  case (SSH_Comm c)
  then obtain c' where c': "ssh_finish S c w = Some (ok, c', w')" "x' = SSH_Comm c'"
    using assms by (auto split: bind_splits)
  show ?thesis
  proof (cases "comm_sock c = 0")
    case True
    then show ?thesis
      using assms SSH_Comm c' by (auto simp: ssh_finish_def base_finish_def ssh_books_def comm_setError_def)
  next
    case False
    then have f: "ssh_virtualfinish S (c\<lparr>comm_sock := 0\<rparr>) w = (ok, c', w')"
      using c' by (simp add: ssh_finish_def base_finish_def)
    have "ssh_books oth (c\<lparr>comm_sock := 0\<rparr>) w" using assms SSH_Comm by (simp add: ssh_books_def)
    from ssh_virtualfinish_books [OF f this] ssh_virtualfinish_frame [OF f] show ?thesis
      by (auto simp: c' ssh_books_def)
  qed
qed

lemma ssh_io_frame:
  "ssh_send S c d w = Some (rc, c', w') \<Longrightarrow> io_frame tls_io c w c' w'"
  "ssh_read S c n w = Some (rc', bs, c', w') \<Longrightarrow> io_frame tls_io c w c' w'"
  using postD [OF ssh_virtualsend_frame, of S c d w] postD [OF ssh_virtualread_frame, of S c n w]
  by (auto simp: ssh_send_def ssh_read_def base_send_def base_read_def split: if_splits)

lemma io_frame_obj_books:
  assumes "io_frame tls_io c w c' w'" "obj_books oth (SSH_Comm c) w"
  shows "obj_books oth (SSH_Comm c') w'"
  using assms io_frame_books [OF assms(1)] err_only_fields [of c c'] ssh_fields_ext [of c' c]
  by (auto simp: io_frame_def)

lemma obj_io_books:
  "obj_send S x d w = Some (rc, x', w') \<Longrightarrow> obj_books oth x w \<Longrightarrow> obj_books oth x' w'"
  "obj_read S x n w = Some (rc', bs, x', w') \<Longrightarrow> obj_books oth x w \<Longrightarrow> obj_books oth x' w'"
  by (cases x;
      fastforce dest: normal_ops_emits(3,4) [OF _ emits_refl] ssh_io_frame intro: io_frame_obj_books
        simp: plain_books simp del: obj_books.simps(2) split: bind_splits)+

lemma obj_delete_books:
  assumes "obj_books oth x w"
  shows "\<exists>w'. obj_delete S x w = Some w' \<and> emits keeps_fds w w' \<and> tls_books oth {#} {#} w'"
proof -
  obtain x' w' where f: "obj_finish S x w = Some (obj_sock x \<noteq> 0, x', w')"
    using obj_finish_returns by blast
  with obj_finish_frame [OF f] obj_finish_books [OF f assms] show ?thesis
    by (simp add: obj_delete_def)
qed

lemmas comm_run [run] = obj_delete_def first_byte_def

end
