(* ===== verification/Connect.thy ===== *)
theory Connect
  imports Comm
begin

text \<open>
  \<open>Socket_Connect\<close> (src/src/socket_connect.h, socket_connect.cpp): the base class of the
  connectors and the five subclasses' data. Connectors own their child through a raw pointer
  that other objects may hold too, so they live in a store from addresses to objects; 0 is the
  null pointer. \<open>new\<close> takes a fresh address, \<open>delete\<close> removes the object, and an access through
  a pointer to no object is undefined behaviour: the result \<open>None\<close>.
\<close>

record conn =
  conn_error :: string
  conn_server :: string
  conn_port :: int
  conn_tsecs :: int
  conn_tmicro :: int
  conn_child :: nat

record proxy_conn = conn +
  px_comm :: comm

record socks4_conn = conn +
  s4_username :: string
  s4_buffer :: "byte list"
  s4_comm :: comm

record socks5_conn = conn +
  s5_username :: string
  s5_password :: string
  s5_buffer :: "byte list"
  s5_comm :: comm

datatype conn_obj =
    Obj_Normal conn
  | Obj_Tunnel conn
  | Obj_Proxy proxy_conn
  | Obj_Socks4 socks4_conn
  | Obj_Socks5 socks5_conn

subsection \<open>Constructors\<close>

definition conn_new :: conn where
  "conn_new = \<lparr>conn_error = [], conn_server = [], conn_port = 0, conn_tsecs = 0, conn_tmicro = 0,
               conn_child = 0\<rparr>"

definition proxy_new :: proxy_conn where
  "proxy_new = conn.extend conn_new (proxy_conn.fields comm_new)"

definition socks4_new :: socks4_conn where
  "socks4_new = conn.extend conn_new (socks4_conn.fields [] (replicate 10 0) comm_new)"

definition socks5_new :: socks5_conn where
  "socks5_new = conn.extend conn_new (socks5_conn.fields [] [] (replicate 200 0) comm_new)"

subsection \<open>The base part of an object\<close>

fun base_of :: "conn_obj \<Rightarrow> conn" where
  "base_of (Obj_Normal c) = c"
| "base_of (Obj_Tunnel c) = c"
| "base_of (Obj_Proxy c) = conn.truncate c"
| "base_of (Obj_Socks4 c) = conn.truncate c"
| "base_of (Obj_Socks5 c) = conn.truncate c"

fun map_base :: "(conn \<Rightarrow> conn) \<Rightarrow> conn_obj \<Rightarrow> conn_obj" where
  "map_base f (Obj_Normal c) = Obj_Normal (f c)"
| "map_base f (Obj_Tunnel c) = Obj_Tunnel (f c)"
| "map_base f (Obj_Proxy c) = Obj_Proxy (conn.extend (f (conn.truncate c)) (conn.more c))"
| "map_base f (Obj_Socks4 c) = Obj_Socks4 (conn.extend (f (conn.truncate c)) (conn.more c))"
| "map_base f (Obj_Socks5 c) = Obj_Socks5 (conn.extend (f (conn.truncate c)) (conn.more c))"

definition conn_setError :: "string \<Rightarrow> 'a conn_scheme \<Rightarrow> 'a conn_scheme" where
  "conn_setError e c = c\<lparr>conn_error := e\<rparr>"

definition conn_setServer :: "string option \<Rightarrow> 'a conn_scheme \<Rightarrow> 'a conn_scheme" where
  "conn_setServer s c = c\<lparr>conn_server := (case s of Some t \<Rightarrow> t | None \<Rightarrow> [])\<rparr>"

definition conn_setPort :: "int \<Rightarrow> 'a conn_scheme \<Rightarrow> 'a conn_scheme" where
  "conn_setPort p c = c\<lparr>conn_port := p\<rparr>"

lemma truncate_extend [simp]: "conn.truncate (conn.extend c m) = c"
  by (cases c) (simp add: conn.defs)

lemma base_of_map_base [simp]: "base_of (map_base f x) = f (base_of x)"
  by (cases x) simp_all

lemma conn_setError_simps [simp]:
  "conn_child (conn_setError e c) = conn_child c"
  "conn_server (conn_setError e c) = conn_server c"
  "conn_port (conn_setError e c) = conn_port c"
  "conn_tsecs (conn_setError e c) = conn_tsecs c"
  "conn_tmicro (conn_setError e c) = conn_tmicro c"
  "conn_error (conn_setError e c) = e"
  by (simp_all add: conn_setError_def)

subsection \<open>The store\<close>

record heap =
  hp_objs :: "nat \<rightharpoonup> conn_obj"
  hp_next :: nat

definition heap_empty :: heap where
  "heap_empty = \<lparr>hp_objs = Map.empty, hp_next = 1\<rparr>"

definition heap_new :: "conn_obj \<Rightarrow> heap \<Rightarrow> nat \<times> heap" where
  "heap_new x h = (hp_next h, h\<lparr>hp_objs := (hp_objs h)(hp_next h \<mapsto> x), hp_next := Suc (hp_next h)\<rparr>)"

definition heap_put :: "nat \<Rightarrow> conn_obj \<Rightarrow> heap \<Rightarrow> heap" where
  "heap_put p x h = h\<lparr>hp_objs := (hp_objs h)(p \<mapsto> x)\<rparr>"

definition heap_free :: "nat \<Rightarrow> heap \<Rightarrow> heap" where
  "heap_free p h = h\<lparr>hp_objs := (hp_objs h)(p := None)\<rparr>"

text \<open>\<open>delete p\<close>: the destructor deletes the child, then the object is gone. Null is allowed.\<close>

partial_function (option) conn_delete :: "nat \<Rightarrow> heap \<Rightarrow> heap option" where
  "conn_delete p h =
     (if p = 0 then Some h
      else case hp_objs h p of
             None \<Rightarrow> None
           | Some x \<Rightarrow> do { h \<leftarrow> conn_delete (conn_child (base_of x)) h; Some (heap_free p h) })"

text \<open>\<open>p->setChild(c)\<close>: replaces the child, deleting one that was there.\<close>

definition conn_setChild :: "nat \<Rightarrow> nat \<Rightarrow> heap \<Rightarrow> heap option" where
  "conn_setChild p c h =
     (case hp_objs h p of
        None \<Rightarrow> None
      | Some x \<Rightarrow> do {
          h \<leftarrow> (if conn_child (base_of x) \<noteq> 0 then conn_delete (conn_child (base_of x)) h else Some h);
          Some (heap_put p (map_base (\<lambda>b. b\<lparr>conn_child := c\<rparr>) x) h)
        })"

text \<open>\<open>p->setTimeout(secs, microsecs)\<close> cascades to the children.\<close>

partial_function (option) conn_setTimeout :: "int \<Rightarrow> int \<Rightarrow> nat \<Rightarrow> heap \<Rightarrow> heap option" where
  "conn_setTimeout secs us p h =
     (case hp_objs h p of
        None \<Rightarrow> None
      | Some x \<Rightarrow>
          let h = heap_put p (map_base (\<lambda>b. b\<lparr>conn_tsecs := secs, conn_tmicro := us\<rparr>) x) h
          in if conn_child (base_of x) \<noteq> 0
             then conn_setTimeout secs us (conn_child (base_of x)) h else Some h)"

subsection \<open>Arguments every connector checks\<close>

definition no_server :: "string option \<Rightarrow> bool" where
  "no_server server = (case server of None \<Rightarrow> True | Some s \<Rightarrow> s = [])"

definition host_of :: "string option \<Rightarrow> string" where
  "host_of server = (case server of None \<Rightarrow> [] | Some s \<Rightarrow> s)"

lemma no_server_iff: "no_server s \<longleftrightarrow> host_of s = []"
  by (cases s) (simp_all add: no_server_def host_of_def)

subsection \<open>The class of an object\<close>

datatype conn_class = Class_Normal | Class_Tunnel | Class_Proxy | Class_Socks4 | Class_Socks5

fun class_of :: "conn_obj \<Rightarrow> conn_class" where
  "class_of (Obj_Normal c) = Class_Normal"
| "class_of (Obj_Tunnel c) = Class_Tunnel"
| "class_of (Obj_Proxy c) = Class_Proxy"
| "class_of (Obj_Socks4 c) = Class_Socks4"
| "class_of (Obj_Socks5 c) = Class_Socks5"

lemma class_of_map_base [simp]: "class_of (map_base f x) = class_of x"
  by (cases x) simp_all

definition class_at :: "heap \<Rightarrow> nat \<rightharpoonup> conn_class" where
  "class_at h p = map_option class_of (hp_objs h p)"

text \<open>What a hop is configured with: its class, server and port.\<close>

definition hop_key :: "conn_obj \<Rightarrow> conn_class \<times> string \<times> int" where
  "hop_key x = (class_of x, conn_server (base_of x), conn_port (base_of x))"

definition hop_at :: "heap \<Rightarrow> nat \<rightharpoonup> conn_class \<times> string \<times> int" where
  "hop_at h p = map_option hop_key (hp_objs h p)"

lemma class_at_hop: "class_at h p = map_option fst (hop_at h p)"
  by (simp add: class_at_def hop_at_def hop_key_def option.map_comp comp_def)

lemma hop_at_class: "hop_at h' = hop_at h \<Longrightarrow> class_at h' = class_at h"
  by (rule ext) (simp add: class_at_hop)

subsection \<open>Chains of connectors\<close>

text \<open>The child of each live object; what ownership is about, whatever else an object holds.\<close>

definition links :: "heap \<Rightarrow> nat \<rightharpoonup> nat" where
  "links h p = map_option (\<lambda>x. conn_child (base_of x)) (hp_objs h p)"

lemma links_simps [simp]:
  "links (heap_put p x h) = (links h)(p \<mapsto> conn_child (base_of x))"
  "links (heap_free p h) = (links h)(p := None)"
  "links (h\<lparr>hp_next := n\<rparr>) = links h"
  "links heap_empty = Map.empty"
  by (auto simp: links_def heap_put_def heap_free_def heap_empty_def)

lemma links_None: "links h p = None \<longleftrightarrow> hp_objs h p = None"
  by (simp add: links_def)

lemma links_Some: "links h p = Some n \<longleftrightarrow> (\<exists>x. hp_objs h p = Some x \<and> conn_child (base_of x) = n)"
  by (auto simp: links_def)

text \<open>\<open>chain l p ps\<close>: the objects from \<open>p\<close> down to the null pointer are \<open>ps\<close>. A connector is
  always made after its child, so addresses decrease along a chain.\<close>

fun chain :: "(nat \<rightharpoonup> nat) \<Rightarrow> nat \<Rightarrow> nat list \<Rightarrow> bool" where
  "chain l p [] = (p = 0)"
| "chain l p (q # qs) = (q = p \<and> p \<noteq> 0 \<and> (case l p of None \<Rightarrow> False | Some n \<Rightarrow> n < p \<and> chain l n qs))"

lemma chain_null [simp]: "chain l 0 ps \<longleftrightarrow> ps = []"
  by (cases ps) auto

lemma chain_bound: "chain l p ps \<Longrightarrow> q \<in> set ps \<Longrightarrow> 0 < q \<and> q \<le> p \<and> l q \<noteq> None"
  by (induction ps arbitrary: p) (fastforce split: option.splits)+

lemma chain_cong: "(\<And>q. q \<in> set ps \<Longrightarrow> l' q = l q) \<Longrightarrow> chain l' p ps = chain l p ps"
  by (induction ps arbitrary: p) (auto split: option.splits)

lemma chain_upd: "q \<notin> set ps \<Longrightarrow> chain (l(q := v)) p ps = chain l p ps"
  by (rule chain_cong) auto

lemma chain_unique: "chain l p ps \<Longrightarrow> chain l p qs \<Longrightarrow> ps = qs"
proof (induction ps arbitrary: p qs)
  case (Cons q ps)
  then show ?case by (cases qs) (auto split: option.splits)
qed auto

text \<open>\<open>delete\<close> frees exactly the objects of the chain.\<close>

lemma conn_delete_chain:
  "chain (links h) p ps \<Longrightarrow>
   conn_delete p h = Some (h\<lparr>hp_objs := hp_objs h |` (- set ps)\<rparr>)"
proof (induction ps arbitrary: p)
  case Nil
  then show ?case by (simp add: conn_delete.simps [of 0])
next
  case (Cons q qs)
  then obtain x where x: "hp_objs h p = Some x" "chain (links h) (conn_child (base_of x)) qs"
    and p: "q = p" "p \<noteq> 0" by (auto simp: links_Some split: option.splits)
  have "(hp_objs h |` (- set qs))(p := None) = hp_objs h |` (- set (q # qs))"
    using p by (auto simp: restrict_map_def fun_eq_iff)
  with Cons.IH [OF x(2)] x p show ?case
    by (subst conn_delete.simps) (simp add: heap_free_def)
qed

lemma links_restrict: "links (h\<lparr>hp_objs := hp_objs h |` A\<rparr>) = links h |` A"
  by (auto simp: links_def restrict_map_def fun_eq_iff)

text \<open>\<open>setTimeout\<close> walks the chain; it is defined only on a chain of live objects.\<close>

lemma setTimeout_step:
  assumes "hp_objs h p = Some x"
  shows "links (heap_put p (map_base (\<lambda>b. b\<lparr>conn_tsecs := s, conn_tmicro := u\<rparr>) x) h) = links h"
  using assms by (auto simp: links_def heap_put_def fun_eq_iff)

lemma conn_setTimeout_chain:
  "chain (links h) p ps \<Longrightarrow> p \<noteq> 0 \<Longrightarrow>
   \<exists>h'. conn_setTimeout s u p h = Some h' \<and> links h' = links h \<and> hp_next h' = hp_next h"
proof (induction ps arbitrary: p h)
  case (Cons q qs)
  then obtain x where x: "hp_objs h p = Some x" "chain (links h) (conn_child (base_of x)) qs"
    by (auto simp: links_Some split: option.splits)
  define h1 where "h1 = heap_put p (map_base (\<lambda>b. b\<lparr>conn_tsecs := s, conn_tmicro := u\<rparr>) x) h"
  have h1: "links h1 = links h" "hp_next h1 = hp_next h"
    using setTimeout_step [OF x(1), of u s] by (simp_all add: h1_def heap_put_def)
  have eq: "conn_setTimeout s u p h = (if conn_child (base_of x) \<noteq> 0
      then conn_setTimeout s u (conn_child (base_of x)) h1 else Some h1)"
    using x(1) by (subst conn_setTimeout.simps) (simp add: h1_def Let_def)
  show ?case
    using Cons.IH [of h1 "conn_child (base_of x)"] x(2) h1 by (auto simp: eq)
qed auto

definition heap_ok :: "heap \<Rightarrow> bool" where
  "heap_ok h \<longleftrightarrow> 0 < hp_next h \<and> (\<forall>p n. links h p = Some n \<longrightarrow> 0 < p \<and> p < hp_next h \<and> n < p)"

lemma heap_okD: "heap_ok h \<Longrightarrow> links h p = Some n \<Longrightarrow> 0 < p \<and> p < hp_next h \<and> n < p"
  by (simp add: heap_ok_def)

lemma conn_setTimeout_defined:
  assumes "heap_ok h"
  shows "conn_setTimeout s u p h = Some h' \<Longrightarrow>
    (\<exists>ps. ps \<noteq> [] \<and> chain (links h) p ps) \<and> links h' = links h \<and> hp_next h' = hp_next h
    \<and> hop_at h' = hop_at h"
  using assms
proof (induction p arbitrary: h rule: less_induct)
  case (less p)
  obtain x where x: "hp_objs h p = Some x"
    using less.prems by (subst (asm) conn_setTimeout.simps) (auto split: option.splits)
  let ?n = "conn_child (base_of x)"
  let ?h = "heap_put p (map_base (\<lambda>b. b\<lparr>conn_tsecs := s, conn_tmicro := u\<rparr>) x) h"
  have l: "links ?h = links h" by (rule setTimeout_step [OF x])
  have c: "hop_at ?h = hop_at h" using x by (auto simp: hop_at_def hop_key_def heap_put_def fun_eq_iff)
  have p: "links h p = Some ?n" "0 < p" "?n < p"
    using x less.prems(2) by (auto simp: links_def heap_ok_def)
  show ?case
  proof (cases "?n = 0")
    case True
    then have "chain (links h) p [p]" using p by simp
    moreover have "h' = ?h"
      using less.prems(1) x True by (subst (asm) conn_setTimeout.simps) (simp add: Let_def)
    ultimately show ?thesis using l c by (auto simp: heap_put_def)
  next
    case False
    have "conn_setTimeout s u ?n ?h = Some h'"
      using less.prems(1) x False by (subst (asm) conn_setTimeout.simps) (simp add: Let_def)
    moreover have "heap_ok ?h" using less.prems(2) l by (simp add: heap_ok_def heap_put_def)
    ultimately obtain ps where "chain (links h) ?n ps" "links h' = links h" "hp_next h' = hp_next h"
        "hop_at h' = hop_at h"
      using less.IH [of ?n ?h] p l c by (auto simp: heap_put_def)
    then show ?thesis using p by (intro conjI exI [of _ "p # ps"]) auto
  qed
qed

subsection \<open>What a hop keeps of an object\<close>

text \<open>A hop leaves the configuration of its connector alone and keeps the descriptors.\<close>

definition same_conn :: "'a conn_scheme \<Rightarrow> 'b conn_scheme \<Rightarrow> bool" where
  "same_conn c c' \<longleftrightarrow> conn_server c' = conn_server c \<and> conn_port c' = conn_port c
     \<and> conn_tsecs c' = conn_tsecs c \<and> conn_tmicro c' = conn_tmicro c \<and> conn_child c' = conn_child c"

definition hop_frame :: "'a conn_scheme \<Rightarrow> 'e world \<Rightarrow> 'a conn_scheme \<Rightarrow> 'e world \<Rightarrow> bool" where
  "hop_frame c w c' w' \<longleftrightarrow> same_conn c c' \<and> emits plain_io w w'"

lemma hop_frame_refl [simp]: "hop_frame c w c w"
  by (simp add: hop_frame_def same_conn_def)

lemma hop_frame_trans: "hop_frame c w c' w' \<Longrightarrow> hop_frame c' w' c'' w'' \<Longrightarrow> hop_frame c w c'' w''"
  by (auto simp: hop_frame_def same_conn_def intro: emits_trans)

lemma hop_frame_setError [simp]: "hop_frame c w (conn_setError e c') w' = hop_frame c w c' w'"
  by (simp add: hop_frame_def same_conn_def)

lemma hop_frame_back [frame_back]:
  "call S k w = (r, w') \<Longrightarrow> plain_io k \<Longrightarrow> hop_frame c0 w0 c w \<Longrightarrow> hop_frame c0 w0 c w'"
  "normal_bind S s x w = Some (ok, x', w') \<Longrightarrow> hop_frame c0 w0 c w \<Longrightarrow> hop_frame c0 w0 c w'"
  "normal_send S x d w = Some (rc, x', w') \<Longrightarrow> hop_frame c0 w0 c w \<Longrightarrow> hop_frame c0 w0 c w'"
  "normal_read S x n w = Some (rc, bs, x', w') \<Longrightarrow> hop_frame c0 w0 c w \<Longrightarrow> hop_frame c0 w0 c w'"
  by (auto simp: hop_frame_def frame_back)

lemma truncate_fields [simp]:
  "conn_server (conn.truncate c) = conn_server c" "conn_port (conn.truncate c) = conn_port c"
  "conn_tsecs (conn.truncate c) = conn_tsecs c" "conn_tmicro (conn.truncate c) = conn_tmicro c"
  "conn_child (conn.truncate c) = conn_child c" "conn_error (conn.truncate c) = conn_error c"
  by (simp_all add: conn.defs)

lemma same_conn_truncate [simp]: "same_conn (conn.truncate c) (conn.truncate c') = same_conn c c'"
  by (simp add: same_conn_def)

text \<open>The class and the configuration of an object, and of all objects of a store.\<close>

definition conn_key :: "'a conn_scheme \<Rightarrow> string \<times> int \<times> int \<times> int \<times> nat" where
  "conn_key c = (conn_server c, conn_port c, conn_tsecs c, conn_tmicro c, conn_child c)"

definition obj_key :: "conn_obj \<Rightarrow> conn_class \<times> string \<times> int \<times> int \<times> int \<times> nat" where
  "obj_key x = (class_of x, conn_key (base_of x))"

definition heap_keys :: "heap \<Rightarrow> nat \<Rightarrow> (conn_class \<times> string \<times> int \<times> int \<times> int \<times> nat) option" where
  "heap_keys h p = map_option obj_key (hp_objs h p)"


lemma obj_key_setError [simp]: "obj_key (map_base (conn_setError e) x) = obj_key x"
  by (simp add: obj_key_def conn_key_def)

lemma same_conn_key: "same_conn c c' \<longleftrightarrow> conn_key c' = conn_key c"
  by (auto simp: same_conn_def conn_key_def)

lemma heap_keys_put:
  "hp_objs h p = Some x \<Longrightarrow> obj_key y = obj_key x \<Longrightarrow> heap_keys (heap_put p y h) = heap_keys h"
  by (auto simp: heap_keys_def heap_put_def fun_eq_iff)

lemma links_keys: "heap_keys h' = heap_keys h \<Longrightarrow> links h' = links h"
proof (rule ext)
  fix p
  assume "heap_keys h' = heap_keys h"
  from fun_cong [OF this, of p] show "links h' p = links h p"
    by (cases "hp_objs h p"; cases "hp_objs h' p")
      (auto simp: heap_keys_def links_def obj_key_def conn_key_def)
qed

lemma heap_keys_lookup:
  "heap_keys h' = heap_keys h \<Longrightarrow> hp_objs h p = Some x \<Longrightarrow>
   \<exists>y. hp_objs h' p = Some y \<and> obj_key y = obj_key x"
  by (drule fun_cong [where x = p]) (auto simp: heap_keys_def)

lemma conn_key_setError [simp]: "conn_key (conn_setError e c) = conn_key c"
  by (simp add: conn_key_def)

lemma class_at_keys: "heap_keys h' = heap_keys h \<Longrightarrow> class_at h' = class_at h"
proof (rule ext)
  fix p
  assume "heap_keys h' = heap_keys h"
  from fun_cong [OF this, of p] show "class_at h' p = class_at h p"
    by (cases "hp_objs h p"; cases "hp_objs h' p") (auto simp: heap_keys_def class_at_def obj_key_def)
qed

lemmas connect_run [run] = conn_new_def proxy_new_def socks4_new_def socks5_new_def conn_setError_def
  conn_setServer_def conn_setPort_def heap_empty_def heap_new_def heap_put_def heap_free_def
  conn_delete.simps conn_setChild_def conn_setTimeout.simps no_server_def host_of_def conn.defs
  proxy_conn.defs socks4_conn.defs socks5_conn.defs

end
