(* ===== verification/Connect_Normal.thy ===== *)
theory Connect_Normal
  imports Connect
begin

text \<open>
  \<open>Socket_Connect_Normal\<close> (src/src/socket_connect_normal.h, socket_connect_normal.cpp) and
  \<open>Socket_Connect_Tunnel\<close>: the connector that opens the TCP connection, with its non-blocking
  connect and its handling of \<open>errno\<close>, and the transparent one that does nothing. The POSIX
  branches are modelled; the progress message it formats is never shown and left out.
\<close>

definition socketError :: "'e world \<Rightarrow> int" where
  "socketError w = w_errno w"

definition setSocketError :: "int \<Rightarrow> 'e world \<Rightarrow> 'e world" where
  "setSocketError n w = w\<lparr>w_errno := n\<rparr>"

definition setNonBlocking :: "'e sys \<Rightarrow> int \<Rightarrow> bool \<Rightarrow> 'e world \<Rightarrow> bool \<times> 'e world" where
  "setNonBlocking S s nonblocking w =
     (let (r, w) = call S (Sys_getfl s) w; flags = sr_ret r
      in if flags = - 1 then (False, w)
         else let wanted = (if nonblocking then flags OR O_NONBLOCK else flags AND NOT O_NONBLOCK);
                  (q, w) = call S (Sys_setfl s wanted) w
              in (sr_ret q \<noteq> - 1, w))"

definition connectInProgress :: "'e world \<Rightarrow> bool" where
  "connectInProgress w = (w_errno w = EINPROGRESS \<or> w_errno w = EWOULDBLOCK)"

definition lastSocketError :: "'e sys \<Rightarrow> 'e world \<Rightarrow> string" where
  "lastSocketError S w = sys_strerror S (w_errno w)"

definition closeSocket :: "'e sys \<Rightarrow> int \<Rightarrow> 'e world \<Rightarrow> 'e world" where
  "closeSocket S s w =
     (let saved = socketError w; (r, w) = call S (Sys_close s) w in setSocketError saved w)"

text \<open>\<open>htons((u_short) port)\<close>: the low 16 bits.\<close>

definition htons :: "int \<Rightarrow> int" where
  "htons port = port mod 65536"

text \<open>Steps 2 of \<open>connecttimeout\<close>: issue the connect and wait for its outcome.\<close>

definition await_connect ::
  "'e sys \<Rightarrow> int \<Rightarrow> byte list \<Rightarrow> int \<Rightarrow> int \<Rightarrow> 'e world \<Rightarrow> int \<times> 'e world" where
  "await_connect S sock addr port msec w =
     (let (r, w) = call S (Sys_connect sock addr port) w
      in if sr_ret r = 0 then (0, w)
         else if connectInProgress w then
           let (r, w) = call S (Sys_select sock False True True
                                  (Some (msec sdiv 1000, 1000 * (msec smod 1000)))) w
           in if sr_ret r > 0 \<and> (fd_isset_write r \<or> fd_isset_except r) then
                let (r, w) = call S (Sys_so_error sock) w
                in if sr_ret r \<noteq> 0 then (- 1, w)
                   else if sr_val r = 0 then (0, w)
                   else (- 1, setSocketError (sr_val r) w)
              else if sr_ret r = 0 then (- 2, w)
              else (- 1, w)
         else (- 1, w))"

definition connecttimeout ::
  "'e sys \<Rightarrow> int \<Rightarrow> byte list \<Rightarrow> int \<Rightarrow> int \<Rightarrow> 'e world \<Rightarrow> int \<times> 'e world" where
  "connecttimeout S sock addr port msec w =
     (let (ok, w) = setNonBlocking S sock True w
      in if \<not> ok then (- 1, w)
         else let (value, w) = await_connect S sock addr port msec w;
                  saved = socketError w;
                  (ok, w) = setNonBlocking S sock False w
              in if \<not> ok then (- 1, w) else (value, setSocketError saved w))"

text \<open>\<open>getTimeoutSecs() * 1000 + getTimeoutMicroSecs() / 1000\<close> in \<open>int\<close> arithmetic.\<close>

definition timeout_ms :: "'a conn_scheme \<Rightarrow> int" where
  "timeout_ms c = int32 (int32 (conn_tsecs c * 1000) + conn_tmicro c sdiv 1000)"

text \<open>The end of \<open>simpleConnect\<close>: connect the fresh descriptor to the resolved address.\<close>

definition connect_resolved ::
  "'e sys \<Rightarrow> 'a conn_scheme \<Rightarrow> int \<Rightarrow> byte list \<Rightarrow> int \<Rightarrow> 'e world \<Rightarrow>
   bool \<times> 'a conn_scheme \<times> int \<times> 'e world" where
  "connect_resolved S c sock addr port w =
     (let (rc, w) = (if timeout_ms c \<noteq> 0 then connecttimeout S sock addr (htons port) (timeout_ms c) w
                     else let (r, w) = call S (Sys_connect sock addr (htons port)) w in (sr_ret r, w))
      in if rc \<noteq> 0
         then (False,
               conn_setError (if rc = - 2 then ''Connect Timed Out'' else lastSocketError S w) c,
               0, closeSocket S sock w)
         else (True, c, sock, w))"

definition normal_simpleConnect ::
  "'e sys \<Rightarrow> 'a conn_scheme \<Rightarrow> int \<Rightarrow> string option \<Rightarrow> int \<Rightarrow> 'e world \<Rightarrow>
   bool \<times> 'a conn_scheme \<times> int \<times> 'e world" where
  "normal_simpleConnect S c sock server port w =
     (if port \<le> 0 then (False, conn_setError ''Port not set for HTTPConnect Object'' c, sock, w)
      else if no_server server
      then (False, conn_setError ''Server Not Set for HTTPConnect Object'' c, sock, w)
      else
        let (r, w) = call S Sys_socket w; sock = sr_ret r
        in if sock = 0 then (False, conn_setError ''Could not create socket'' c, sock, w)
           else
             let w = (if has_so_nosigpipe (sys_build S)
                      then snd (call S (Sys_set_nosigpipe sock) w) else w);
                 (a, w) = call S (Sys_getaddrinfo (host_of server)) w
             in if sr_ret a \<noteq> 0 \<or> sr_val a = 0
                then (False, conn_setError ''Could not resolve domain'' c, 0, closeSocket S sock w)
                else connect_resolved S c sock (sr_bytes a) port w)"

text \<open>A tunnel is transparent: nothing to negotiate.\<close>

definition tunnel_simpleConnect ::
  "'e sys \<Rightarrow> 'a conn_scheme \<Rightarrow> int \<Rightarrow> string option \<Rightarrow> int \<Rightarrow> 'e world \<Rightarrow>
   bool \<times> 'a conn_scheme \<times> int \<times> 'e world" where
  "tunnel_simpleConnect S c sock server port w = (True, c, sock, w)"

subsection \<open>Frames\<close>

lemma setNonBlocking_emits [frame_back]:
  "setNonBlocking S s b w = (ok, w') \<Longrightarrow> emits plain_io w0 w \<Longrightarrow> emits plain_io w0 w'"
  by (auto simp: setNonBlocking_def Let_def frame_back split: prod.splits if_splits)

lemma await_connect_emits [frame_back]:
  "await_connect S s a p m w = (v, w') \<Longrightarrow> emits plain_io w0 w \<Longrightarrow> emits plain_io w0 w'"
  by (auto simp: await_connect_def setSocketError_def Let_def frame_back split: prod.splits if_splits)

lemma connecttimeout_emits [frame_back]:
  "connecttimeout S s a p m w = (v, w') \<Longrightarrow> emits plain_io w0 w \<Longrightarrow> emits plain_io w0 w'"
  by (auto simp: connecttimeout_def setSocketError_def Let_def frame_back split: prod.splits if_splits)

lemma closeSocket_log: "\<exists>r. w_log (closeSocket S s w) = w_log w @ [(Sys_close s, r)]"
  by (auto simp: closeSocket_def setSocketError_def Let_def call_log split: prod.splits)

lemma closeSocket_errno [simp]: "w_errno (closeSocket S s w) = w_errno w"
  by (auto simp: closeSocket_def setSocketError_def socketError_def Let_def split: prod.splits)

lemma closeSocket_fds [simp]:
  "opens (closeSocket S s w) = opens w" "closes (closeSocket S s w) = closes w + {#s#}"
  using closeSocket_log [of S s w] by (auto simp: opens_def closes_def ledger_def)

lemma closeSocket_owned:
  "owned_closes w \<Longrightarrow> opens w = closes w + {#s#} + m \<Longrightarrow> owned_closes (closeSocket S s w)"
  using owned_closes_call [of S "Sys_close s" w]
  by (auto simp: closeSocket_def setSocketError_def Let_def split: prod.splits)

text \<open>Connecting ends with the descriptor open and returned, or closed and 0 returned.\<close>

lemma connect_resolved_fds:
  assumes "connect_resolved S c sock addr port w = (ok, c', s', w')"
  shows "(\<exists>e. c' = c\<lparr>conn_error := e\<rparr>) \<and> s' = (if ok then sock else 0) \<and> opens w' = opens w
    \<and> closes w' = closes w + (if ok then {#} else {#sock#})"
proof -
  let ?go = "if timeout_ms c \<noteq> 0 then connecttimeout S sock addr (htons port) (timeout_ms c) w
             else let (r, w) = call S (Sys_connect sock addr (htons port)) w in (sr_ret r, w)"
  obtain rc w1 where rc: "?go = (rc, w1)" by fastforce
  have "emits plain_io w w1"
    using rc by (auto simp: frame_back split: if_splits prod.splits)
  from emits_keeps_fds [OF emits_plain_io(2) [OF this]] show ?thesis
    using assms rc
    by (auto simp: connect_resolved_def Let_def conn_setError_def split: if_splits
        intro: exI [of _ "conn_error c"])
qed

lemma closeSocket_plain [frame_back]:
  "emits plain_call w0 w \<Longrightarrow> emits plain_call w0 (closeSocket S s w)"
  by (auto simp: closeSocket_def setSocketError_def Let_def frame_back split: prod.splits)

lemma connecttimeout_plain [frame_back]:
  "connecttimeout S s a p m w = (v, w') \<Longrightarrow> emits plain_call w0 w \<Longrightarrow> emits plain_call w0 w'"
  using connecttimeout_emits [of S s a p m w v w' w] by (auto intro: emits_trans emits_plain_io(1))

lemma connect_resolved_plain:
  "connect_resolved S c sock addr port w = (ok, c', s', w') \<Longrightarrow> emits plain_call w w'"
  by (auto simp: connect_resolved_def Let_def frame_back split: if_splits prod.splits)

lemma connect_resolved_owned:
  assumes "connect_resolved S c sock addr port w = (ok, c', s', w')"
    and "owned_closes w" "opens w = closes w + {#sock#} + m"
  shows "owned_closes w'"
proof -
  let ?go = "if timeout_ms c \<noteq> 0 then connecttimeout S sock addr (htons port) (timeout_ms c) w
             else let (r, w) = call S (Sys_connect sock addr (htons port)) w in (sr_ret r, w)"
  obtain rc w1 where rc: "?go = (rc, w1)" by fastforce
  have "emits plain_io w w1"
    using rc by (auto simp: frame_back split: if_splits prod.splits)
  note e = emits_plain_io(2) [OF this]
  have "owned_closes w1" "opens w1 = closes w1 + {#sock#} + m"
    using assms(2,3) owned_closes_emits [OF e] emits_keeps_fds [OF e] by simp_all
  then show ?thesis
    using assms(1) rc closeSocket_owned
    by (auto simp: connect_resolved_def Let_def split: if_splits)
qed

text \<open>
  The balance of one \<open>simpleConnect\<close>: it opens one descriptor or, on invalid arguments, none;
  what it opened is the new value of \<open>s\<close> on success and closed on failure, unless it is 0.
\<close>

lemma normal_simpleConnect_fds:
  assumes "normal_simpleConnect S c s server port w = (ok, c', s', w')"
  shows "emits plain_call w w' \<and>
    (if port \<le> 0 \<or> no_server server then \<not> ok \<and> s' = s \<and> w' = w
     else (\<exists>r fd. call S Sys_socket w = r \<and> fd = sr_ret (fst r)
             \<and> opens w' = opens w + {#fd#} \<and> s' = (if ok then fd else 0) \<and> (ok \<longrightarrow> fd \<noteq> 0)
             \<and> closes w' = closes w + (if ok \<or> fd = 0 then {#} else {#fd#})))"
proof (cases "port \<le> 0 \<or> no_server server")
  case True
  then show ?thesis
    using assms(1) by (cases "port \<le> 0") (auto simp: normal_simpleConnect_def conn_setError_def)
next
  case False
  obtain r1 w1 where 1: "call S Sys_socket w = (r1, w1)" by fastforce
  have plain: "emits plain_call w w1" using 1 by (rule emits_callD) simp
  define w2 where "w2 = (if has_so_nosigpipe (sys_build S)
    then snd (call S (Sys_set_nosigpipe (sr_ret r1)) w1) else w1)"
  obtain a w3 where 3: "call S (Sys_getaddrinfo (host_of server)) w2 = (a, w3)" by fastforce
  have "emits plain_io w1 w2" by (simp add: w2_def emits_call)
  then have e13: "emits plain_io w1 w3" using 3 by (simp add: frame_back)
  with emits_keeps_fds [OF emits_plain_io(2) [OF e13]] opens_call [OF 1]
  have e: "opens w3 = opens w + {#sr_ret r1#}" "closes w3 = closes w" by simp_all
  have p3: "emits plain_call w w3" using plain emits_plain_io(1) [OF e13] by (rule emits_trans)
  have eq: "normal_simpleConnect S c s server port w =
      (if sr_ret r1 = 0 then (False, conn_setError ''Could not create socket'' c, 0, w1)
       else if sr_ret a \<noteq> 0 \<or> sr_val a = 0
       then (False, conn_setError ''Could not resolve domain'' c, 0, closeSocket S (sr_ret r1) w3)
       else connect_resolved S c (sr_ret r1) (sr_bytes a) port w3)"
    using False by (auto simp: normal_simpleConnect_def Let_def 1 3 w2_def [symmetric])
  have "emits plain_call w w'"
    using assms(1) plain p3
    by (auto simp: eq frame_back split: if_splits intro: emits_trans connect_resolved_plain)
  then show ?thesis
    using assms(1) False e opens_call [OF 1]
    by (auto simp: eq 1 dest!: connect_resolved_fds split: if_splits)
qed

text \<open>And \<open>simpleConnect\<close> closes nothing but the descriptor it opened.\<close>

lemma normal_simpleConnect_owned:
  assumes "normal_simpleConnect S c s server port w = (ok, c', s', w')"
    and "owned_closes w" "opens w = closes w + m"
  shows "owned_closes w'"
proof (cases "port \<le> 0 \<or> no_server server")
  case True
  then show ?thesis
    using assms by (cases "port \<le> 0") (auto simp: normal_simpleConnect_def)
next
  case False
  obtain r1 w1 where 1: "call S Sys_socket w = (r1, w1)" by fastforce
  define w2 where "w2 = (if has_so_nosigpipe (sys_build S)
    then snd (call S (Sys_set_nosigpipe (sr_ret r1)) w1) else w1)"
  obtain a w3 where 3: "call S (Sys_getaddrinfo (host_of server)) w2 = (a, w3)" by fastforce
  have "emits plain_io w1 w2" by (simp add: w2_def emits_call)
  then have "emits plain_io w1 w3" using 3 by (simp add: frame_back)
  note e = emits_plain_io(2) [OF this]
  have w1: "owned_closes w1" using owned_closes_call [OF 1 assms(2)] by simp
  have w3: "owned_closes w3" "opens w3 = closes w3 + {#sr_ret r1#} + m"
    using w1 assms(3) owned_closes_emits [OF e] emits_keeps_fds [OF e] opens_call [OF 1] by simp_all
  have eq: "normal_simpleConnect S c s server port w =
      (if sr_ret r1 = 0 then (False, conn_setError ''Could not create socket'' c, 0, w1)
       else if sr_ret a \<noteq> 0 \<or> sr_val a = 0
       then (False, conn_setError ''Could not resolve domain'' c, 0, closeSocket S (sr_ret r1) w3)
       else connect_resolved S c (sr_ret r1) (sr_bytes a) port w3)"
    using False by (auto simp: normal_simpleConnect_def Let_def 1 3 w2_def [symmetric])
  show ?thesis
    using assms(1) w1 w3 closeSocket_owned [OF w3] connect_resolved_owned [OF _ w3]
    by (auto simp: eq split: if_splits)
qed

lemma setNonBlocking_ok:
  "setNonBlocking S s b w = (True, w') \<Longrightarrow>
   \<exists>f q. w_log w' = w_log w @ [(Sys_getfl s, f),
           (Sys_setfl s (if b then sr_ret f OR O_NONBLOCK else sr_ret f AND NOT O_NONBLOCK), q)]
         \<and> sr_ret f \<noteq> - 1 \<and> sr_ret q \<noteq> - 1"
  by (auto simp: setNonBlocking_def Let_def call_log split: prod.splits if_splits)

lemma await_connect_ok:
  "await_connect S s addr port msec w = (0, w') \<Longrightarrow>
   \<exists>cn mid. w_log w' = w_log w @ (Sys_connect s addr port, cn) # mid \<and>
     (sr_ret cn = 0 \<and> mid = [] \<or>
      (\<exists>sl so. mid = [(Sys_select s False True True (Some (msec sdiv 1000, 1000 * (msec smod 1000))), sl),
                      (Sys_so_error s, so)]
               \<and> 0 < sr_ret sl \<and> sr_ret so = 0 \<and> sr_val so = 0))"
  by (auto simp: await_connect_def setSocketError_def Let_def call_log split: prod.splits if_splits)

lemma normal_simpleConnect_key:
  "normal_simpleConnect S c s server port w = (ok, c', s', w') \<Longrightarrow> conn_key c' = conn_key c"
  by (auto simp: normal_simpleConnect_def connect_resolved_def Let_def split: if_splits prod.splits)

lemmas connect_normal_run [run] = socketError_def setSocketError_def setNonBlocking_def
  connectInProgress_def lastSocketError_def closeSocket_def htons_def await_connect_def
  connecttimeout_def timeout_ms_def connect_resolved_def normal_simpleConnect_def tunnel_simpleConnect_def

subsection \<open>The outcome of a timed connect\<close>

text \<open>
  A timed connect that succeeds made exactly these calls: the descriptor was put in non-blocking
  mode, the connect was issued once, if it did not finish at once the library waited for it with the
  caller's timeout and read a socket error of 0, and the blocking mode was restored.
\<close>

theorem connecttimeout_success:
  assumes "connecttimeout S s addr port msec w = (0, w')"
  shows "\<exists>f1 q1 cn mid f2 q2.
    w_log w' = w_log w @ [(Sys_getfl s, f1), (Sys_setfl s (sr_ret f1 OR O_NONBLOCK), q1),
                          (Sys_connect s addr port, cn)] @ mid
               @ [(Sys_getfl s, f2), (Sys_setfl s (sr_ret f2 AND NOT O_NONBLOCK), q2)]
    \<and> sr_ret q1 \<noteq> - 1 \<and> sr_ret q2 \<noteq> - 1
    \<and> (sr_ret cn = 0 \<and> mid = [] \<or>
       (\<exists>sl so. mid = [(Sys_select s False True True (Some (msec sdiv 1000, 1000 * (msec smod 1000))), sl),
                       (Sys_so_error s, so)]
                \<and> 0 < sr_ret sl \<and> sr_ret so = 0 \<and> sr_val so = 0))"
proof -
  obtain ok1 w1 where 1: "setNonBlocking S s True w = (ok1, w1)" by fastforce
  obtain v w2 where 2: "await_connect S s addr port msec w1 = (v, w2)" by fastforce
  obtain ok3 w3 where 3: "setNonBlocking S s False w2 = (ok3, w3)" by fastforce
  have ok: "ok1" "ok3" "v = 0" "w_log w' = w_log w3"
    using assms by (auto simp: connecttimeout_def 1 2 3 Let_def setSocketError_def split: if_splits)
  obtain f1 q1 where n1: "w_log w1 = w_log w @ [(Sys_getfl s, f1), (Sys_setfl s (sr_ret f1 OR O_NONBLOCK), q1)]"
      "sr_ret q1 \<noteq> - 1"
    using setNonBlocking_ok [of S s True w w1] 1 ok(1) by auto
  obtain f2 q2 where n3: "w_log w3 = w_log w2 @ [(Sys_getfl s, f2), (Sys_setfl s (sr_ret f2 AND NOT O_NONBLOCK), q2)]"
      "sr_ret q2 \<noteq> - 1"
    using setNonBlocking_ok [of S s False w2 w3] 3 ok(2) by auto
  obtain cn mid where n2: "w_log w2 = w_log w1 @ (Sys_connect s addr port, cn) # mid"
      "sr_ret cn = 0 \<and> mid = [] \<or>
       (\<exists>sl so. mid = [(Sys_select s False True True (Some (msec sdiv 1000, 1000 * (msec smod 1000))), sl),
                       (Sys_so_error s, so)]
                \<and> 0 < sr_ret sl \<and> sr_ret so = 0 \<and> sr_val so = 0)"
    using await_connect_ok [of S s addr port msec w1 w2] 2 ok(3) by auto
  have "w_log w' = w_log w @ [(Sys_getfl s, f1), (Sys_setfl s (sr_ret f1 OR O_NONBLOCK), q1),
                          (Sys_connect s addr port, cn)] @ mid
               @ [(Sys_getfl s, f2), (Sys_setfl s (sr_ret f2 AND NOT O_NONBLOCK), q2)]"
    using n1 n2 n3 ok by simp
  with n1(2) n2(2) n3(2) show ?thesis by blast
qed

text \<open>
  The reason of a failed timed connect reaches the caller: the calls that restore the descriptor's
  flags and close it may overwrite \<open>errno\<close>, but the message stored in the connector and the \<open>errno\<close>
  at return are those of the connect, and the descriptor is closed.
\<close>

theorem connect_error_survives:
  assumes "timeout_ms c \<noteq> 0"
    and "setNonBlocking S sock True w = (True, w1)"
    and "await_connect S sock addr (htons port) (timeout_ms c) w1 = (- 1, w2)"
    and "setNonBlocking S sock False w2 = (True, w3)"
  shows "\<exists>w'. connect_resolved S c sock addr port w
             = (False, conn_setError (sys_strerror S (w_errno w2)) c, 0, w')
           \<and> w_errno w' = w_errno w2 \<and> closes w' = closes w + {#sock#}"
proof -
  have "emits plain_io w w3" using assms by (auto simp: frame_back)
  from emits_keeps_fds [OF emits_plain_io(2) [OF this]] show ?thesis
    using assms by (simp add: connect_resolved_def connecttimeout_def setSocketError_def
        lastSocketError_def socketError_def Let_def)
qed

text \<open>Worked examples: a connect accepted after a wait, and one refused.\<close>

definition accepted :: "sysret list" where
  "accepted = [ans 2, ans 0, (ans (- 1))\<lparr>sr_errno := Some EINPROGRESS\<rparr>, (ans 1)\<lparr>sr_val := 2\<rparr>,
               ans 0, ans 2050, ans 0]"

definition refused :: "sysret list" where
  "refused = [ans 2, ans 0, (ans (- 1))\<lparr>sr_errno := Some EINPROGRESS\<rparr>, (ans 1)\<lparr>sr_val := 2\<rparr>,
              (ans 0)\<lparr>sr_val := 111\<rparr>, ans 2050, (ans 0)\<lparr>sr_errno := Some 4\<rparr>, (ans 0)\<lparr>sr_errno := Some 5\<rparr>]"

lemma connecttimeout_success_witness:
  "\<exists>w' f1 q1 cn mid f2 q2. connecttimeout script_sys 3 [1, 2] 80 1500 (start accepted) = (0, w')
    \<and> w_log w' = [(Sys_getfl 3, f1), (Sys_setfl 3 (sr_ret f1 OR O_NONBLOCK), q1),
                    (Sys_connect 3 [1, 2] 80, cn)] @ mid
               @ [(Sys_getfl 3, f2), (Sys_setfl 3 (sr_ret f2 AND NOT O_NONBLOCK), q2)]"
proof -
  obtain w' where w': "connecttimeout script_sys 3 [1, 2] 80 1500 (start accepted) = (0, w')"
    by (simp add: run accepted_def cong: bind_weak_cong)
  show ?thesis using connecttimeout_success [OF w'] w' by (simp add: fresh_start) blast
qed

lemma connect_error_survives_witness:
  "\<exists>w'. connect_resolved script_sys (conn_new\<lparr>conn_tsecs := 1\<rparr>) 3 [1, 2] 80 (start refused)
     = (False, conn_setError (''error '' @ dec_int 111) (conn_new\<lparr>conn_tsecs := 1\<rparr>), 0, w') \<and> w_errno w' = 111"
proof -
  let ?c = "conn_new\<lparr>conn_tsecs := 1\<rparr>"
  obtain w1 where 1: "setNonBlocking script_sys 3 True (start refused) = (True, w1)"
      "w_env w1 = drop 2 refused"
    by (simp add: run refused_def)
  obtain w2 where 2: "await_connect script_sys 3 [1, 2] (htons 80) (timeout_ms ?c) w1 = (- 1, w2)"
      "w_env w2 = drop 5 refused" "w_errno w2 = 111"
    using 1(2) by (simp add: run refused_def)
  obtain w3 where 3: "setNonBlocking script_sys 3 False w2 = (True, w3)"
    using 2(2) by (simp add: run refused_def)
  have "timeout_ms ?c \<noteq> 0" by (simp add: run)
  moreover have "sys_strerror script_sys n = ''error '' @ dec_int n" for n by (simp add: script_sys_def)
  ultimately show ?thesis using connect_error_survives [OF _ 1(1) 2(1) 3] 2(3) by auto
qed

subsection \<open>How long a connection may take\<close>

lemma timeout_ms_exact:
  assumes "0 \<le> conn_tsecs c" "conn_tsecs c \<le> 2147482" "0 \<le> conn_tmicro c" "conn_tmicro c < 1000000"
  shows "timeout_ms c = conn_tsecs c * 1000 + conn_tmicro c div 1000"
proof -
  have d: "conn_tmicro c sdiv 1000 = conn_tmicro c div 1000" "conn_tmicro c div 1000 < 1000" "0 \<le> conn_tmicro c div 1000"
    using assms by (auto simp: sdiv_smod_nonneg)
  have "int32 (conn_tsecs c * 1000) = conn_tsecs c * 1000" using assms by (intro int32_id) auto
  moreover have "int32 (conn_tsecs c * 1000 + conn_tmicro c div 1000) = conn_tsecs c * 1000 + conn_tmicro c div 1000"
    using assms d by (intro int32_id) auto
  ultimately show ?thesis by (simp add: timeout_ms_def d(1))
qed

text \<open>The seconds and microseconds that \<open>select\<close> is given, and what they add up to.\<close>

lemma timeval_bounds:
  assumes "0 \<le> conn_tsecs c" "conn_tsecs c \<le> 2147482" "0 \<le> conn_tmicro c" "conn_tmicro c < 1000000"
    and "s = timeout_ms c sdiv 1000" "u = 1000 * (timeout_ms c smod 1000)"
  shows "0 \<le> s \<and> 0 \<le> u \<and> u < 1000000
    \<and> conn_tsecs c * 1000000 + conn_tmicro c - 1000 < s * 1000000 + u
    \<and> s * 1000000 + u \<le> conn_tsecs c * 1000000 + conn_tmicro c"
proof -
  define m where "m = conn_tmicro c div 1000"
  have m: "0 \<le> m" "m < 1000" "1000 * m \<le> conn_tmicro c" "conn_tmicro c < 1000 * m + 1000"
    using assms by (auto simp: m_def)
  have "timeout_ms c = conn_tsecs c * 1000 + m" using timeout_ms_exact [OF assms(1-4)] by (simp add: m_def)
  then have "s = conn_tsecs c" "u = 1000 * m"
    using assms m(1,2) by (simp_all add: sdiv_smod_nonneg)
  then show ?thesis using assms(1) m by auto
qed

text \<open>The limits of the waits in a log, in their order.\<close>

fun limit_of :: "syscall \<times> sysret \<Rightarrow> (int \<times> int) option list" where
  "limit_of (Sys_select s rd wr ex tv, r) = [tv]"
| "limit_of _ = []"

definition wait_limits :: "'e world \<Rightarrow> (int \<times> int) option list" where
  "wait_limits w = concat (map limit_of (w_log w))"

lemma wait_limits_call: "call S k w = (r, w') \<Longrightarrow> wait_limits w' = wait_limits w @ limit_of (k, r)"
  by (simp add: wait_limits_def call_log)

lemma wait_limits_errno [simp]: "wait_limits (w\<lparr>w_errno := n\<rparr>) = wait_limits w"
  by (simp add: wait_limits_def)

lemma setNonBlocking_limits: "setNonBlocking S s b w = (ok, w') \<Longrightarrow> wait_limits w' = wait_limits w"
  by (auto simp: setNonBlocking_def Let_def wait_limits_call split: prod.splits if_splits)

lemma closeSocket_limits [simp]: "wait_limits (closeSocket S s w) = wait_limits w"
  using closeSocket_log [of S s w] by (auto simp: wait_limits_def)

lemma await_connect_limits:
  "await_connect S s a p msec w = (v, w') \<Longrightarrow> wait_limits w' = wait_limits w
    \<or> wait_limits w' = wait_limits w @ [Some (msec sdiv 1000, 1000 * (msec smod 1000))]"
  by (auto simp: await_connect_def setSocketError_def Let_def wait_limits_call split: prod.splits if_splits)

lemma connecttimeout_limits:
  assumes "connecttimeout S s a p msec w = (v, w')"
  shows "wait_limits w' = wait_limits w
    \<or> wait_limits w' = wait_limits w @ [Some (msec sdiv 1000, 1000 * (msec smod 1000))]"
proof -
  obtain ok1 w1 where 1: "setNonBlocking S s True w = (ok1, w1)" by fastforce
  obtain v2 w2 where 2: "await_connect S s a p msec w1 = (v2, w2)" by fastforce
  obtain ok3 w3 where 3: "setNonBlocking S s False w2 = (ok3, w3)" by fastforce
  show ?thesis
    using assms setNonBlocking_limits [OF 1] await_connect_limits [OF 2] setNonBlocking_limits [OF 3]
    by (auto simp: connecttimeout_def 1 2 3 Let_def setSocketError_def split: if_splits)
qed

lemma connect_resolved_limits:
  assumes "connect_resolved S c sock addr port w = (ok, c', s', w')"
  shows "wait_limits w' = wait_limits w \<or> wait_limits w' = wait_limits w
      @ [Some (timeout_ms c sdiv 1000, 1000 * (timeout_ms c smod 1000))]"
  using assms connecttimeout_limits [of S sock addr "htons port" "timeout_ms c" w]
  by (auto simp: connect_resolved_def Let_def wait_limits_call split: prod.splits if_splits)

lemma normal_simpleConnect_limits:
  assumes "normal_simpleConnect S c s server port w = (ok, c', s', w')"
  shows "wait_limits w' = wait_limits w \<or> wait_limits w' = wait_limits w
      @ [Some (timeout_ms c sdiv 1000, 1000 * (timeout_ms c smod 1000))]"
proof -
  obtain r1 w1 where 1: "call S Sys_socket w = (r1, w1)" by fastforce
  define w2 where "w2 = (if has_so_nosigpipe (sys_build S)
    then snd (call S (Sys_set_nosigpipe (sr_ret r1)) w1) else w1)"
  obtain a w3 where 3: "call S (Sys_getaddrinfo (host_of server)) w2 = (a, w3)" by fastforce
  have "wait_limits w2 = wait_limits w1"
    by (cases "call S (Sys_set_nosigpipe (sr_ret r1)) w1") (simp add: w2_def wait_limits_call)
  then have l: "wait_limits w1 = wait_limits w" "wait_limits w3 = wait_limits w"
    using wait_limits_call [OF 1] wait_limits_call [OF 3] by simp_all
  show ?thesis
    using assms l connect_resolved_limits [of S c "sr_ret r1" "sr_bytes a" port w3]
    by (auto simp: normal_simpleConnect_def 1 w2_def [symmetric] 3 Let_def split: if_splits)
qed

text \<open>
  C38. How long \<open>connect\<close> waits: for a timeout of at most 2147482 seconds, whatever the system answers, the
  connector that dials waits in \<open>select\<close> at most once, with a limit; its \<open>timeval\<close> is well formed, never
  more than the timeout asked for and less than a millisecond short of it.
\<close>

theorem connect_wait_bounds:
  assumes "normal_simpleConnect S c s server port w = (ok, c', s', w')"
    and "0 \<le> conn_tsecs c" "conn_tsecs c \<le> 2147482" "0 \<le> conn_tmicro c" "conn_tmicro c < 1000000"
  shows "wait_limits w' = wait_limits w
    \<or> (\<exists>secs us. wait_limits w' = wait_limits w @ [Some (secs, us)] \<and> 0 \<le> secs \<and> 0 \<le> us \<and> us < 1000000
        \<and> conn_tsecs c * 1000000 + conn_tmicro c - 1000 < secs * 1000000 + us
        \<and> secs * 1000000 + us \<le> conn_tsecs c * 1000000 + conn_tmicro c)"
  using normal_simpleConnect_limits [OF assms(1)] timeval_bounds [OF assms(2-5) refl refl] by blast

text \<open>
  A timeout below one millisecond is no timeout: \<open>connect\<close> is then called on the blocking
  socket, and its answer is the result.
\<close>

theorem submillisecond_timeout_blocks:
  assumes "conn_tsecs c = 0" "0 \<le> conn_tmicro c" "conn_tmicro c < 1000"
    and "connect_resolved S c sock addr port w = (ok, c', s', w')"
  shows "\<exists>r l. w_log w' = w_log w @ (Sys_connect sock addr (port mod 65536), r) # l
    \<and> ok = (sr_ret r = 0) \<and> (if ok then l = [] else \<exists>q. l = [(Sys_close sock, q)])"
proof -
  have "timeout_ms c = 0" using timeout_ms_exact [of c] assms(1-3) by simp
  then show ?thesis
    using assms(4)
    by (auto simp: connect_resolved_def htons_def closeSocket_def setSocketError_def Let_def call_log
        split: prod.splits if_splits)
qed

text \<open>Worked examples.\<close>

lemma connect_wait_bounds_witness:
  "\<exists>w' secs us. normal_simpleConnect script_sys (conn_new\<lparr>conn_tsecs := 3, conn_tmicro := 4567\<rparr>) 0 (Some ''h'') 80
        (start ([ans 3, (ans 0)\<lparr>sr_val := 1, sr_bytes := [1, 2]\<rparr>] @ accepted))
      = (True, conn_new\<lparr>conn_tsecs := 3, conn_tmicro := 4567\<rparr>, 3, w')
    \<and> wait_limits w' = [Some (secs, us)] \<and> 0 \<le> us \<and> us < 1000000
    \<and> 3004567 - 1000 < secs * 1000000 + us \<and> secs * 1000000 + us \<le> 3004567"
proof -
  let ?c = "conn_new\<lparr>conn_tsecs := 3, conn_tmicro := 4567\<rparr>"
  let ?w = "start ([ans 3, (ans 0)\<lparr>sr_val := 1, sr_bytes := [1, 2]\<rparr>] @ accepted)"
  obtain w' where 1: "normal_simpleConnect script_sys ?c 0 (Some ''h'') 80 ?w = (True, ?c, 3, w')" "wait_limits w' \<noteq> []"
    by (simp add: run accepted_def wait_limits_def cong: bind_weak_cong)
  have "wait_limits ?w = []" by (simp add: wait_limits_def start_def)
  then show ?thesis using connect_wait_bounds [OF 1(1)] 1 by auto
qed

lemma submillisecond_timeout_blocks_witness:
  "\<exists>c' w' r l. connect_resolved stream_sys (conn_new\<lparr>conn_tmicro := 999\<rparr>) 3 [1, 2] 80 (start []) = (True, c', 3, w')
    \<and> w_log w' = (Sys_connect 3 [1, 2] (80 mod 65536), r) # l \<and> True = (sr_ret r = 0)
    \<and> (if True then l = [] else \<exists>q. l = [(Sys_close 3, q)])"
proof -
  let ?c = "conn_new\<lparr>conn_tmicro := 999\<rparr>"
  obtain c' w' where c: "connect_resolved stream_sys ?c 3 [1, 2] 80 (start []) = (True, c', 3, w')"
    by (simp add: run)
  have t: "conn_tsecs ?c = 0" "0 \<le> conn_tmicro ?c" "conn_tmicro ?c < 1000"
    by (simp_all add: conn_new_def conn.defs)
  show ?thesis
    using submillisecond_timeout_blocks [OF t c] c unfolding fresh_start append_Nil by blast
qed

end
