(* ===== verification/Byte_Source.thy ===== *)
theory Byte_Source
  imports Machine "HOL-Library.Sublist"
begin

text \<open>
  The reading loops of the library (the end of an HTTP response's headers, \<open>reads\<close>,
  \<open>readline\<close>) all pull single bytes from a reader. \<open>byte_source\<close> is the contract of a reader
  over a stream whose remaining bytes are \<open>rx\<close>; the loops are verified once against it, and each
  reader of the code is an interpretation. The \<open>scan_\<close> functions say what a loop does to the list
  of bytes; the lemmas after them say what that means for a stream with lines in it.
\<close>

abbreviation "CR \<equiv> (0x0D :: byte)"
abbreviation "LF \<equiv> (0x0A :: byte)"

locale byte_source =
  fixes rd :: "'s \<Rightarrow> (int \<times> byte \<times> 's) option"
    and ok :: "'s \<Rightarrow> bool"
    and rx :: "'s \<Rightarrow> byte list"
  assumes rd_byte: "ok s \<Longrightarrow> rx s = b # bs \<Longrightarrow> \<exists>s'. rd s = Some (1, b, s') \<and> ok s' \<and> rx s' = bs"
    and rd_eof: "ok s \<Longrightarrow> rx s = [] \<Longrightarrow> \<exists>c s'. rd s = Some (0, c, s') \<and> ok s' \<and> rx s' = []"

subsection \<open>Lines\<close>

text \<open>Up to and including CR LF or NUL: what is kept, the rest, and whether an end was found.\<close>

fun scan_line :: "byte list \<Rightarrow> byte \<Rightarrow> byte list \<Rightarrow> byte list \<times> byte list \<times> bool" where
  "scan_line buf lastc [] = (buf, [], False)"
| "scan_line buf lastc (c # cs) =
     (let buf = (if c \<noteq> LF \<and> c \<noteq> CR then buf @ [c] else buf)
      in if c = 0 \<or> c = LF \<and> lastc = CR then (buf, cs, True) else scan_line buf c cs)"

definition line_text :: "byte list \<Rightarrow> byte list" where
  "line_text bs = filter (\<lambda>c. c \<noteq> LF \<and> c \<noteq> CR) bs"

lemma line_text_no_nul: "0 \<notin> set bs \<Longrightarrow> 0 \<notin> set (line_text bs)"
  by (simp add: line_text_def)

lemma line_text_id: "CR \<notin> set bs \<Longrightarrow> LF \<notin> set bs \<Longrightarrow> line_text bs = bs"
  unfolding line_text_def by (induction bs) auto

lemma no_crlf_tl: "\<not> sublist [CR, LF] (b # bs) \<Longrightarrow> \<not> sublist [CR, LF] bs"
  by (auto simp: sublist_def Cons_eq_append_conv)

lemma no_crlf_hd: "\<not> sublist [CR, LF] (b # c # bs) \<Longrightarrow> \<not> (b = CR \<and> c = LF)"
  by (auto simp: sublist_def)

lemma scan_line_crlf:
  "0 \<notin> set pre \<Longrightarrow> \<not> sublist [CR, LF] (lastc # pre @ [CR]) \<Longrightarrow>
   scan_line buf lastc (pre @ CR # LF # rest) = (buf @ line_text pre, rest, True)"
proof (induction pre arbitrary: buf lastc)
  case Nil
  then show ?case by (simp add: line_text_def Let_def)
next
  case (Cons c pre)
  have "\<not> (lastc = CR \<and> c = LF)" using no_crlf_hd Cons.prems(2) by (metis append_Cons)
  moreover have "\<not> sublist [CR, LF] (c # pre @ [CR])" using no_crlf_tl Cons.prems(2) by (metis append_Cons)
  ultimately show ?case using Cons.prems(1) by (auto simp: Cons.IH line_text_def Let_def)
qed

lemma scan_line_nul:
  "0 \<notin> set pre \<Longrightarrow> \<not> sublist [CR, LF] (lastc # pre) \<Longrightarrow>
   scan_line buf lastc (pre @ 0 # rest) = (buf @ line_text pre @ [0], rest, True)"
proof (induction pre arbitrary: buf lastc)
  case Nil
  then show ?case by (simp add: line_text_def Let_def)
next
  case (Cons c pre)
  have "\<not> (lastc = CR \<and> c = LF)" using no_crlf_hd Cons.prems(2) by blast
  moreover have "\<not> sublist [CR, LF] (c # pre)" using no_crlf_tl Cons.prems(2) by blast
  ultimately show ?case using Cons.prems(1) by (auto simp: Cons.IH line_text_def Let_def)
qed

lemma scan_line_eof:
  "0 \<notin> set pre \<Longrightarrow> \<not> sublist [CR, LF] (lastc # pre) \<Longrightarrow>
   scan_line buf lastc pre = (buf @ line_text pre, [], False)"
proof (induction pre arbitrary: buf lastc)
  case Nil
  then show ?case by (simp add: line_text_def)
next
  case (Cons c pre)
  have "\<not> (lastc = CR \<and> c = LF)" using no_crlf_hd Cons.prems(2) by blast
  moreover have "\<not> sublist [CR, LF] (c # pre)" using no_crlf_tl Cons.prems(2) by blast
  ultimately show ?case using Cons.prems(1) by (auto simp: Cons.IH line_text_def Let_def)
qed

lemma no_crlf_zero: "\<not> sublist [CR, LF] bs \<Longrightarrow> \<not> sublist [CR, LF] (0 # bs)"
  by (auto simp: sublist_def Cons_eq_append_conv)

lemma no_crlf_text:
  assumes "CR \<notin> set bs"
  shows "\<not> sublist [CR, LF] (bs @ [CR])"
  using assms
proof (induction bs)
  case (Cons b bs)
  then show ?case by (auto simp: sublist_Cons_right)
qed (simp add: sublist_Cons_right)

subsection \<open>The end of the headers\<close>

fun scan_headers :: "byte \<Rightarrow> byte \<Rightarrow> byte list \<Rightarrow> byte list \<times> bool" where
  "scan_headers l sl [] = ([], False)"
| "scan_headers l sl (c # cs) = (if c = LF \<and> sl = c then (cs, True) else scan_headers c l cs)"

definition back1 :: "byte list \<Rightarrow> byte" where
  "back1 p = (case rev p of [] \<Rightarrow> 0 | x # _ \<Rightarrow> x)"

definition back2 :: "byte list \<Rightarrow> byte" where
  "back2 p = (case rev p of x # y # _ \<Rightarrow> y | _ \<Rightarrow> 0)"

lemma back_snoc: "back1 (p @ [c]) = c" "back2 (p @ [c]) = back1 p"
  by (simp_all add: back1_def back2_def split: list.split)

lemma back2_LF:
  assumes "back2 p = LF"
  shows "\<exists>q y. p = q @ [LF, y]"
proof (cases p rule: rev_exhaust)
  case Nil
  then show ?thesis using assms by (simp add: back2_def)
next
  case (snoc q y)
  with assms have "back1 q = LF" by (simp add: back_snoc)
  then show ?thesis using snoc by (cases q rule: rev_exhaust) (auto simp: back1_def)
qed

text \<open>A stream in which a line feed always follows a carriage return.\<close>

definition crlf_lines :: "byte list \<Rightarrow> bool" where
  "crlf_lines bs \<longleftrightarrow> (\<forall>p q. bs = p @ LF # q \<longrightarrow> (\<exists>p'. p = p' @ [CR]))"

lemma crlf_linesD: "crlf_lines (p @ LF # q) \<Longrightarrow> \<exists>p'. p = p' @ [CR]"
  by (simp add: crlf_lines_def)

lemma second_LF:
  assumes "crlf_lines (p @ LF # q)" "back2 p = LF"
  shows "\<exists>p0. p = p0 @ [CR, LF, CR]"
proof -
  obtain r y where p: "p = r @ [LF, y]" using back2_LF [OF assms(2)] by blast
  then have "y = CR" using crlf_linesD [OF assms(1)] by auto
  moreover have "crlf_lines (r @ LF # [y] @ LF # q)" using assms(1) p by simp
  then obtain r' where "r = r' @ [CR]" using crlf_linesD by blast
  ultimately show ?thesis using p by simp
qed

lemma scan_headers_prefix:
  "crlf_lines (p @ xs @ [LF]) \<Longrightarrow> \<not> sublist [CR, LF, CR, LF] (p @ xs) \<Longrightarrow> suffix [CR, LF, CR] (p @ xs) \<Longrightarrow>
   scan_headers (back1 p) (back2 p) (xs @ LF # rest) = (rest, True)"
proof (induction xs arbitrary: p)
  case Nil
  then obtain q where "p = q @ [CR, LF, CR]" by (auto simp: suffix_def)
  then have "back2 p = LF" using back_snoc [of "q @ [CR, LF]" CR] back_snoc [of "q @ [CR]" LF] by simp
  then show ?case by simp
next
  case (Cons c xs)
  have "\<not> (c = LF \<and> back2 p = LF)"
  proof
    assume c: "c = LF \<and> back2 p = LF"
    then obtain p0 where "p = p0 @ [CR, LF, CR]"
      using second_LF [of p "xs @ [LF]"] Cons.prems(1) by auto
    then have "p @ c # xs = p0 @ [CR, LF, CR, LF] @ xs" using c by simp
    then show False using Cons.prems(2) unfolding sublist_def by blast
  qed
  moreover have "scan_headers (back1 (p @ [c])) (back2 (p @ [c])) (xs @ LF # rest) = (rest, True)"
    using Cons.prems by (intro Cons.IH) simp_all
  ultimately show ?case by (simp add: back_snoc)
qed

lemma scan_headers_blank_line:
  assumes "crlf_lines (h @ [CR, LF, CR, LF])" "\<not> sublist [CR, LF, CR, LF] (h @ [CR, LF, CR])"
  shows "scan_headers 0 0 (h @ CR # LF # CR # LF # rest) = (rest, True)"
  using scan_headers_prefix [of "[]" "h @ [CR, LF, CR]" rest] assms
  by (simp add: back1_def back2_def suffix_def)

text \<open>The loop accepts any byte between the two line feeds.\<close>

lemma scan_headers_loose: "scan_headers 0 0 (LF # x # LF # rest) = (rest, True)"
  by simp

lemma scan_headers_no_LF: "LF \<notin> set bs \<Longrightarrow> scan_headers l sl bs = ([], False)"
  by (induction bs arbitrary: l sl) auto

subsection \<open>Everything\<close>

text \<open>Up to and including the first NUL.\<close>

fun scan_all :: "byte list \<Rightarrow> byte list \<Rightarrow> byte list \<times> byte list \<times> bool" where
  "scan_all buf [] = (buf, [], False)"
| "scan_all buf (c # cs) = (if c = 0 then (buf @ [c], cs, True) else scan_all (buf @ [c]) cs)"

lemma scan_all_eof: "0 \<notin> set bs \<Longrightarrow> scan_all buf bs = (buf @ bs, [], False)"
  by (induction bs arbitrary: buf) auto

lemma scan_all_nul: "0 \<notin> set pre \<Longrightarrow> scan_all buf (pre @ 0 # rest) = (buf @ pre @ [0], rest, True)"
  by (induction pre arbitrary: buf) auto

lemma c_str_nul: "0 \<notin> set bs \<Longrightarrow> c_str (bs @ [0]) = bs"
  by (auto simp: c_str_def takeWhile_append)

end
