(* ===== verification/Connect_Proxy.thy ===== *)
theory Connect_Proxy
  imports Connect Byte_Source
begin

text \<open>
  \<open>Socket_Connect_Proxy\<close> (src/src/socket_connect_proxy.h, socket_connect_proxy.cpp): HTTP
  CONNECT. The loop that looks for the end of the response headers is defined over any reader
  of single bytes, so that what it does with a stream is proved once.
\<close>

text \<open>The CONNECT request; the \<open>len + 200\<close> bytes of the buffer always hold it.\<close>

definition connect_request :: "string \<Rightarrow> int \<Rightarrow> string" where
  "connect_request server port =
     snprintf (length server + 200)
       (''CONNECT '' @ server @ CHR '':'' # dec_int port @ '' HTTP/1.1'' @ [CHR 0x0A, CHR 0x0A])"

text \<open>
  One turn of the header loop: \<open>Inl True\<close> is the \<open>return true\<close>, \<open>Inl False\<close> the \<open>break\<close>; the
  state is (\<open>lastchar\<close>, \<open>seclastchar\<close>) and the reader's.
\<close>

definition header_turn ::
  "('s \<Rightarrow> (int \<times> byte \<times> 's) option) \<Rightarrow> byte \<times> byte \<times> 's \<Rightarrow>
   ((bool \<times> 's) + (byte \<times> byte \<times> 's)) option" where
  "header_turn rd = (\<lambda>(lastchar, seclastchar, s). do {
     (rc, c, s) \<leftarrow> rd s;
     Some (if rc > 0
           then if c = 0x0A \<and> seclastchar = c then Inl (True, s) else Inr (c, lastchar, s)
           else Inl (False, s))
   })"

definition normal_read_one ::
  "'e sys \<Rightarrow> 'a comm_scheme \<times> 'e world \<Rightarrow> (int \<times> byte \<times> 'a comm_scheme \<times> 'e world) option" where
  "normal_read_one S = (\<lambda>(c, w). do {
     (rc, bs, c, w) \<leftarrow> normal_read S c 1 w;
     Some (rc, first_byte bs, c, w)
   })"

text \<open>What the first 12 bytes of the response say: \<open>None\<close> for a status 2xx, else the error message.\<close>

definition proxy_status :: "int \<Rightarrow> byte list \<Rightarrow> string option" where
  "proxy_status rc buf =
     (if rc < 12 then Some ''HTTP Proxy Connection failed - did not send back enough info''
      else if buf ! 9 \<noteq> 0x32
      then let returncode = (case scan_int (c_str (drop 9 (take (nat rc) buf))) of
                               None \<Rightarrow> 0 | Some n \<Rightarrow> n)
           in Some (snprintf 100 (''HTTP Proxy connection failed ('' @ dec_int returncode @ '')''))
      else None)"

definition proxy_simpleConnect ::
  "'e sys \<Rightarrow> proxy_conn \<Rightarrow> int \<Rightarrow> string option \<Rightarrow> int \<Rightarrow> 'e world \<Rightarrow>
   (bool \<times> proxy_conn \<times> int \<times> 'e world) option" where
  "proxy_simpleConnect S p s server port w = do {
     (bound, c, w) \<leftarrow> normal_bind S s (px_comm p) w;
     let c = comm_setTimeout (conn_tsecs p) (conn_tmicro p) c;
     let p = p\<lparr>px_comm := c\<rparr>;
     if port \<le> 0 then Some (False, conn_setError ''Port not set for HTTP Proxy connection'' p, s, w)
     else if no_server server
     then Some (False, conn_setError ''Server Not Set for HTTP Proxy connection'' p, s, w)
     else if s = 0
     then Some (False, conn_setError
                  ''Socket is not connected yet! Can't initiate HTTP Proxy connection'' p, s, w)
     else do {
       let buf = bytes_of (connect_request (host_of server) port);
       (rc, c, w) \<leftarrow> normal_send S c (c_slice buf) w;
       let p = p\<lparr>px_comm := c\<rparr>;
       if rc \<le> 0
       then Some (False, conn_setError
                    ''Socket_Connect_Proxy::simpleConnect() failed. Could not send()'' p, s, w)
       else do {
         (rc, bs, c, w) \<leftarrow> normal_read S c 12 w;
         let buf = bs @ drop (length bs) buf;
         let p = p\<lparr>px_comm := c\<rparr>;
         if rc \<le> 0 then Some (False, conn_setError (comm_error c) p, s, w)
         else case proxy_status rc buf of
           Some e \<Rightarrow> Some (False, conn_setError e p, s, w)
         | None \<Rightarrow> do {
             (ok, c, w) \<leftarrow> forever (header_turn (normal_read_one S)) (0, 0, c, w);
             let p = p\<lparr>px_comm := c\<rparr>;
             if ok then Some (True, p, s, w)
             else Some (False, conn_setError
               ''Proxy Connection was good, but could not read entire set of headers...'' p, s, w)
           }
       }
     }
   }"

subsection \<open>Frames\<close>

lemma hop_frame_px_comm [simp]: "hop_frame p0 w0 (p\<lparr>px_comm := x\<rparr>) w = hop_frame p0 w0 p w"
  by (simp add: hop_frame_def same_conn_def)

lemma header_loop_emits [frame_back]:
  assumes "forever (header_turn (normal_read_one S)) (l, sl, c, w) = Some (ok, c', w')"
    and "emits plain_io w0 w"
  shows "emits plain_io w0 w'"
proof -
  have "post (forever (header_turn (normal_read_one S)) (l, sl, c, w)) (\<lambda>(ok, c', w'). emits plain_io w0 w')"
    by (rule forever_post [where I = "\<lambda>(l, sl, c, w). emits plain_io w0 w"])
      (auto simp: header_turn_def normal_read_one_def frame_back assms(2) post_def split: bind_splits)
  then show ?thesis using assms(1) by (auto dest: postD)
qed

lemma header_loop_hop [frame_back]:
  "forever (header_turn (normal_read_one S)) (l, sl, c, w) = Some (ok, c', w') \<Longrightarrow>
   hop_frame p0 w0 p w \<Longrightarrow> hop_frame p0 w0 p w'"
  by (auto simp: hop_frame_def frame_back)

lemma proxy_simpleConnect_frame:
  "post (proxy_simpleConnect S p s server port w) (\<lambda>(ok, p', s', w'). hop_frame p w p' w' \<and> s' = s)"
  unfolding proxy_simpleConnect_def Let_def
  by (intro vc) (auto simp: frame_back)

lemmas connect_proxy_run [run] = connect_request_def header_turn_def normal_read_one_def
  proxy_status_def proxy_simpleConnect_def

subsection \<open>The header loop over a byte source\<close>

context byte_source
begin

lemma header_loop:
  "ok s \<Longrightarrow> \<exists>s'. forever (header_turn rd) (l, sl, s) = Some (snd (scan_headers l sl (rx s)), s')
     \<and> ok s' \<and> rx s' = fst (scan_headers l sl (rx s))"
proof (induction "rx s" arbitrary: s l sl)
  case Nil
  from rd_eof [OF Nil.prems Nil.hyps [symmetric]] obtain c s' where
    "rd s = Some (0, c, s')" "ok s'" "rx s' = []" by blast
  then show ?case by (simp add: forever_unfold(1) header_turn_def Nil.hyps [symmetric])
next
  case (Cons b bs)
  from rd_byte [OF Cons.prems Cons.hyps(2) [symmetric]] obtain s' where
    s': "rd s = Some (1, b, s')" "ok s'" "rx s' = bs" by blast
  show ?case
  proof (cases "b = LF \<and> sl = b")
    case True
    with s' show ?thesis by (simp add: forever_unfold(1) header_turn_def Cons.hyps(2) [symmetric])
  next
    case False
    have "header_turn rd (l, sl, s) = Some (Inr (b, l, s'))" using s' False by (auto simp: header_turn_def)
    then have "forever (header_turn rd) (l, sl, s) = forever (header_turn rd) (b, l, s')"
      by (rule forever_unfold(2))
    with Cons.hyps(1) [OF s'(3) [symmetric] s'(2), of b l] False s'(3)
    show ?thesis by (auto simp: Cons.hyps(2) [symmetric])
  qed
qed

end

text \<open>The reader of the loop is a byte source when the peer is prompt.\<close>

interpretation normal_stream: byte_source "normal_read_one S" "\<lambda>(c, w). linked S rx fd c"
  "\<lambda>(c, w). rx (w_env w)" for S rx fd
proof (unfold_locales, goal_cases)
  case (1 s b bs)
  then show ?case
    using normal_read_prompt [of S rx fd "fst s" 1 "snd s"]
    by (auto simp: normal_read_one_def first_byte_def split: prod.splits)
next
  case (2 s)
  then show ?case
    using normal_read_prompt [of S rx fd "fst s" 1 "snd s"]
    by (auto simp: normal_read_one_def first_byte_def split: prod.splits)
qed

subsection \<open>The exchange with a prompt proxy\<close>


definition connect_text :: "string \<Rightarrow> int \<Rightarrow> string" where
  "connect_text server port = ''CONNECT '' @ server @ '':'' @ dec_int port @ '' HTTP/1.1'' @ [CHR 0x0A, CHR 0x0A]"

lemma connect_request_fits:
  assumes "0 < port" "port < 2 ^ 31"
  shows "connect_request server port = connect_text server port"
    "length (connect_text server port) \<le> length server + 31"
proof -
  have "length (dec_int port) \<le> 11" using assms by (intro length_dec_int) simp_all
  then show l: "length (connect_text server port) \<le> length server + 31"
    by (simp add: connect_text_def)
  then show "connect_request server port = connect_text server port"
    using snprintf_id [of "connect_text server port" "length server + 200"]
    by (simp add: connect_request_def connect_text_def)
qed

definition host_ok :: "string option \<Rightarrow> bool" where
  "host_ok server \<longleftrightarrow> \<not> no_server server \<and> length (host_of server) < 2 ^ 31 - 31"

text \<open>The exchange up to the status line, with a prompt proxy.\<close>

definition proxy_ready :: "'e sys \<Rightarrow> ('e \<Rightarrow> byte list) \<Rightarrow> int \<Rightarrow> proxy_conn \<Rightarrow> string option \<Rightarrow> int \<Rightarrow> bool" where
  "proxy_ready S rx s p server port \<longleftrightarrow> prompt_peer S s rx \<and> s \<noteq> 0 \<and> comm_sock (px_comm p) = 0
     \<and> host_ok server \<and> 0 < port \<and> port < 2 ^ 31"

lemma proxy_exchange:
  assumes r: "proxy_ready S rx s p server port"
    and rx: "rx (w_env w) = status @ rest" and st: "length status = 12"
  shows "\<exists>c w'. linked S rx s c \<and> rx (w_env w') = rest
    \<and> wire s w' = wire s w @ bytes_of (connect_text (host_of server) port)
    \<and> proxy_simpleConnect S p s server port w =
        (case proxy_status 12 (status @ drop 12 (bytes_of (connect_text (host_of server) port))) of
           Some e \<Rightarrow> Some (False, conn_setError e (p\<lparr>px_comm := c\<rparr>), s, w')
         | None \<Rightarrow> Option.bind (forever (header_turn (normal_read_one S)) (0, 0, c, w'))
             (\<lambda>(ok, c, w). if ok then Some (True, p\<lparr>px_comm := c\<rparr>, s, w)
               else Some (False, conn_setError
                 ''Proxy Connection was good, but could not read entire set of headers...''
                 (p\<lparr>px_comm := c\<rparr>), s, w)))"
proof -
  let ?c = "comm_setTimeout (conn_tsecs p) (conn_tmicro p) ((px_comm p)\<lparr>comm_sock := s\<rparr>)"
  let ?req = "bytes_of (connect_text (host_of server) port)"
  have pr: "prompt_peer S s rx" "s \<noteq> 0" "comm_sock (px_comm p) = 0" "\<not> no_server server" "0 < port"
    "port < 2 ^ 31" "length (host_of server) < 2 ^ 31 - 31"
    using r by (auto simp: proxy_ready_def host_ok_def)
  have l: "linked S rx s ?c" using pr by (intro linked_new)
  note req = connect_request_fits [OF pr(5,6), of "host_of server"]
  have ne: "?req \<noteq> []" "c_slice ?req = ?req"
    using req(2) pr(7) by (simp_all add: connect_text_def c_slice_id)
  obtain w1 where 1: "normal_send S ?c ?req w = Some (int (length ?req), ?c, w1)"
    "rx (w_env w1) = rx (w_env w)" "wire s w1 = wire s w @ ?req"
    using normal_send_prompt [OF l ne(1), of w] by blast
  obtain w2 where 2: "normal_read S ?c 12 w1 = Some (12, status, ?c, w2)" "rx (w_env w2) = rest"
    "wire s w2 = wire s w1"
    using normal_read_exact [OF l, of w1 status rest 12] 1(2) rx st by auto
  have "proxy_simpleConnect S p s server port w =
        (case proxy_status 12 (status @ drop 12 ?req) of
           Some e \<Rightarrow> Some (False, conn_setError e (p\<lparr>px_comm := ?c\<rparr>), s, w2)
         | None \<Rightarrow> Option.bind (forever (header_turn (normal_read_one S)) (0, 0, ?c, w2))
             (\<lambda>(ok, c, w). if ok then Some (True, p\<lparr>px_comm := c\<rparr>, s, w)
               else Some (False, conn_setError
                 ''Proxy Connection was good, but could not read entire set of headers...''
                 (p\<lparr>px_comm := c\<rparr>), s, w)))"
    using pr 1 2 ne st
    by (simp add: proxy_simpleConnect_def normal_bind_fresh req Let_def split: option.split)
  then show ?thesis using l 1 2 by (intro exI [of _ ?c] exI [of _ w2]) auto
qed

lemma header_loop_no_send [frame_back]:
  assumes "forever (header_turn (normal_read_one S)) (l, sl, c, w) = Some (ok, c', w')"
    and "emits no_send w0 w"
  shows "emits no_send w0 w'"
proof -
  have "post (forever (header_turn (normal_read_one S)) (l, sl, c, w)) (\<lambda>(ok, c', w'). emits no_send w0 w')"
    by (rule forever_post [where I = "\<lambda>(l, sl, c, w). emits no_send w0 w"])
      (auto simp: header_turn_def normal_read_one_def frame_back assms(2) post_def split: bind_splits)
  then show ?thesis using assms(1) by (auto dest: postD)
qed

lemma proxy_two_hundred:
  assumes r: "proxy_ready S rx s p server port" and st: "length status = 12" "status ! 9 = 0x32"
    and rx: "rx (w_env w) = status @ hs" and scan: "scan_headers 0 0 hs = (rest, ok)"
  shows "\<exists>p' w'. proxy_simpleConnect S p s server port w = Some (ok, p', s, w') \<and> rx (w_env w') = rest
    \<and> wire s w' = wire s w @ bytes_of (connect_text (host_of server) port)"
proof -
  obtain c w1 where l: "linked S rx s c" and w1: "rx (w_env w1) = hs"
    "wire s w1 = wire s w @ bytes_of (connect_text (host_of server) port)"
    and eq: "proxy_simpleConnect S p s server port w =
        (case proxy_status 12 (status @ drop 12 (bytes_of (connect_text (host_of server) port))) of
           Some e \<Rightarrow> Some (False, conn_setError e (p\<lparr>px_comm := c\<rparr>), s, w1)
         | None \<Rightarrow> Option.bind (forever (header_turn (normal_read_one S)) (0, 0, c, w1))
             (\<lambda>(ok, c, w). if ok then Some (True, p\<lparr>px_comm := c\<rparr>, s, w)
               else Some (False, conn_setError
                 ''Proxy Connection was good, but could not read entire set of headers...''
                 (p\<lparr>px_comm := c\<rparr>), s, w)))"
    using proxy_exchange [OF r rx st(1)] by auto
  have status: "proxy_status 12 (status @ drop 12 (bytes_of (connect_text (host_of server) port))) = None"
    using st by (simp add: proxy_status_def nth_append)
  from normal_stream.header_loop [of S rx s "(c, w1)" 0 0] l w1 scan
  obtain c' w' where "forever (header_turn (normal_read_one S)) (0, 0, c, w1) = Some (ok, c', w')"
    "rx (w_env w') = rest" by auto
  then show ?thesis
    using eq status w1(2) wire_emits [OF header_loop_no_send [OF _ emits_refl]] by fastforce
qed

text \<open>
  HTTP CONNECT succeeds on a well-formed 2xx response: against a prompt proxy whose answer is a
  12-byte status with a 2 at offset 9, header lines ended by CR LF and a blank line, the connector
  sends exactly the CONNECT request, returns true, and leaves the stream exactly after the blank line.
\<close>

theorem proxy_connect_success:
  assumes r: "proxy_ready S rx s p server port" and st: "length status = 12" "status ! 9 = 0x32"
    and rx: "rx (w_env w) = status @ h @ CR # LF # CR # LF # rest"
    and h: "crlf_lines (h @ [CR, LF, CR, LF])" "\<not> sublist [CR, LF, CR, LF] (h @ [CR, LF, CR])"
  shows "\<exists>p' w'. proxy_simpleConnect S p s server port w = Some (True, p', s, w') \<and> rx (w_env w') = rest
    \<and> wire s w' = wire s w @ bytes_of (connect_text (host_of server) port)"
  using proxy_two_hundred [OF r st rx scan_headers_blank_line [OF h]] by simp

text \<open>
  HTTP CONNECT reports a refusal: against a prompt proxy that answers \<open>HTTP/1.1 <code>\<close> with a
  three-digit code that is not 2xx, the connector returns false with the code in its message.
\<close>

theorem proxy_connect_refused:
  assumes r: "proxy_ready S rx s p server port" and code: "100 \<le> code" "code < 1000" "code div 100 \<noteq> 2"
    and rx: "rx (w_env w) = bytes_of (''HTTP/1.1 '' @ dec_nat code) @ rest"
  shows "\<exists>p' w'. proxy_simpleConnect S p s server port w = Some (False, p', s, w')
    \<and> conn_error p' = ''HTTP Proxy connection failed ('' @ dec_nat code @ '')''"
proof -
  define d where "d = dec_nat code"
  have "\<not> code < 10" "\<not> code div 10 < 10" "code div 10 div 10 < 10" using code by auto
  then have d3: "d = [char_of (48 + code div 100), char_of (48 + code div 10 mod 10), char_of (48 + code mod 10)]"
    by (simp add: d_def dec_nat.simps [of code] dec_nat.simps [of "code div 10"]
        dec_nat.simps [of "code div 100"] div_mult2_eq [symmetric])
  have c10: "code div 100 < 10" using code by simp
  have hd: "bytes_of d ! 0 = word_of_nat (48 + code div 100)"
    using of_char_digit [OF c10] by (simp add: d3 bytes_of_def)
  have "unat (bytes_of d ! 0) \<noteq> 50" using unat_digit [OF c10] code(3) by (simp add: hd)
  then have two: "bytes_of d ! 0 \<noteq> 0x32" by auto
  have sc: "scan_int (bytes_of d) = Some (int code)"
    using scan_int_dec_int [of "[]" "int code"] code by (simp add: dec_int_def d_def)
  have nz: "0 \<notin> set (bytes_of d)"
    using dec_nat_digits [of code] by (auto simp: d_def is_digit_def)
  let ?st = "bytes_of (''HTTP/1.1 '' @ d)"
  have len: "length ?st = 12" by (simp add: d3)
  have msg: "proxy_status 12 (?st @ tail) = Some (''HTTP Proxy connection failed ('' @ d @ '')'')" for tail
  proof -
    have "(?st @ tail) ! 9 = bytes_of d ! 0" by (simp add: nth_append d3 bytes_of_def)
    moreover have "drop 9 (take 12 (?st @ tail)) = bytes_of d" by (simp add: d3 drop_Cons' take_Cons' bytes_of_def)
    moreover have "c_str (bytes_of d) = bytes_of d" by (rule c_str_id [OF nz])
    moreover have "dec_int (int code) = d" by (simp add: dec_int_def d_def)
    ultimately show ?thesis using two sc by (simp add: proxy_status_def snprintf_def d3)
  qed
  from proxy_exchange [OF r _ len, of w rest] rx
  obtain c w' where "proxy_simpleConnect S p s server port w = Some (False,
      conn_setError (''HTTP Proxy connection failed ('' @ d @ '')'') (p\<lparr>px_comm := c\<rparr>), s, w')"
    unfolding msg d_def [symmetric] by (auto simp only: option.case)
  then show ?thesis by (simp add: d_def)
qed

text \<open>
  The header loop is looser than CR LF CR LF: any byte between two line feeds ends the headers, so
  bytes of the destination can be taken for the end of the response.
\<close>

theorem proxy_header_end_is_loose:
  assumes r: "proxy_ready S rx s p server port" and st: "length status = 12" "status ! 9 = 0x32"
    and rx: "rx (w_env w) = status @ LF # x # LF # rest"
  shows "\<exists>p' w'. proxy_simpleConnect S p s server port w = Some (True, p', s, w') \<and> rx (w_env w') = rest"
  using proxy_two_hundred [OF r st rx scan_headers_loose] by blast

definition demo_proxy :: proxy_conn where
  "demo_proxy = proxy_new"

lemma demo_proxy_ready: "proxy_ready stream_sys (\<lambda>bs. bs) 3 demo_proxy (Some ''h'') 80"
  by (simp add: proxy_ready_def prompt_stream host_ok_def no_server_def host_of_def demo_proxy_def
      proxy_new_def conn.defs proxy_conn.defs comm_new_def)

lemma proxy_connect_success_witness:
  "\<exists>p' w'. proxy_simpleConnect stream_sys demo_proxy 3 (Some ''h'') 80
        (start (bytes_of ''HTTP/1.0 200'' @ [32, 79, 75] @ CR # LF # CR # LF # [7])) = Some (True, p', 3, w')
     \<and> w_env w' = [7] \<and> wire 3 w' = bytes_of (connect_text ''h'' 80)"
proof -
  have "crlf_lines ([32, 79, 75] @ [CR, LF, CR, LF])"
    by (auto simp: crlf_lines_def Cons_eq_append_conv)
  moreover have "\<not> sublist [CR, LF, CR, LF] ([32, 79, 75] @ [CR, LF, CR])"
    by (simp add: sublist_Cons_right)
  ultimately show ?thesis
    using proxy_connect_success [OF demo_proxy_ready, of "bytes_of ''HTTP/1.0 200''"
        "start (bytes_of ''HTTP/1.0 200'' @ [32, 79, 75] @ CR # LF # CR # LF # [7])" "[32, 79, 75]" "[7]"]
    by (simp add: start_def bytes_of_def wire_def host_of_def)
qed

lemma proxy_connect_refused_witness:
  "\<exists>p' w'. proxy_simpleConnect stream_sys demo_proxy 3 (Some ''h'') 80
        (start (bytes_of (''HTTP/1.1 '' @ dec_nat 407) @ [32])) = Some (False, p', 3, w')
     \<and> conn_error p' = ''HTTP Proxy connection failed ('' @ dec_nat 407 @ '')''"
  using proxy_connect_refused [OF demo_proxy_ready, of 407
      "start (bytes_of (''HTTP/1.1 '' @ dec_nat 407) @ [32])" "[32]"]
  by (simp add: start_def)

lemma proxy_header_end_is_loose_witness:
  "\<exists>p' w'. proxy_simpleConnect stream_sys demo_proxy 3 (Some ''h'') 80
        (start (bytes_of ''HTTP/1.0 200'' @ LF # 65 # LF # [7])) = Some (True, p', 3, w') \<and> w_env w' = [7]"
  using proxy_header_end_is_loose [OF demo_proxy_ready, of "bytes_of ''HTTP/1.0 200''"
      "start (bytes_of ''HTTP/1.0 200'' @ LF # 65 # LF # [7])" 65 "[7]"]
  by (simp add: start_def bytes_of_def)

end
