(* ===== verification/Connect_Socks4.thy ===== *)
theory Connect_Socks4
  imports Connect
begin

text \<open>
  \<open>Socket_Connect_Socks4\<close> (src/src/socket_connect_socks4.h, socket_connect_socks4.cpp). The
  answer of \<open>gethostbyname\<close> is a pointer (0 is null) with the first address in \<open>sr_bytes\<close>.
\<close>

definition socks4_setUsername :: "string option \<Rightarrow> socks4_conn \<Rightarrow> socks4_conn" where
  "socks4_setUsername u p = p\<lparr>s4_username := (case u of Some t \<Rightarrow> t | None \<Rightarrow> [])\<rparr>"

text \<open>The nine bytes the code stores in \<open>d_buffer\<close>: the port is the constant 0x0050.\<close>

definition socks4_request :: "byte list \<Rightarrow> byte list" where
  "socks4_request ip = [0x04, 0x01, 0, 0x50, ip ! 0, ip ! 1, ip ! 2, ip ! 3, 0]"

text \<open>What the response code means: \<open>None\<close> for a granted request, else the error message.\<close>

definition socks4_reply :: "byte \<Rightarrow> string option" where
  "socks4_reply code =
     (if code = 90 then None
      else if code = 91 then Some ''Socks4 - Request Rejected''
      else if code = 92 then Some ''Socks4 - Could not connect to destination''
      else if code = 93 then Some ''Socks4 - Invalid UserID''
      else Some ''Socks4 sent back Invalid Reponse Code - Unknown Error'')"

definition socks4_simpleConnect ::
  "'e sys \<Rightarrow> socks4_conn \<Rightarrow> int \<Rightarrow> string option \<Rightarrow> int \<Rightarrow> 'e world \<Rightarrow>
   (bool \<times> socks4_conn \<times> int \<times> 'e world) option" where
  "socks4_simpleConnect S p s server port w =
     (if port \<le> 0
      then Some (False, conn_setError ''Port not set for Socket_Connect_Socks4 Object'' p, s, w)
      else if no_server server
      then Some (False, conn_setError ''Server Not Set for Socket_Connect_Socks4 Object'' p, s, w)
      else if s = 0
      then Some (False, conn_setError
                   ''Socket is not connected yet! for Socket_Connect_Socks4 object'' p, s, w)
      else do {
        (bound, c, w) \<leftarrow> normal_bind S s (s4_comm p) w;
        let c = comm_setTimeout (conn_tsecs p) (conn_tmicro p) c;
        let p = p\<lparr>s4_comm := c\<rparr>;
        let (he, w) = call S (Sys_gethostbyname (host_of server)) w;
        if sr_ret he = 0 then Some (False, conn_setError ''Could not resolve domain'' p, s, w)
        else do {
          let buf = socks4_request (sr_bytes he) @ drop 9 (s4_buffer p);
          (rc, c, w) \<leftarrow> normal_send S c (take 9 buf) w;
          let p = p\<lparr>s4_comm := c, s4_buffer := buf\<rparr>;
          if rc \<le> 0
          then Some (False, conn_setError
            ''Socket_Connect_Socks4::simpleConnect() failed. Could not send version/method'' p, s, w)
          else do {
            (rc, bs, c, w) \<leftarrow> normal_read S c 8 w;
            let buf = bs @ drop (length bs) buf;
            let p = p\<lparr>s4_comm := c, s4_buffer := buf\<rparr>;
            if rc < 8
            then Some (False, conn_setError (snprintf 1000
                   (''Socks4 only sent back '' @ dec_int rc @ '' bytes, expecting 8. '' @ comm_error c))
                   p, s, w)
            else if buf ! 0 \<noteq> 0
            then Some (False, conn_setError ''Socks Server returned bad version'' p, s, w)
            else case socks4_reply (buf ! 1) of
              None \<Rightarrow> Some (True, p, s, w)
            | Some e \<Rightarrow> Some (False, conn_setError e p, s, w)
          }
        }
      })"

subsection \<open>Frames\<close>

lemma hop_frame_s4 [simp]:
  "hop_frame p0 w0 (p\<lparr>s4_comm := x\<rparr>) w = hop_frame p0 w0 p w"
  "hop_frame p0 w0 (p\<lparr>s4_buffer := b\<rparr>) w = hop_frame p0 w0 p w"
  by (simp_all add: hop_frame_def same_conn_def)

lemma socks4_simpleConnect_frame:
  "post (socks4_simpleConnect S p s server port w) (\<lambda>(ok, p', s', w'). hop_frame p w p' w' \<and> s' = s)"
  unfolding socks4_simpleConnect_def Let_def
  by (intro vc) (auto simp: frame_back)

lemmas connect_socks4_run [run] = socks4_setUsername_def socks4_request_def socks4_reply_def
  socks4_simpleConnect_def

subsection \<open>The exchange with a prompt server\<close>


text \<open>A fresh connector on a prompt peer, and a resolver that knows the destination.\<close>

definition socks4_ready :: "'e sys \<Rightarrow> ('e \<Rightarrow> byte list) \<Rightarrow> int \<Rightarrow> socks4_conn \<Rightarrow> string option \<Rightarrow> int \<Rightarrow> bool" where
  "socks4_ready S rx s p server port \<longleftrightarrow> prompt_peer S s rx \<and> s \<noteq> 0 \<and> comm_sock (s4_comm p) = 0
     \<and> length (s4_buffer p) = 10 \<and> \<not> no_server server \<and> 0 < port"

definition resolves :: "'e sys \<Rightarrow> ('e \<Rightarrow> byte list) \<Rightarrow> string \<Rightarrow> byte list \<Rightarrow> bool" where
  "resolves S rx h ip \<longleftrightarrow> (\<forall>e r e'. sys_step S (Sys_gethostbyname h) e = (r, e') \<longrightarrow>
     sr_ret r \<noteq> 0 \<and> sr_bytes r = ip \<and> rx e' = rx e)"

lemma socks4_negotiates:
  assumes r: "socks4_ready S rx s p server port" and h: "resolves S rx (host_of server) [a, b, c, d]"
    and rx: "rx (w_env w) = [0, code] @ more6 @ rest" "length more6 = 6"
  shows "\<exists>p' w'. socks4_simpleConnect S p s server port w = Some (code = 90, p', s, w')
    \<and> (code = 90 \<or> Some (conn_error p') = socks4_reply code)
    \<and> rx (w_env w') = rest
    \<and> wire s w' = wire s w @ [0x04, 0x01, 0, 0x50, a, b, c, d, 0]"
proof -
  let ?c = "comm_setTimeout (conn_tsecs p) (conn_tmicro p) ((s4_comm p)\<lparr>comm_sock := s\<rparr>)"
  let ?req = "socks4_request [a, b, c, d]"
  have pr: "prompt_peer S s rx" "s \<noteq> 0" "comm_sock (s4_comm p) = 0" "\<not> no_server server" "0 < port"
    "length (s4_buffer p) = 10" using r by (auto simp: socks4_ready_def)
  have l: "linked S rx s ?c" using pr by (intro linked_new)
  obtain q w1 where q: "call S (Sys_gethostbyname (host_of server)) w = (q, w1)" by fastforce
  have q1: "sr_ret q \<noteq> 0" "sr_bytes q = [a, b, c, d]" "rx (w_env w1) = rx (w_env w)"
    using h call_env [OF q] unfolding resolves_def by blast+
  have wq: "wire s w1 = wire s w" using wire_call [OF q] by simp
  have req: "?req \<noteq> []" "length ?req = 9" "?req = [0x04, 0x01, 0, 0x50, a, b, c, d, 0]"
    by (simp_all add: socks4_request_def)
  obtain w2 where 2: "normal_send S ?c ?req w1 = Some (9, ?c, w2)" "rx (w_env w2) = rx (w_env w1)"
    "wire s w2 = wire s w1 @ ?req"
    using normal_send_prompt [OF l req(1), of w1] req(2) by auto
  have rx2: "rx (w_env w2) = ([0, code] @ more6) @ rest" using 2(2) q1(3) rx(1) by simp
  obtain w3 where 3: "normal_read S ?c 8 w2 = Some (8, [0, code] @ more6, ?c, w3)" "rx (w_env w3) = rest"
    "wire s w3 = wire s w2"
    using normal_read_exact [OF l rx2, of 8] rx(2) by auto
  have take: "take 9 (?req @ z) = ?req" for z using req(2) by simp
  have code: "socks4_reply code = None \<longleftrightarrow> code = 90" by (simp add: socks4_reply_def)
  show ?thesis
    using pr q q1(1,2) 2 3 wq req(3) rx(2) code
    by (cases "socks4_reply code")
      (auto simp: socks4_simpleConnect_def normal_bind_fresh take Let_def)
qed

text \<open>
  C31. The SOCKS4 negotiation with a server that answers in time: it succeeds exactly for reply code 90, else
  its error is the message of the code; and the request names the address that was resolved but always
  port 80, whatever port the caller asked for, and no user name.
\<close>

theorem socks4_exchange:
  assumes r: "socks4_ready S rx s p server port" and h: "resolves S rx (host_of server) [a, b, c, d]"
    and rx: "rx (w_env w) = [0, code] @ more6 @ rest" "length more6 = 6"
  shows "\<exists>p' w'. socks4_simpleConnect S p s server port w = Some (code = 90, p', s, w')
    \<and> (code = 90 \<or> Some (conn_error p') = socks4_reply code)
    \<and> rx (w_env w') = rest
    \<and> wire s w' = wire s w @ [0x04, 0x01, 0, 0x50, a, b, c, d, 0]"
  using socks4_negotiates [OF assms] .

text \<open>A worked example.\<close>

definition demo_socks4 :: socks4_conn where
  "demo_socks4 = socks4_setUsername (Some ''me'') socks4_new"

lemma demo_socks4_ready: "socks4_ready stream_sys (\<lambda>bs. bs) 3 demo_socks4 (Some ''h'') 8080"
  by (simp add: socks4_ready_def prompt_stream no_server_def demo_socks4_def socks4_setUsername_def socks4_new_def
      conn_new_def conn.defs socks4_conn.defs comm_new_def)

lemma resolves_stream: "resolves stream_sys (\<lambda>bs. bs) h [127, 0, 0, 1]"
  by (auto simp: resolves_def stream_sys_def ans_def)

lemma socks4_exchange_witness:
  "\<exists>p' w'. socks4_simpleConnect stream_sys demo_socks4 3 (Some ''h'') 8080 (start [0, 90, 0, 80, 127, 0, 0, 1, 42])
      = Some (True, p', 3, w') \<and> w_env w' = [42] \<and> wire 3 w' = [4, 1, 0, 0x50, 127, 0, 0, 1, 0]"
  using socks4_exchange [OF demo_socks4_ready resolves_stream, of "start [0, 90, 0, 80, 127, 0, 0, 1, 42]" 90
      "[0, 80, 127, 0, 0, 1]" "[42]"]
  by (simp add: start_def wire_def)

end
