(* ===== verification/Connect_Socks5.thy ===== *)
theory Connect_Socks5
  imports Connect
begin

text \<open>
  \<open>Socket_Connect_Socks5\<close> (src/src/socket_connect_socks5.h, socket_connect_socks5.cpp). The
  messages are built in \<open>d_buffer[200]\<close>; \<open>buf_put\<close> is undefined (\<open>None\<close>) when a store falls
  outside the array, as the code does not check.
\<close>

definition socks5_setUsername :: "string option \<Rightarrow> socks5_conn \<Rightarrow> socks5_conn" where
  "socks5_setUsername u p = p\<lparr>s5_username := (case u of Some t \<Rightarrow> t | None \<Rightarrow> [])\<rparr>"

definition socks5_setPassword :: "string option \<Rightarrow> socks5_conn \<Rightarrow> socks5_conn" where
  "socks5_setPassword u p = p\<lparr>s5_password := (case u of Some t \<Rightarrow> t | None \<Rightarrow> [])\<rparr>"

definition buf_put :: "byte list \<Rightarrow> byte list \<Rightarrow> byte list option" where
  "buf_put buf bs = (if length bs \<le> length buf then Some (bs @ drop (length bs) buf) else None)"

text \<open>The three messages the client sends (RFC 1928, RFC 1929). A length goes into one \<open>char\<close>.\<close>

definition socks5_greeting :: "byte list" where
  "socks5_greeting = [0x05, 0x02, 0x00, 0x02]"

definition socks5_auth :: "string \<Rightarrow> string \<Rightarrow> byte list" where
  "socks5_auth user pass =
     [0x01, word_of_int (int (length user))] @ c_slice (bytes_of user)
     @ [word_of_int (int (length pass))] @ c_slice (bytes_of pass)"

definition socks5_request :: "string \<Rightarrow> int \<Rightarrow> byte list" where
  "socks5_request server port =
     [0x05, 0x01, 0x00, 0x03, word_of_int (int (length server))] @ c_slice (bytes_of server)
     @ [word_of_int (port sdiv 256), word_of_int (port smod 256)]"

text \<open>What the reply code means: \<open>None\<close> for success, else the error message.\<close>

definition socks5_reply :: "byte \<Rightarrow> string option" where
  "socks5_reply code =
     (if code = 0x00 then None
      else Some (if code = 0x01 then ''general SOCKS server failure''
                 else if code = 0x02 then ''connection not allowed by ruleset''
                 else if code = 0x03 then ''Network unreachable''
                 else if code = 0x04 then ''Host unreachable''
                 else if code = 0x05 then ''Connection refused''
                 else if code = 0x06 then ''TTL expired''
                 else if code = 0x07 then ''Command not supported''
                 else if code = 0x08 then ''Address type not supported''
                 else ''Unknown Error''))"

text \<open>A read into \<open>d_buffer\<close> and a send of its first bytes.\<close>

definition s5_read ::
  "'e sys \<Rightarrow> socks5_conn \<Rightarrow> int \<Rightarrow> 'e world \<Rightarrow> (int \<times> socks5_conn \<times> 'e world) option" where
  "s5_read S p n w = do {
     (rc, bs, c, w) \<leftarrow> normal_read S (s5_comm p) n w;
     buf \<leftarrow> buf_put (s5_buffer p) bs;
     Some (rc, p\<lparr>s5_comm := c, s5_buffer := buf\<rparr>, w)
   }"

definition s5_send ::
  "'e sys \<Rightarrow> socks5_conn \<Rightarrow> byte list \<Rightarrow> 'e world \<Rightarrow> (int \<times> socks5_conn \<times> 'e world) option" where
  "s5_send S p bs w = do {
     buf \<leftarrow> buf_put (s5_buffer p) bs;
     (rc, c, w) \<leftarrow> normal_send S (s5_comm p) (take (length bs) buf) w;
     Some (rc, p\<lparr>s5_comm := c, s5_buffer := buf\<rparr>, w)
   }"

text \<open>Username and password authentication, when the server chose method 2: whether to go on.\<close>

definition socks5_authenticate ::
  "'e sys \<Rightarrow> socks5_conn \<Rightarrow> 'e world \<Rightarrow> (bool \<times> socks5_conn \<times> 'e world) option" where
  "socks5_authenticate S p w = do {
     (rc, p, w) \<leftarrow> s5_send S p (socks5_auth (s5_username p) (s5_password p)) w;
     if rc \<le> 0
     then Some (False, conn_setError
       ''Socket_Connect_Socks5::simpleConnect() failed. Could not send username/password'' p, w)
     else do {
       (rc, p, w) \<leftarrow> s5_read S p 2 w;
       if rc < 2
       then Some (False, conn_setError (snprintf 80
              (''Could not read authentication response, received '' @ dec_int rc
               @ '' bytes instead of 2'')) p, w)
       else if s5_buffer p ! 1 \<noteq> 0
       then Some (False, conn_setError ''Socks Server rejected username / password'' p, w)
       else Some (True, p, w)
     }
   }"

text \<open>The rest of the server's reply, by address type; the results of these reads are ignored.\<close>

definition socks5_skip_address ::
  "'e sys \<Rightarrow> socks5_conn \<Rightarrow> 'e world \<Rightarrow> (socks5_conn \<times> 'e world) option" where
  "socks5_skip_address S p w =
     (let atyp = s5_buffer p ! 1
      in if atyp = 0x01 then do { (rc, p, w) \<leftarrow> s5_read S p 6 w; Some (p, w) }
         else if atyp = 0x03 then do {
           (rc, p, w) \<leftarrow> s5_read S p 1 w;
           (rc, p, w) \<leftarrow> s5_read S p (char_int (char_is_signed (sys_build S)) (s5_buffer p ! 0) + 2) w;
           Some (p, w)
         }
         else if atyp = 0x04 then do { (rc, p, w) \<leftarrow> s5_read S p 18 w; Some (p, w) }
         else Some (p, w))"

text \<open>Steps 3 and 4: the connection instructions and the server's evaluation of them.\<close>

definition socks5_request_connect ::
  "'e sys \<Rightarrow> socks5_conn \<Rightarrow> string \<Rightarrow> int \<Rightarrow> 'e world \<Rightarrow> (bool \<times> socks5_conn \<times> 'e world) option" where
  "socks5_request_connect S p server port w = do {
     (rc, p, w) \<leftarrow> s5_send S p (socks5_request server port) w;
     if rc \<le> 0
     then Some (False, conn_setError
       ''Socket_Connect_Socks5::simpleConnect() failed. Could not send connection instructions'' p, w)
     else do {
       (rc, p, w) \<leftarrow> s5_read S p 2 w;
       if rc < 2 then Some (False, conn_setError (comm_error (s5_comm p)) p, w)
       else do {
         let reponsecode = s5_buffer p ! 1;
         (rc, p, w) \<leftarrow> s5_read S p 2 w;
         if rc < 2
         then Some (False, conn_setError
           (''Could not read Socks Cap servers evaluation response 2 (timed out?)'' @ [CHR 0x0A]) p, w)
         else do {
           (p, w) \<leftarrow> socks5_skip_address S p w;
           case socks5_reply reponsecode of
             None \<Rightarrow> Some (True, p, w)
           | Some e \<Rightarrow> Some (False, conn_setError e p, w)
         }
       }
     }
   }"

definition socks5_simpleConnect ::
  "'e sys \<Rightarrow> socks5_conn \<Rightarrow> int \<Rightarrow> string option \<Rightarrow> int \<Rightarrow> 'e world \<Rightarrow>
   (bool \<times> socks5_conn \<times> int \<times> 'e world) option" where
  "socks5_simpleConnect S p s server port w =
     (if port \<le> 0
      then Some (False, conn_setError ''Port not set for Socket_Connect_Socks5 Object'' p, s, w)
      else if no_server server
      then Some (False, conn_setError ''Server Not Set for Socket_Connect_Socks5 Object'' p, s, w)
      else if s = 0
      then Some (False, conn_setError
                   ''Socket is not connected yet! for Socket_Connect_Socks5 object'' p, s, w)
      else do {
        (bound, c, w) \<leftarrow> normal_bind S s (s5_comm p) w;
        let p = p\<lparr>s5_comm := comm_setTimeout (conn_tsecs p) (conn_tmicro p) c\<rparr>;
        (rc, p, w) \<leftarrow> s5_send S p socks5_greeting w;
        if rc \<le> 0
        then Some (False, conn_setError
          ''Socket_Connect_Socks5::simpleConnect() failed. Could not send version/method'' p, s, w)
        else do {
          (rc, p, w) \<leftarrow> s5_read S p 2 w;
          if rc < 2 then Some (False, p, s, w)
          else if s5_buffer p ! 0 \<noteq> 0x05
          then Some (False, conn_setError ''Socks Server returned bad version'' p, s, w)
          else if s5_buffer p ! 1 = 0xFF
          then Some (False, conn_setError ''Socks Server rejected our suggested methods'' p, s, w)
          else do {
            (go_on, p, w) \<leftarrow> (if s5_buffer p ! 1 = 0x02 then socks5_authenticate S p w
                              else Some (True, p, w));
            if \<not> go_on then Some (False, p, s, w)
            else do {
              (ok, p, w) \<leftarrow> socks5_request_connect S p (host_of server) port w;
              Some (ok, p, s, w)
            }
          }
        }
      })"

subsection \<open>Frames\<close>

lemma hop_frame_s5 [simp]:
  "hop_frame p0 w0 (p\<lparr>s5_comm := x\<rparr>) w = hop_frame p0 w0 p w"
  "hop_frame p0 w0 (p\<lparr>s5_buffer := b\<rparr>) w = hop_frame p0 w0 p w"
  by (simp_all add: hop_frame_def same_conn_def)

lemma s5_hop [frame_back]:
  "s5_read S p n w = Some (rc, p', w') \<Longrightarrow> hop_frame p0 w0 p w \<Longrightarrow> hop_frame p0 w0 p' w'"
  "s5_send S p d w = Some (rc, p', w') \<Longrightarrow> hop_frame p0 w0 p w \<Longrightarrow> hop_frame p0 w0 p' w'"
  by (auto simp: s5_read_def s5_send_def frame_back split: bind_splits)

lemma socks5_authenticate_hop [frame_back]:
  assumes "socks5_authenticate S p w = Some (ok, p', w')" "hop_frame p0 w0 p w"
  shows "hop_frame p0 w0 p' w'"
proof -
  have "post (socks5_authenticate S p w) (\<lambda>(ok, p', w'). hop_frame p0 w0 p' w')"
    unfolding socks5_authenticate_def Let_def
    by (intro vc) (use assms(2) in \<open>auto simp: frame_back\<close>)
  then show ?thesis using assms(1) by (auto dest: postD)
qed

lemma socks5_skip_address_hop [frame_back]:
  "socks5_skip_address S p w = Some (p', w') \<Longrightarrow> hop_frame p0 w0 p w \<Longrightarrow> hop_frame p0 w0 p' w'"
  by (auto simp: socks5_skip_address_def Let_def frame_back split: bind_splits if_splits)

lemma socks5_request_connect_hop [frame_back]:
  assumes "socks5_request_connect S p server port w = Some (ok, p', w')" "hop_frame p0 w0 p w"
  shows "hop_frame p0 w0 p' w'"
proof -
  have "post (socks5_request_connect S p server port w) (\<lambda>(ok, p', w'). hop_frame p0 w0 p' w')"
    unfolding socks5_request_connect_def Let_def
    by (intro vc) (use assms(2) in \<open>auto simp: frame_back\<close>)
  then show ?thesis using assms(1) by (auto dest: postD)
qed

lemma socks5_simpleConnect_frame:
  "post (socks5_simpleConnect S p s server port w) (\<lambda>(ok, p', s', w'). hop_frame p w p' w' \<and> s' = s)"
  unfolding socks5_simpleConnect_def Let_def
  by (intro vc) (auto simp: frame_back split: if_splits)

lemmas connect_socks5_run [run] = socks5_setUsername_def socks5_setPassword_def buf_put_def
  socks5_greeting_def socks5_auth_def socks5_request_def socks5_reply_def s5_read_def s5_send_def
  socks5_authenticate_def socks5_skip_address_def socks5_request_connect_def socks5_simpleConnect_def

subsection \<open>The exchange with a prompt server\<close>

lemma buf_put_some: "length bs \<le> length buf \<Longrightarrow> buf_put buf bs = Some (bs @ drop (length bs) buf)"
  by (simp add: buf_put_def)

lemma s5_read_prompt:
  assumes l: "linked S rx fd c" and rx: "rx (w_env w) = bs @ rest" and n: "n = int (length bs)"
    and b: "length bs \<le> length buf"
  shows "\<exists>w'. s5_read S (p\<lparr>s5_comm := c, s5_buffer := buf\<rparr>) n w
      = Some (n, p\<lparr>s5_comm := c, s5_buffer := bs @ drop (length bs) buf\<rparr>, w')
    \<and> rx (w_env w') = rest \<and> wire fd w' = wire fd w"
proof -
  obtain w' where "normal_read S c n w = Some (n, bs, c, w')" "rx (w_env w') = rest" "wire fd w' = wire fd w"
    using normal_read_exact [OF l rx n] by blast
  then show ?thesis using b by (simp add: s5_read_def buf_put_some)
qed

lemma s5_send_prompt:
  assumes l: "linked S rx fd c" and ne: "bs \<noteq> []" and b: "length bs \<le> length buf"
  shows "\<exists>buf' w'. s5_send S (p\<lparr>s5_comm := c, s5_buffer := buf\<rparr>) bs w
      = Some (int (length bs), p\<lparr>s5_comm := c, s5_buffer := buf'\<rparr>, w')
    \<and> length buf' = length buf \<and> rx (w_env w') = rx (w_env w) \<and> wire fd w' = wire fd w @ bs"
  using normal_send_prompt [OF l ne, of w] b by (fastforce simp: s5_send_def buf_put_some)

lemma s5_read_two:
  assumes "linked S rx fd c" "rx (w_env w) = a # b # rest" "length buf = 200"
  shows "\<exists>buf' w'. s5_read S (p\<lparr>s5_comm := c, s5_buffer := buf\<rparr>) 2 w
      = Some (2, p\<lparr>s5_comm := c, s5_buffer := a # b # buf'\<rparr>, w')
    \<and> length buf' = 198 \<and> rx (w_env w') = rest \<and> wire fd w' = wire fd w"
  using s5_read_prompt [OF assms(1), of w "[a, b]" rest 2 buf p] assms(2,3)
  by (intro exI [of _ "drop 2 buf"]) (simp add: numeral_2_eq_2)

text \<open>The rest of the server's reply, by address type.\<close>

definition s5_address :: "byte \<Rightarrow> byte list \<Rightarrow> bool" where
  "s5_address atyp addr \<longleftrightarrow>
     (if atyp = 1 then length addr = 6
      else if atyp = 4 then length addr = 18
      else if atyp = 3 then (case addr of [] \<Rightarrow> False | l # bs \<Rightarrow> l < 128 \<and> length bs = unat l + 2)
      else addr = [])"

text \<open>
  RFC 1928 lets a domain name have any length that fits the length byte. What of the address stays in the
  stream: a length of 128 or more is negative for a signed \<open>char\<close>, and the client then reads at most one
  byte; an unsigned one is read in full, until it passes the 200 bytes of the buffer (\<open>None\<close>).
\<close>

definition s5_reply :: "byte \<Rightarrow> byte list \<Rightarrow> bool" where
  "s5_reply atyp addr \<longleftrightarrow>
     (if atyp = 1 then length addr = 6
      else if atyp = 4 then length addr = 18
      else if atyp = 3 then (case addr of [] \<Rightarrow> False | l # bs \<Rightarrow> length bs = unat l + 2)
      else addr = [])"

definition s5_left :: "bool \<Rightarrow> byte \<Rightarrow> byte list \<Rightarrow> byte list option" where
  "s5_left signed_chars atyp addr =
     (if atyp \<noteq> 3 \<or> unat (hd addr) < 128 then Some []
      else if signed_chars then Some (drop (unat (hd addr) - 254) (tl addr))
      else if unat (hd addr) \<le> 198 then Some [] else None)"

lemma s5_address_short: "s5_address atyp addr \<Longrightarrow> s5_reply atyp addr \<and> s5_left sg atyp addr = Some []"
  by (auto simp: s5_address_def s5_reply_def s5_left_def word_less_nat_alt split: if_splits list.splits)

lemma byte_bound: "0 \<le> uint (b :: byte)" "uint (b :: byte) < 256"
  using uint_range_size [of b] by (simp_all add: size_word_def)

lemma char_int_uint: "char_int sg l = (if sg \<and> 128 \<le> uint l then uint l - 256 else uint l)"
proof (cases "sg \<and> 128 \<le> uint l")
  case True
  have "sint l = (uint l + 128) mod 256 - 128" using int_word_sint [where 'a = 8, of "uint l"] by simp
  also have "(uint l + 128) mod 256 = uint l - 128" using True byte_bound [of l] by (subst mod_pos_geq) auto
  finally show ?thesis using True unfolding char_int_def by auto
next
  case False
  then have "sg \<Longrightarrow> l < 128" by (simp add: word_less_def)
  then show ?thesis using False char_int_small [of l sg] unfolding char_int_def by auto
qed

lemma skip_domain_prompt:
  assumes l: "linked S rx fd c" and rx: "rx (w_env w) = d # ds @ rest" and b: "length buf = 200" "buf ! 1 = 3"
    and n: "char_int (char_is_signed (sys_build S)) d + 2 = k" and ds: "nat k \<le> length ds"
  shows "if 200 < k then socks5_skip_address S (p\<lparr>s5_comm := c, s5_buffer := buf\<rparr>) w = None
    else \<exists>buf' w'. socks5_skip_address S (p\<lparr>s5_comm := c, s5_buffer := buf\<rparr>) w
        = Some (p\<lparr>s5_comm := c, s5_buffer := buf'\<rparr>, w')
      \<and> rx (w_env w') = drop (nat k) ds @ rest \<and> wire fd w' = wire fd w"
proof -
  obtain w1 where 1: "s5_read S (p\<lparr>s5_comm := c, s5_buffer := buf\<rparr>) 1 w
      = Some (1, p\<lparr>s5_comm := c, s5_buffer := d # drop 1 buf\<rparr>, w1)"
    "rx (w_env w1) = ds @ rest" "wire fd w1 = wire fd w"
    using s5_read_prompt [OF l, of w "[d]" "ds @ rest" 1 buf p] rx b by auto
  have eq: "socks5_skip_address S (p\<lparr>s5_comm := c, s5_buffer := buf\<rparr>) w
      = Option.bind (s5_read S (p\<lparr>s5_comm := c, s5_buffer := d # drop 1 buf\<rparr>) k w1) (\<lambda>(rc, p, w). Some (p, w))"
    using 1(1) b(2) n by (simp add: socks5_skip_address_def Let_def)
  obtain rc w2 where 2: "normal_read S c k w1 = Some (rc, take (nat k) ds, c, w2)"
    "rx (w_env w2) = drop (nat k) ds @ rest" "wire fd w2 = wire fd w1"
  proof (cases "0 \<le> k")
    case True
    then have "k = int (length (take (nat k) ds))" using ds by simp
    moreover have "rx (w_env w1) = take (nat k) ds @ drop (nat k) ds @ rest" using 1(2) by simp
    ultimately show thesis using normal_read_exact [OF l] that by blast
  next
    case False
    then show thesis
      using l 1(2) that [of 0 w1] by (simp add: normal_read_def base_read_def normal_virtualread_def linked_def)
  qed
  have len: "length (take (nat k) ds) = nat k" using ds by simp
  show ?thesis
  proof (cases "200 < k")
    case True
    then show ?thesis using 2(1) b ds by (simp add: eq s5_read_def buf_put_def)
  next
    case False
    then have "buf_put (d # drop 1 buf) (take (nat k) ds) = Some (take (nat k) ds @ drop (nat k) (d # drop 1 buf))"
      using b(1) ds by (simp add: buf_put_def)
    then show ?thesis
      using False 2 1(3) by (intro if_not_P [THEN iffD2] exI [of _ "take (nat k) ds @ drop (nat k) (d # drop 1 buf)"] exI [of _ w2])
        (simp_all add: eq s5_read_def)
  qed
qed

lemma skip_address_prompt:
  assumes l: "linked S rx fd c" and rx: "rx (w_env w) = addr @ rest" and a: "s5_reply (buf ! 1) addr"
    and b: "length buf = 200"
  shows "case s5_left (char_is_signed (sys_build S)) (buf ! 1) addr of
      None \<Rightarrow> socks5_skip_address S (p\<lparr>s5_comm := c, s5_buffer := buf\<rparr>) w = None
    | Some left \<Rightarrow> \<exists>buf' w'. socks5_skip_address S (p\<lparr>s5_comm := c, s5_buffer := buf\<rparr>) w
          = Some (p\<lparr>s5_comm := c, s5_buffer := buf'\<rparr>, w')
        \<and> rx (w_env w') = left @ rest \<and> wire fd w' = wire fd w"
proof -
  let ?sg = "char_is_signed (sys_build S)"
  consider "buf ! 1 = 1" "length addr = 6" | "buf ! 1 = 4" "length addr = 18"
    | d ds where "buf ! 1 = 3" "addr = d # ds" "length ds = unat d + 2"
    | "buf ! 1 \<noteq> 1" "buf ! 1 \<noteq> 3" "buf ! 1 \<noteq> 4" "addr = []"
    using a by (auto simp: s5_reply_def split: if_splits list.splits)
  then show ?thesis
  proof cases
    case 3
    let ?k = "char_int ?sg d + 2"
    have n: "char_int ?sg d = (if ?sg \<and> 128 \<le> uint d then uint d - 256 else uint d)" by (rule char_int_uint)
    have rx': "rx (w_env w) = d # ds @ rest" using rx 3(2) by simp
    have u: "uint d = int (unat d)" by simp
    have full: "nat (uint d + 2) = length ds" unfolding u 3(3) by (simp only: nat_int_add [symmetric] nat_int)
    then have k: "nat ?k \<le> length ds" using n by (auto intro: nat_mono order_trans [OF _ eq_refl])
    note dom = skip_domain_prompt [OF l rx' b 3(1) refl k, of p]
    note at = 3(1,2)
    consider "unat d < 128" | "128 \<le> unat d" "?sg" | "128 \<le> unat d" "\<not> ?sg" by linarith
    then show ?thesis
    proof cases
      case 1
      then have small: "uint d < 128" using u by linarith
      then have e: "?k = uint d + 2" unfolding n by simp
      have "?k \<le> 200" "drop (nat ?k) ds = []" unfolding e full using small by simp_all
      then show ?thesis using dom 1 at by (simp add: s5_left_def)
    next
      case 2
      then have "128 \<le> uint d" using u by linarith
      then have e: "?k = uint d - 254" unfolding n using 2(2) by simp
      have "nat ?k = unat d - 254" unfolding e u by (simp only: nat_minus_as_int of_nat_numeral)
      moreover have "?k \<le> 200" unfolding e using byte_bound [of d] by linarith
      ultimately have "nat ?k = unat d - 254" "?k \<le> 200" by simp_all
      then show ?thesis using dom 2 at by (simp add: s5_left_def)
    next
      case 3
      then have e: "?k = uint d + 2" unfolding n by simp
      have "(200 < ?k) = (198 < unat d)" unfolding e u by presburger
      moreover have "drop (nat ?k) ds = []" unfolding e full by simp
      ultimately have "(200 < ?k) = (198 < unat d)" "drop (nat ?k) ds = []" by blast+
      then show ?thesis using dom 3 at by (cases "198 < unat d") (simp_all add: s5_left_def)
    qed
  next
    case 1
    then show ?thesis
      using s5_read_prompt [OF l rx, of 6 buf p] b by (auto simp: socks5_skip_address_def s5_left_def)
  next
    case 2
    then show ?thesis
      using s5_read_prompt [OF l rx, of 18 buf p] b by (auto simp: socks5_skip_address_def s5_left_def)
  next
    case 4
    then show ?thesis using rx by (auto simp: socks5_skip_address_def s5_left_def)
  qed
qed

lemma request_length: "length (socks5_request server port) \<le> length server + 7"
  "length server < 2 ^ 31 \<Longrightarrow> length (socks5_request server port) = length server + 7"
  by (simp_all add: socks5_request_def c_slice_def int32_id)

lemma auth_length: "length u < 2 ^ 31 \<Longrightarrow> length p < 2 ^ 31 \<Longrightarrow> length (socks5_auth u p) = length u + length p + 3"
  by (simp add: socks5_auth_def c_slice_def int32_id)

lemma request_connect_prompt:
  assumes l: "linked S rx fd c" and rx: "rx (w_env w) = [x, code, y, atyp] @ addr @ rest"
    and a: "s5_reply atyp addr" and b: "length buf = 200" and s: "length server \<le> 193"
  shows "case s5_left (char_is_signed (sys_build S)) atyp addr of
      None \<Rightarrow> socks5_request_connect S (p\<lparr>s5_comm := c, s5_buffer := buf\<rparr>) server port w = None
    | Some left \<Rightarrow> \<exists>p' w'. socks5_request_connect S (p\<lparr>s5_comm := c, s5_buffer := buf\<rparr>) server port w
          = Some (socks5_reply code = None, p', w')
        \<and> rx (w_env w') = left @ rest \<and> wire fd w' = wire fd w @ socks5_request server port
        \<and> (socks5_reply code = None \<or> Some (conn_error p') = socks5_reply code)"
proof -
  have ln: "length (socks5_request server port) = length server + 7" using s by (intro request_length(2)) simp
  have ne: "socks5_request server port \<noteq> []" using ln by auto
  obtain b1 w1 where 1: "s5_send S (p\<lparr>s5_comm := c, s5_buffer := buf\<rparr>) (socks5_request server port) w
      = Some (int (length server + 7), p\<lparr>s5_comm := c, s5_buffer := b1\<rparr>, w1)" "length b1 = 200"
    "rx (w_env w1) = [x, code] @ [y, atyp] @ addr @ rest" "wire fd w1 = wire fd w @ socks5_request server port"
    using s5_send_prompt [OF l ne, of buf p w] unfolding ln b rx append.simps using s by fastforce
  obtain b2 w2 where 2: "s5_read S (p\<lparr>s5_comm := c, s5_buffer := b1\<rparr>) 2 w1
      = Some (2, p\<lparr>s5_comm := c, s5_buffer := x # code # b2\<rparr>, w2)" "length b2 = 198"
    "rx (w_env w2) = [y, atyp] @ addr @ rest" "wire fd w2 = wire fd w1"
    using s5_read_two [OF l 1(3) [simplified append.simps] 1(2), of p] by fastforce
  obtain b3 w3 where 3: "s5_read S (p\<lparr>s5_comm := c, s5_buffer := x # code # b2\<rparr>) 2 w2
      = Some (2, p\<lparr>s5_comm := c, s5_buffer := y # atyp # b3\<rparr>, w3)" "length b3 = 198"
    "rx (w_env w3) = addr @ rest" "wire fd w3 = wire fd w2"
    using s5_read_two [OF l 2(3) [simplified append.simps], of "x # code # b2" p] 2(2) by fastforce
  have "s5_reply ((y # atyp # b3) ! 1) addr" "length (y # atyp # b3) = 200" using a 3(2) by simp_all
  note skip = skip_address_prompt [OF l 3(3) this, of p]
  show ?thesis
  proof (cases "s5_left (char_is_signed (sys_build S)) atyp addr")
    case None
    then show ?thesis using 1(1) 2(1) 3(1) skip by (simp add: socks5_request_connect_def Let_def)
  next
    case (Some left)
    then obtain b4 w4 where 4: "socks5_skip_address S (p\<lparr>s5_comm := c, s5_buffer := y # atyp # b3\<rparr>) w3
      = Some (p\<lparr>s5_comm := c, s5_buffer := b4\<rparr>, w4)" "rx (w_env w4) = left @ rest" "wire fd w4 = wire fd w3"
      using skip by auto
    show ?thesis
      using 1 2 3 4 Some
      by (cases "socks5_reply code") (auto simp: socks5_request_connect_def Let_def)
  qed
qed

lemma authenticate_prompt:
  assumes l: "linked S rx fd c" and rx: "rx (w_env w) = [v, status] @ rest"
    and b: "length buf = 200" and s: "length (s5_username p) + length (s5_password p) \<le> 197"
  shows "\<exists>buf' w'. socks5_authenticate S (p\<lparr>s5_comm := c, s5_buffer := buf\<rparr>) w
      = Some (status = 0, (if status = 0 then id else conn_setError ''Socks Server rejected username / password'')
                 (p\<lparr>s5_comm := c, s5_buffer := buf'\<rparr>), w')
    \<and> length buf' = 200 \<and> rx (w_env w') = rest
    \<and> wire fd w' = wire fd w @ socks5_auth (s5_username p) (s5_password p)"
proof -
  let ?a = "socks5_auth (s5_username p) (s5_password p)"
  have ln: "length ?a = length (s5_username p) + length (s5_password p) + 3" using s by (intro auth_length) simp_all
  have ne: "?a \<noteq> []" using ln by auto
  obtain b1 w1 where 1: "s5_send S (p\<lparr>s5_comm := c, s5_buffer := buf\<rparr>) ?a w
      = Some (int (length ?a), p\<lparr>s5_comm := c, s5_buffer := b1\<rparr>, w1)" "length b1 = 200"
    "rx (w_env w1) = [v, status] @ rest" "wire fd w1 = wire fd w @ ?a"
    using s5_send_prompt [OF l ne, of buf p w] unfolding ln b rx append.simps using s by fastforce
  obtain b2 w2 where 2: "s5_read S (p\<lparr>s5_comm := c, s5_buffer := b1\<rparr>) 2 w1
      = Some (2, p\<lparr>s5_comm := c, s5_buffer := v # status # b2\<rparr>, w2)" "length b2 = 198"
    "rx (w_env w2) = rest" "wire fd w2 = wire fd w1"
    using s5_read_two [OF l 1(3) [simplified append.simps] 1(2), of p] by fastforce
  show ?thesis
    using 1 2 ln by (intro exI [of _ "v # status # b2"] exI [of _ w2]) (auto simp: socks5_authenticate_def)
qed


text \<open>A fresh connector with a connected descriptor, a prompt peer behind it, and a destination.\<close>

definition socks5_ready :: "'e sys \<Rightarrow> ('e \<Rightarrow> byte list) \<Rightarrow> int \<Rightarrow> socks5_conn \<Rightarrow> string option \<Rightarrow> int \<Rightarrow> bool" where
  "socks5_ready S rx s p server port \<longleftrightarrow> prompt_peer S s rx \<and> s \<noteq> 0 \<and> comm_sock (s5_comm p) = 0
     \<and> length (s5_buffer p) = 200 \<and> \<not> no_server server \<and> length (host_of server) < 2 ^ 31 - 7
     \<and> length (s5_username p) + length (s5_password p) < 2 ^ 31 - 3 \<and> 0 < port"

text \<open>The greeting and the server's choice of a method.\<close>

lemma greeting_prompt:
  assumes r: "socks5_ready S rx s p server port" and rx: "rx (w_env w) = [5, m] @ rest"
  shows "\<exists>c buf w'. linked S rx s c \<and> length buf = 200 \<and> rx (w_env w') = rest
    \<and> wire s w' = wire s w @ socks5_greeting
    \<and> socks5_simpleConnect S p s server port w =
        (if m = 0xFF then Some (False, conn_setError ''Socks Server rejected our suggested methods''
             (p\<lparr>s5_comm := c, s5_buffer := buf\<rparr>), s, w')
         else do {
           (go_on, p, w) \<leftarrow> (if m = 2 then socks5_authenticate S (p\<lparr>s5_comm := c, s5_buffer := buf\<rparr>) w'
                             else Some (True, p\<lparr>s5_comm := c, s5_buffer := buf\<rparr>, w'));
           if \<not> go_on then Some (False, p, s, w)
           else do { (ok, p, w) \<leftarrow> socks5_request_connect S p (host_of server) port w; Some (ok, p, s, w) }
         })"
proof -
  let ?c = "comm_setTimeout (conn_tsecs p) (conn_tmicro p) ((s5_comm p)\<lparr>comm_sock := s\<rparr>)"
  have pr: "prompt_peer S s rx" "s \<noteq> 0" "comm_sock (s5_comm p) = 0" "\<not> no_server server" "0 < port"
    "length (s5_buffer p) = 200" using r by (auto simp: socks5_ready_def)
  have l: "linked S rx s ?c" using pr by (intro linked_new)
  have g: "socks5_greeting \<noteq> []" "length socks5_greeting = 4" by (simp_all add: socks5_greeting_def)
  have p0: "p\<lparr>s5_comm := ?c, s5_buffer := s5_buffer p\<rparr> = p\<lparr>s5_comm := ?c\<rparr>" by simp
  obtain b1 w1 where 1: "s5_send S (p\<lparr>s5_comm := ?c\<rparr>) socks5_greeting w
      = Some (4, p\<lparr>s5_comm := ?c, s5_buffer := b1\<rparr>, w1)" "length b1 = 200"
    "rx (w_env w1) = [5, m] @ rest" "wire s w1 = wire s w @ socks5_greeting"
    using s5_send_prompt [OF l g(1), of "s5_buffer p" p w, unfolded p0] unfolding g(2) pr(6) rx by fastforce
  obtain b2 w2 where 2: "s5_read S (p\<lparr>s5_comm := ?c, s5_buffer := b1\<rparr>) 2 w1
      = Some (2, p\<lparr>s5_comm := ?c, s5_buffer := 5 # m # b2\<rparr>, w2)" "length b2 = 198"
    "rx (w_env w2) = rest" "wire s w2 = wire s w1"
    using s5_read_two [OF l 1(3) [simplified append.simps] 1(2), of p] by fastforce
  have "socks5_simpleConnect S p s server port w =
        (if m = 0xFF then Some (False, conn_setError ''Socks Server rejected our suggested methods''
             (p\<lparr>s5_comm := ?c, s5_buffer := 5 # m # b2\<rparr>), s, w2)
         else do {
           (go_on, p, w) \<leftarrow> (if m = 2 then socks5_authenticate S (p\<lparr>s5_comm := ?c, s5_buffer := 5 # m # b2\<rparr>) w2
                             else Some (True, p\<lparr>s5_comm := ?c, s5_buffer := 5 # m # b2\<rparr>, w2));
           if \<not> go_on then Some (False, p, s, w)
           else do { (ok, p, w) \<leftarrow> socks5_request_connect S p (host_of server) port w; Some (ok, p, s, w) }
         })"
    using pr 1(1) 2(1) by (simp add: socks5_simpleConnect_def normal_bind_fresh Let_def)
  moreover have "length (5 # m # b2) = 200" using 2(2) by simp
  moreover have "rx (w_env w2) = rest" "wire s w2 = wire s w @ socks5_greeting" using 1(4) 2(3,4) by simp_all
  ultimately show ?thesis using l by blast
qed

text \<open>The messages fit the 200 bytes.\<close>

definition fits_buffer :: "socks5_conn \<Rightarrow> string option \<Rightarrow> bool" where
  "fits_buffer p server \<longleftrightarrow> length (s5_username p) + length (s5_password p) \<le> 197 \<and> length (host_of server) \<le> 193"

text \<open>The login, if the server asks for one, succeeds: what is left is the request.\<close>

lemma socks5_logged_in:
  assumes r: "socks5_ready S rx s p server port" and m: "m \<noteq> 0xFF"
    and fits: "m = 2 \<Longrightarrow> length (s5_username p) + length (s5_password p) \<le> 197"
    and rx: "rx (w_env w) = [5, m] @ (if m = 2 then [v, 0] else []) @ rest"
  shows "\<exists>c buf w1. linked S rx s c \<and> length buf = 200 \<and> rx (w_env w1) = rest
    \<and> wire s w1 = wire s w @ socks5_greeting @ (if m = 2 then socks5_auth (s5_username p) (s5_password p) else [])
    \<and> socks5_simpleConnect S p s server port w =
        Option.bind (socks5_request_connect S (p\<lparr>s5_comm := c, s5_buffer := buf\<rparr>) (host_of server) port w1)
          (\<lambda>(ok, p, w). Some (ok, p, s, w))"
proof -
  obtain c buf w1 where 1: "linked S rx s c" "length buf = 200"
    "rx (w_env w1) = (if m = 2 then [v, 0] else []) @ rest"
    "wire s w1 = wire s w @ socks5_greeting" and
    eq: "socks5_simpleConnect S p s server port w = do {
           (go_on, p, w) \<leftarrow> (if m = 2 then socks5_authenticate S (p\<lparr>s5_comm := c, s5_buffer := buf\<rparr>) w1
                             else Some (True, p\<lparr>s5_comm := c, s5_buffer := buf\<rparr>, w1));
           if \<not> go_on then Some (False, p, s, w)
           else do { (ok, p, w) \<leftarrow> socks5_request_connect S p (host_of server) port w; Some (ok, p, s, w) }
         }"
    using greeting_prompt [OF r rx] m by auto
  obtain buf2 w2 where "(if m = 2 then socks5_authenticate S (p\<lparr>s5_comm := c, s5_buffer := buf\<rparr>) w1
        else Some (True, p\<lparr>s5_comm := c, s5_buffer := buf\<rparr>, w1)) = Some (True, p\<lparr>s5_comm := c, s5_buffer := buf2\<rparr>, w2)"
      "length buf2 = 200" "rx (w_env w2) = rest"
      "wire s w2 = wire s w1 @ (if m = 2 then socks5_auth (s5_username p) (s5_password p) else [])"
  proof (cases "m = 2")
    case True
    with 1(3) have "rx (w_env w1) = [v, 0] @ rest" by simp
    from authenticate_prompt [OF 1(1) this 1(2) fits [OF True]] show ?thesis using True that by auto
  next
    case False
    then show ?thesis using 1 that by auto
  qed
  then show ?thesis using 1(1,4) eq by (intro exI [of _ c] exI [of _ buf2] exI [of _ w2]) simp
qed

lemma socks5_answers:
  assumes r: "socks5_ready S rx s p server port" and m: "m \<noteq> 0xFF"
    and fits: "m = 2 \<Longrightarrow> length (s5_username p) + length (s5_password p) \<le> 197" "length (host_of server) \<le> 193"
    and a: "s5_reply atyp addr"
    and rx: "rx (w_env w) = [5, m] @ (if m = 2 then [v, 0] else []) @ [x, code, y, atyp] @ addr @ rest"
  shows "case s5_left (char_is_signed (sys_build S)) atyp addr of
      None \<Rightarrow> socks5_simpleConnect S p s server port w = None
    | Some left \<Rightarrow> \<exists>p' w'. socks5_simpleConnect S p s server port w = Some (socks5_reply code = None, p', s, w')
        \<and> (socks5_reply code = None \<or> Some (conn_error p') = socks5_reply code)
        \<and> rx (w_env w') = left @ rest
        \<and> wire s w' = wire s w @ socks5_greeting
            @ (if m = 2 then socks5_auth (s5_username p) (s5_password p) else [])
            @ socks5_request (host_of server) port"
proof -
  obtain c buf w1 where 1: "linked S rx s c" "length buf = 200" "rx (w_env w1) = [x, code, y, atyp] @ addr @ rest"
    "wire s w1 = wire s w @ socks5_greeting @ (if m = 2 then socks5_auth (s5_username p) (s5_password p) else [])"
    "socks5_simpleConnect S p s server port w =
        Option.bind (socks5_request_connect S (p\<lparr>s5_comm := c, s5_buffer := buf\<rparr>) (host_of server) port w1)
          (\<lambda>(ok, p, w). Some (ok, p, s, w))"
    using socks5_logged_in [OF r m fits(1) rx] by blast
  show ?thesis
    using request_connect_prompt [OF 1(1,3) a 1(2) fits(2), of p port] 1(4)
    by (cases "s5_left (char_is_signed (sys_build S)) atyp addr") (auto simp: 1(5))
qed

text \<open>In particular, a negotiation whose messages fit and whose reply is read to its end.\<close>

lemma socks5_negotiates:
  assumes r: "socks5_ready S rx s p server port" and fits: "fits_buffer p server"
    and m: "m \<noteq> 0xFF" and a: "s5_address atyp addr"
    and rx: "rx (w_env w) = [5, m] @ (if m = 2 then [v, 0] else []) @ [x, code, y, atyp] @ addr @ rest"
  shows "\<exists>p' w'. socks5_simpleConnect S p s server port w = Some (socks5_reply code = None, p', s, w')
    \<and> (socks5_reply code = None \<or> Some (conn_error p') = socks5_reply code)
    \<and> rx (w_env w') = rest
    \<and> wire s w' = wire s w @ socks5_greeting
        @ (if m = 2 then socks5_auth (s5_username p) (s5_password p) else [])
        @ socks5_request (host_of server) port"
  using socks5_answers [OF r m _ _ _ rx] fits s5_address_short [OF a, of "char_is_signed (sys_build S)"]
  by (simp add: fits_buffer_def)

text \<open>
  C29. The SOCKS5 negotiation with a server that answers in time and accepts one of the methods, and the
  credentials if it asks for them, whose messages fit the client's buffer (user name and password of at most
  197 characters together if asked for, a host name of at most 193): the client sends exactly the
  greeting, the credentials if asked for, and the CONNECT request; it succeeds exactly when the reply
  code is 0, else its error is the message of the code. A reply as RFC 1928 has it is read to its end and no
  further if its address is of type 1 or 4 or a domain name of fewer than 128 bytes (and if it is of
  another type and empty). Of a longer name a build with signed
  characters reads at most one byte and leaves the rest in the stream, in front of the destination's
  data; one with unsigned characters reads it up to a length of 198, and beyond that has no defined result.
\<close>

theorem socks5_exchange:
  assumes r: "socks5_ready S rx s p server port" and m: "m \<noteq> 0xFF"
    and fits: "m = 2 \<Longrightarrow> length (s5_username p) + length (s5_password p) \<le> 197" "length (host_of server) \<le> 193"
    and a: "s5_reply atyp addr"
    and rx: "rx (w_env w) = [5, m] @ (if m = 2 then [v, 0] else []) @ [x, code, y, atyp] @ addr @ rest"
  shows "case s5_left (char_is_signed (sys_build S)) atyp addr of
      None \<Rightarrow> socks5_simpleConnect S p s server port w = None
    | Some left \<Rightarrow> \<exists>p' w'. socks5_simpleConnect S p s server port w = Some (socks5_reply code = None, p', s, w')
        \<and> (socks5_reply code = None \<or> Some (conn_error p') = socks5_reply code)
        \<and> rx (w_env w') = left @ rest
        \<and> wire s w' = wire s w @ socks5_greeting
            @ (if m = 2 then socks5_auth (s5_username p) (s5_password p) else [])
            @ socks5_request (host_of server) port"
  using socks5_answers [OF assms] .

lemma socks5_login_rejected:
  assumes r: "socks5_ready S rx s p server port" and fits: "fits_buffer p server"
    and rx: "rx (w_env w) = [5, 2] @ [v, status] @ rest" and st: "status \<noteq> 0"
  shows "\<exists>p' w'. socks5_simpleConnect S p s server port w = Some (False, p', s, w')
    \<and> conn_error p' = ''Socks Server rejected username / password'' \<and> rx (w_env w') = rest
    \<and> wire s w' = wire s w @ socks5_greeting @ socks5_auth (s5_username p) (s5_password p)"
proof -
  obtain c buf w1 where 1: "linked S rx s c" "length buf = 200"
    "rx (w_env w1) = [v, status] @ rest"
    "wire s w1 = wire s w @ socks5_greeting" and
    eq: "socks5_simpleConnect S p s server port w = do {
           (go_on, p, w) \<leftarrow> socks5_authenticate S (p\<lparr>s5_comm := c, s5_buffer := buf\<rparr>) w1;
           if \<not> go_on then Some (False, p, s, w)
           else do { (ok, p, w) \<leftarrow> socks5_request_connect S p (host_of server) port w; Some (ok, p, s, w) }
         }"
    using greeting_prompt [OF r rx] by auto
  have f: "length (s5_username p) + length (s5_password p) \<le> 197" using fits by (simp add: fits_buffer_def)
  from authenticate_prompt [OF 1(1,3,2) f] st 1(4) show ?thesis by (auto simp: eq)
qed

text \<open>
  Rejected credentials end the negotiation: the client fails with the documented message and never
  sends the CONNECT request.
\<close>

theorem socks5_rejected_credentials:
  assumes r: "socks5_ready S rx s p server port" and fits: "fits_buffer p server"
    and rx: "rx (w_env w) = [5, 2] @ [v, status] @ rest" and st: "status \<noteq> 0"
  shows "\<exists>p' w'. socks5_simpleConnect S p s server port w = Some (False, p', s, w')
    \<and> conn_error p' = ''Socks Server rejected username / password''
    \<and> wire s w' = wire s w @ socks5_greeting @ socks5_auth (s5_username p) (s5_password p)"
  using socks5_login_rejected [OF assms] by blast

lemma s5_send_overflow: "length (s5_buffer p) < length bs \<Longrightarrow> s5_send S p bs w = None"
  by (simp add: s5_send_def buf_put_def)

lemma socks5_overflows:
  assumes r: "socks5_ready S rx s p server port" and m: "m \<noteq> 0xFF"
    and rx: "rx (w_env w) = [5, m]
      @ (if m = 2 \<and> length (s5_username p) + length (s5_password p) \<le> 197 then [v, 0] else []) @ rest"
    and long: "m = 2 \<and> 197 < length (s5_username p) + length (s5_password p) \<or> 193 < length (host_of server)"
  shows "socks5_simpleConnect S p s server port w = None"
proof (cases "m = 2 \<and> 197 < length (s5_username p) + length (s5_password p)")
  case True
  obtain c buf w1 where 1: "length buf = 200" and
    eq: "socks5_simpleConnect S p s server port w = do {
           (go_on, p, w) \<leftarrow> (if m = 2 then socks5_authenticate S (p\<lparr>s5_comm := c, s5_buffer := buf\<rparr>) w1
                             else Some (True, p\<lparr>s5_comm := c, s5_buffer := buf\<rparr>, w1));
           if \<not> go_on then Some (False, p, s, w)
           else do { (ok, p, w) \<leftarrow> socks5_request_connect S p (host_of server) port w; Some (ok, p, s, w) }
         }"
    using greeting_prompt [OF r rx] m by auto
  have "length (socks5_auth (s5_username p) (s5_password p)) = length (s5_username p) + length (s5_password p) + 3"
    using r by (intro auth_length) (auto simp: socks5_ready_def)
  then show ?thesis using True 1 by (simp add: eq socks5_authenticate_def s5_send_overflow)
next
  case False
  then have rx': "rx (w_env w) = [5, m] @ (if m = 2 then [v, 0] else []) @ rest"
    and fits: "m = 2 \<Longrightarrow> length (s5_username p) + length (s5_password p) \<le> 197" using rx by auto
  obtain c buf w1 where 1: "length buf = 200"
    "socks5_simpleConnect S p s server port w =
        Option.bind (socks5_request_connect S (p\<lparr>s5_comm := c, s5_buffer := buf\<rparr>) (host_of server) port w1)
          (\<lambda>(ok, p, w). Some (ok, p, s, w))"
    using socks5_logged_in [OF r m fits rx'] by blast
  have "length (socks5_request (host_of server) port) = length (host_of server) + 7"
    using r by (intro request_length(2)) (auto simp: socks5_ready_def)
  then show ?thesis using 1 long False by (auto simp: socks5_request_connect_def s5_send_overflow)
qed

text \<open>
  C37. The message buffer overflows, and the run has no defined result, in two cases: the server asks for
  credentials, and user name and password have more than 197 characters together; or the server lets
  the client go on to the CONNECT request (it asks for no credentials, or they fit and it accepts them),
  and the host name has more than 193. A server that rejects the methods or the login ends the
  negotiation before the request is built.
\<close>

theorem socks5_buffer_overflow:
  assumes r: "socks5_ready S rx s p server port" and m: "m \<noteq> 0xFF"
    and rx: "rx (w_env w) = [5, m]
      @ (if m = 2 \<and> length (s5_username p) + length (s5_password p) \<le> 197 then [v, 0] else []) @ rest"
    and long: "m = 2 \<and> 197 < length (s5_username p) + length (s5_password p) \<or> 193 < length (host_of server)"
  shows "socks5_simpleConnect S p s server port w = None"
  using socks5_overflows [OF assms] .

subsection \<open>What the server decodes\<close>

text \<open>
  A server's side of the conversation (RFC 1928, sections 3 and 4; RFC 1929, section 2): the methods
  offered, the credentials if it asked for them, and the CONNECT request with a domain name, after which
  nothing more is due. A field is a length byte and as many bytes.
\<close>

definition decode_field :: "byte list \<Rightarrow> (byte list \<times> byte list) option" where
  "decode_field bs = (case bs of [] \<Rightarrow> None
     | l # bs \<Rightarrow> if unat l \<le> length bs then Some (take (unat l) bs, drop (unat l) bs) else None)"

definition decode_version :: "byte \<Rightarrow> byte list \<Rightarrow> byte list option" where
  "decode_version v bs = (case bs of [] \<Rightarrow> None | b # bs \<Rightarrow> if b = v then Some bs else None)"

definition decode_login :: "byte list \<Rightarrow> ((byte list \<times> byte list) \<times> byte list) option" where
  "decode_login bs = do {
     bs \<leftarrow> decode_version 1 bs;
     (user, bs) \<leftarrow> decode_field bs;
     (pass, bs) \<leftarrow> decode_field bs;
     Some ((user, pass), bs)
   }"

definition decode_request :: "byte list \<Rightarrow> (byte list \<times> int) option" where
  "decode_request bs = do {
     bs \<leftarrow> decode_version 5 bs;
     bs \<leftarrow> decode_version 1 bs;
     bs \<leftarrow> decode_version 0 bs;
     bs \<leftarrow> decode_version 3 bs;
     (host, bs) \<leftarrow> decode_field bs;
     (case bs of [hi, lo] \<Rightarrow> Some (host, 256 * uint hi + uint lo) | _ \<Rightarrow> None)
   }"

definition server_hears :: "bool \<Rightarrow> byte list \<Rightarrow> (byte list \<times> (byte list \<times> byte list) option \<times> byte list \<times> int) option" where
  "server_hears asks bs = do {
     bs \<leftarrow> decode_version 5 bs;
     (methods, bs) \<leftarrow> decode_field bs;
     (login, bs) \<leftarrow> (if asks then map_option (apfst Some) (decode_login bs) else Some (None, bs));
     (host, port) \<leftarrow> decode_request bs;
     Some (methods, login, host, port)
   }"

lemma unat_byte: "n < 256 \<Longrightarrow> unat (word_of_nat n :: byte) = n"
  by (simp add: unat_of_nat)

lemma uint_byte: "0 \<le> i \<Longrightarrow> i < 256 \<Longrightarrow> uint (word_of_int i :: byte) = i"
  by (simp add: uint_word_of_int)

lemma decode_field_text:
  "length t < 256 \<Longrightarrow> decode_field (word_of_int (int (length t)) # bytes_of t @ bs) = Some (bytes_of t, bs)"
  by (simp add: decode_field_def unat_byte)

lemma decode_login_auth:
  assumes "length user < 256" "length pass < 256"
  shows "decode_login (socks5_auth user pass @ bs) = Some ((bytes_of user, bytes_of pass), bs)"
  using assms decode_field_text [of user "word_of_int (int (length pass)) # bytes_of pass @ bs"] decode_field_text [of pass bs]
  by (simp add: decode_login_def decode_version_def socks5_auth_def c_slice_id)

lemma decode_request_text:
  assumes "length server < 256" "0 < port" "port < 65536"
  shows "decode_request (socks5_request server port) = Some (bytes_of server, port)"
proof -
  have "port sdiv 256 = port div 256" "port smod 256 = port mod 256"
    using assms by (simp_all add: signed_divide_int_def signed_modulo_int_def)
  moreover have "uint (word_of_int (port div 256) :: byte) = port div 256" "uint (word_of_int (port mod 256) :: byte) = port mod 256"
    using assms by (auto intro!: uint_byte)
  ultimately show ?thesis
    using assms decode_field_text [of server "[word_of_int (port div 256), word_of_int (port mod 256)]"]
    by (simp add: decode_request_def decode_version_def socks5_request_def c_slice_id)
qed

text \<open>
  C36. What the client says, the server understands: in every negotiation with a server that answers in time
  which gets as far as a reply as RFC 1928 has it and has a defined result, for a port below 65536, the bytes the client put on the wire are, read by a server that knows
  whether it asked for credentials, the two methods, the user name and password of the connector, and a
  CONNECT request for the host and port the program asked for, with nothing missing and nothing over.
\<close>

theorem socks5_messages_roundtrip:
  assumes r: "socks5_ready S rx s p server port" and m: "m \<noteq> 0xFF" and port: "port < 65536"
    and rx: "rx (w_env w) = [5, m] @ (if m = 2 then [v, 0] else []) @ [x, code, y, atyp] @ addr @ rest"
    and a: "s5_reply atyp addr" and res: "socks5_simpleConnect S p s server port w = Some (ok, p', s', w')"
  shows "\<exists>said. wire s w' = wire s w @ said
    \<and> server_hears (m = 2) said = Some ([0, 2], if m = 2 then Some (bytes_of (s5_username p), bytes_of (s5_password p)) else None,
        bytes_of (host_of server), port)"
proof -
  have fits: "m = 2 \<Longrightarrow> length (s5_username p) + length (s5_password p) \<le> 197" "length (host_of server) \<le> 193"
  proof -
    show c: "length (s5_username p) + length (s5_password p) \<le> 197" if "m = 2"
      using socks5_overflows [OF r m, of w v "[v, 0, x, code, y, atyp] @ addr @ rest"] rx res that by (rule_tac ccontr) simp
    show "length (host_of server) \<le> 193"
      using socks5_overflows [OF r m, of w v "[x, code, y, atyp] @ addr @ rest"] rx res c
      by (cases "m = 2"; rule_tac ccontr; simp)
  qed
  have w: "wire s w' = wire s w @ socks5_greeting
      @ (if m = 2 then socks5_auth (s5_username p) (s5_password p) else []) @ socks5_request (host_of server) port"
    using socks5_answers [OF r m fits a rx] res by (auto split: option.splits)
  have "0 < port" using r by (simp add: socks5_ready_def)
  then have "decode_request (socks5_request (host_of server) port) = Some (bytes_of (host_of server), port)"
    using fits(2) port by (intro decode_request_text) auto
  moreover have "decode_login (socks5_auth (s5_username p) (s5_password p) @ bs)
      = Some ((bytes_of (s5_username p), bytes_of (s5_password p)), bs)" if "m = 2" for bs
    using fits(1) [OF that] by (intro decode_login_auth) auto
  moreover have "decode_version 5 (socks5_greeting @ bs) = Some (2 # 0 # 2 # bs)"
    "decode_field (2 # 0 # 2 # bs) = Some ([0, 2], bs)" for bs :: "byte list"
    by (simp_all add: decode_version_def decode_field_def socks5_greeting_def)
  ultimately have "server_hears (m = 2) (socks5_greeting @ (if m = 2 then socks5_auth (s5_username p) (s5_password p) else [])
      @ socks5_request (host_of server) port)
    = Some ([0, 2], if m = 2 then Some (bytes_of (s5_username p), bytes_of (s5_password p)) else None,
        bytes_of (host_of server), port)"
    by (simp add: server_hears_def)
  then show ?thesis using w by blast
qed

text \<open>Worked examples.\<close>

definition demo_socks5 :: socks5_conn where
  "demo_socks5 = socks5_setPassword (Some ''pw'') (socks5_setUsername (Some ''me'') socks5_new)"

lemma demo_socks5_simps: "s5_username demo_socks5 = ''me''" "s5_password demo_socks5 = ''pw''"
  "comm_sock (s5_comm demo_socks5) = 0" "length (s5_buffer demo_socks5) = 200"
  by (simp_all add: demo_socks5_def socks5_setPassword_def socks5_setUsername_def socks5_new_def conn_new_def
      conn.defs socks5_conn.defs comm_new_def)

lemma demo_socks5_ready:
  "h \<noteq> [] \<Longrightarrow> length h < 2 ^ 31 - 7 \<Longrightarrow> socks5_ready stream_sys (\<lambda>bs. bs) 3 demo_socks5 (Some h) 80"
  by (simp add: socks5_ready_def prompt_stream no_server_def host_of_def demo_socks5_simps)

lemma socks5_exchange_witness:
  "\<exists>p' w'. socks5_simpleConnect stream_sys demo_socks5 3 (Some ''h'') 80
      (start ([5, 2] @ [1, 0] @ [5, 0, 0, 1] @ [127, 0, 0, 1, 0, 80] @ [42])) = Some (True, p', 3, w')
    \<and> w_env w' = [42]
    \<and> wire 3 w' = [5, 2, 0, 2] @ socks5_auth ''me'' ''pw'' @ socks5_request ''h'' 80"
proof -
  have "s5_reply 1 [127, 0, 0, 1, 0, 80]" by (simp add: s5_reply_def)
  then show ?thesis
    using socks5_exchange [OF demo_socks5_ready, of "''h''" 2 1 "[127, 0, 0, 1, 0, 80]"
        "start ([5, 2] @ [1, 0] @ [5, 0, 0, 1] @ [127, 0, 0, 1, 0, 80] @ [42])" 1 5 0 0 "[42]"]
    by (simp add: start_def wire_def socks5_reply_def socks5_greeting_def host_of_def demo_socks5_simps s5_left_def)
qed

lemma socks5_rejected_credentials_witness:
  "\<exists>p' w'. socks5_simpleConnect stream_sys demo_socks5 3 (Some ''h'') 80 (start [5, 2, 1, 1]) = Some (False, p', 3, w')
    \<and> conn_error p' = ''Socks Server rejected username / password''
    \<and> wire 3 w' = [5, 2, 0, 2] @ socks5_auth ''me'' ''pw''"
  using socks5_rejected_credentials [OF demo_socks5_ready, of "''h''" "start [5, 2, 1, 1]" 1 1 "[]"]
  by (simp add: fits_buffer_def start_def wire_def socks5_greeting_def host_of_def demo_socks5_simps)

lemma socks5_buffer_overflow_witness:
  "socks5_simpleConnect stream_sys demo_socks5 3 (Some (replicate 194 CHR ''h'')) 80 (start [5, 0]) = None"
proof -
  have "socks5_ready stream_sys (\<lambda>bs. bs) 3 demo_socks5 (Some (replicate 194 CHR ''h'')) 80"
    by (rule demo_socks5_ready) simp_all
  then show ?thesis
    using socks5_buffer_overflow [of stream_sys "\<lambda>bs. bs" 3 demo_socks5 "Some (replicate 194 CHR ''h'')" 80 0
        "start [5, 0]" 0 "[]"] by (simp add: start_def host_of_def)
qed

lemma socks5_messages_roundtrip_witness:
  "\<exists>p' w'. socks5_simpleConnect stream_sys demo_socks5 3 (Some ''h'') 8080
      (start ([5, 2] @ [1, 0] @ [5, 0, 0, 1] @ [127, 0, 0, 1, 0, 80])) = Some (True, p', 3, w')
    \<and> server_hears True (wire 3 w') = Some ([0, 2], Some (bytes_of ''me'', bytes_of ''pw''), bytes_of ''h'', 8080)"
proof -
  let ?w = "start ([5, 2] @ [1, 0] @ [5, 0, 0, 1] @ [127, 0, 0, 1, 0, 80])"
  have r: "socks5_ready stream_sys (\<lambda>bs. bs) 3 demo_socks5 (Some ''h'') 8080"
    by (simp add: socks5_ready_def prompt_stream no_server_def host_of_def demo_socks5_simps)
  have a: "s5_reply 1 [127, 0, 0, 1, 0, 80]" by (simp add: s5_reply_def)
  obtain p' w' where res: "socks5_simpleConnect stream_sys demo_socks5 3 (Some ''h'') 8080 ?w = Some (True, p', 3, w')"
    using socks5_answers [OF r, of 2 1 "[127, 0, 0, 1, 0, 80]" ?w 1 5 0 0 "[]"] a
    by (auto simp: start_def socks5_reply_def host_of_def demo_socks5_simps s5_left_def)
  from socks5_messages_roundtrip [OF r _ _ _ a res, of 2 1 5 0 0 "[]"] res show ?thesis
    by (auto simp: start_def wire_def host_of_def demo_socks5_simps)
qed

end
