(* ===== verification/Connect_Chain.thy ===== *)
theory Connect_Chain
  imports Connect_Normal Connect_Proxy Connect_Socks4 Connect_Socks5
begin

text \<open>
  A \<open>Socket_Connect *\<close>: the virtual \<open>simpleConnect\<close> dispatched on the class, and
  \<open>Socket_Connect::connect\<close>, which walks the chain of children (src/src/socket_connect.cpp).
\<close>

fun simpleConnect ::
  "'e sys \<Rightarrow> conn_obj \<Rightarrow> int \<Rightarrow> string option \<Rightarrow> int \<Rightarrow> 'e world \<Rightarrow>
   (bool \<times> conn_obj \<times> int \<times> 'e world) option" where
  "simpleConnect S (Obj_Normal c) s server port w =
     (let (ok, c, s, w) = normal_simpleConnect S c s server port w in Some (ok, Obj_Normal c, s, w))"
| "simpleConnect S (Obj_Tunnel c) s server port w =
     (let (ok, c, s, w) = tunnel_simpleConnect S c s server port w in Some (ok, Obj_Tunnel c, s, w))"
| "simpleConnect S (Obj_Proxy c) s server port w =
     do { (ok, c, s, w) \<leftarrow> proxy_simpleConnect S c s server port w; Some (ok, Obj_Proxy c, s, w) }"
| "simpleConnect S (Obj_Socks4 c) s server port w =
     do { (ok, c, s, w) \<leftarrow> socks4_simpleConnect S c s server port w; Some (ok, Obj_Socks4 c, s, w) }"
| "simpleConnect S (Obj_Socks5 c) s server port w =
     do { (ok, c, s, w) \<leftarrow> socks5_simpleConnect S c s server port w; Some (ok, Obj_Socks5 c, s, w) }"

partial_function (option) conn_connect ::
  "'e sys \<Rightarrow> nat \<Rightarrow> int \<Rightarrow> string option \<Rightarrow> int \<Rightarrow> heap \<Rightarrow> 'e world \<Rightarrow>
   (bool \<times> int \<times> heap \<times> 'e world) option" where
  "conn_connect S p s destserver destport h w =
     (case hp_objs h p of
        None \<Rightarrow> None
      | Some x \<Rightarrow>
          if conn_child (base_of x) \<noteq> 0 then
            (case hp_objs h (conn_child (base_of x)) of
               None \<Rightarrow> None
             | Some y \<Rightarrow> do {
                 (ok, x, s, w) \<leftarrow> simpleConnect S x s (Some (conn_server (base_of y)))
                                    (conn_port (base_of y)) w;
                 let h = heap_put p x h;
                 if \<not> ok then Some (False, s, h, w)
                 else do {
                   (ok, s, h, w) \<leftarrow> conn_connect S (conn_child (base_of x)) s destserver destport h w;
                   if ok then Some (True, s, h, w)
                   else (case hp_objs h (conn_child (base_of x)) of
                           None \<Rightarrow> None
                         | Some y \<Rightarrow>
                             Some (False, s,
                               heap_put p (map_base (conn_setError (conn_error (base_of y))) x) h, w))
                 }
               })
          else do {
            (ok, x, s, w) \<leftarrow> simpleConnect S x s destserver destport w;
            Some (ok, s, heap_put p x h, w)
          })"

subsection \<open>What a hop keeps, whatever the class\<close>

lemma simpleConnect_frame:
  "simpleConnect S x s server port w = Some (ok, x', s', w') \<Longrightarrow>
   obj_key x' = obj_key x \<and> (class_of x \<noteq> Class_Normal \<longrightarrow> s' = s \<and> emits plain_io w w')"
  by (cases x)
    (auto simp: obj_key_def hop_frame_def same_conn_key conn_key_def tunnel_simpleConnect_def
      split: bind_splits prod.splits dest!: normal_simpleConnect_key
      dest: postD [OF proxy_simpleConnect_frame] postD [OF socks4_simpleConnect_frame]
        postD [OF socks5_simpleConnect_frame])

lemmas simpleConnect_key = simpleConnect_frame [THEN conjunct1]

subsection \<open>The itinerary of a chain\<close>

text \<open>
  What the walk over the chain amounts to: one hop per connector, each to its target, up to the
  first failure, whose message is the result (\<open>None\<close> is success). The target of a connector is
  its child, and the last one's the final destination.
\<close>

fun follow ::
  "'e sys \<Rightarrow> conn_obj list \<Rightarrow> (string option \<times> int) list \<Rightarrow> int \<Rightarrow> 'e world \<Rightarrow>
   (string option \<times> int \<times> 'e world) option" where
  "follow S (x # xs) ((server, port) # ts) s w = do {
     (ok, x, s, w) \<leftarrow> simpleConnect S x s server port w;
     if ok then follow S xs ts s w else Some (Some (conn_error (base_of x)), s, w)
   }"
| "follow S _ _ s w = Some (None, s, w)"

definition target_of :: "conn_obj \<Rightarrow> string option \<times> int" where
  "target_of x = (Some (conn_server (base_of x)), conn_port (base_of x))"

definition objs_at :: "heap \<Rightarrow> nat list \<Rightarrow> conn_obj list" where
  "objs_at h ps = map (\<lambda>p. the (hp_objs h p)) ps"

lemma objs_at_simps [simp]: "objs_at h [] = []" "objs_at h (p # ps) = the (hp_objs h p) # objs_at h ps"
  by (simp_all add: objs_at_def)

lemma heap_put_simps [simp]:
  "hp_next (heap_put p x h) = hp_next h" "hp_objs (heap_put p x h) = (hp_objs h)(p \<mapsto> x)"
  by (simp_all add: heap_put_def)

lemma objs_at_put: "p \<notin> set ps \<Longrightarrow> objs_at (heap_put p x h) ps = objs_at h ps"
  by (auto simp: objs_at_def heap_put_def)

lemma chain_below: "chain l p (q # qs) \<Longrightarrow> p \<notin> set qs"
  using chain_bound [of l _ qs] by (fastforce split: option.splits)

lemma conn_connect_last:
  "hp_objs h p = Some x \<Longrightarrow> conn_child (base_of x) = 0 \<Longrightarrow>
   conn_connect S p s server port h w =
     do { (ok, x, s, w) \<leftarrow> simpleConnect S x s server port w; Some (ok, s, heap_put p x h, w) }"
  by (simp add: conn_connect.simps [of S p])

lemma conn_connect_next:
  "hp_objs h p = Some x \<Longrightarrow> conn_child (base_of x) = c \<Longrightarrow> c \<noteq> 0 \<Longrightarrow> hp_objs h c = Some y \<Longrightarrow>
   conn_connect S p s server port h w =
     (case simpleConnect S x s (fst (target_of y)) (snd (target_of y)) w of
        None \<Rightarrow> None
      | Some (ok, x, s, w) \<Rightarrow>
          if \<not> ok then Some (False, s, heap_put p x h, w)
          else (case conn_connect S c s server port (heap_put p x h) w of
                  None \<Rightarrow> None
                | Some (ok, s, h, w) \<Rightarrow>
                    if ok then Some (True, s, h, w)
                    else (case hp_objs h c of
                            None \<Rightarrow> None
                          | Some y \<Rightarrow>
                              Some (False, s, heap_put p (map_base (conn_setError (conn_error (base_of y))) x) h, w))))"
proof -
  assume a: "hp_objs h p = Some x" "conn_child (base_of x) = c" "c \<noteq> 0" "hp_objs h c = Some y"
  have eq: "conn_connect S p s server port h w =
      Option.bind (simpleConnect S x s (fst (target_of y)) (snd (target_of y)) w) (\<lambda>(ok, x, s, w).
        if \<not> ok then Some (False, s, heap_put p x h, w)
        else Option.bind (conn_connect S (conn_child (base_of x)) s server port (heap_put p x h) w)
          (\<lambda>(ok, s, h, w).
            if ok then Some (True, s, h, w)
            else (case hp_objs h (conn_child (base_of x)) of
                    None \<Rightarrow> None
                  | Some y \<Rightarrow>
                      Some (False, s, heap_put p (map_base (conn_setError (conn_error (base_of y))) x) h, w))))"
    using a by (subst conn_connect.simps) (simp add: target_of_def Let_def cong: if_cong)
  show ?thesis
  proof (cases "simpleConnect S x s (fst (target_of y)) (snd (target_of y)) w")
    case None
    then show ?thesis by (simp add: eq)
  next
    case (Some res)
    obtain ok x1 s1 w1 where res: "res = (ok, x1, s1, w1)" by (cases res)
    have "conn_child (base_of x1) = c"
      using simpleConnect_key Some res a(2) by (fastforce simp: obj_key_def conn_key_def)
    then show ?thesis
      by (cases "conn_connect S c s1 server port (heap_put p x1 h) w1")
        (simp_all add: eq Some res split: prod.split)
  qed
qed

lemma conn_connect_chain:
  assumes "chain (links h) p ps" "ps \<noteq> []"
  shows "case follow S (objs_at h ps) (map target_of (objs_at h (tl ps)) @ [(server, port)]) s w of
           None \<Rightarrow> conn_connect S p s server port h w = None
         | Some (e, s', w') \<Rightarrow>
             \<exists>h' x. conn_connect S p s server port h w = Some (e = None, s', h', w')
               \<and> hp_next h' = hp_next h \<and> heap_keys h' = heap_keys h
               \<and> hp_objs h' p = Some x \<and> (\<forall>m. e = Some m \<longrightarrow> conn_error (base_of x) = m)"
  using assms
proof (induction ps arbitrary: p h s w)
  case (Cons q qs)
  from Cons.prems obtain x where x: "hp_objs h p = Some x" "chain (links h) (conn_child (base_of x)) qs"
    and q: "q = p" by (auto simp: links_Some split: option.splits)
  let ?c = "conn_child (base_of x)"
  show ?case
  proof (cases qs)
    case Nil
    with x q have "?c = 0" by simp
    then show ?thesis
      using conn_connect_last [OF x(1), where S = S and s = s and w = w] Nil x(1) q
      by (auto simp: heap_keys_put [OF x(1)] split: bind_splits option.splits dest: simpleConnect_key)
  next
    case (Cons r rs)
    then obtain y where y: "?c = r" "r \<noteq> 0" "hp_objs h r = Some y"
      using x(2) by (auto simp: links_Some split: option.splits)
    have p: "p \<notin> set qs" "r \<noteq> p" using chain_below [OF Cons.prems(1)] q Cons by auto
    obtain sv pt where t: "target_of y = (sv, pt)" by fastforce
    have ts: "map target_of (objs_at h qs) @ [(server, port)]
        = (sv, pt) # map target_of (objs_at h (tl qs)) @ [(server, port)]"
      using y Cons t by simp
    note step = conn_connect_next [OF x(1) y, where S = S and s = s and w = w,
        unfolded t fst_conv snd_conv]
    show ?thesis
    proof (cases "simpleConnect S x s sv pt w")
      case None
      then show ?thesis
        using step x(1) q by (simp add: ts split: prod.splits)
    next
      case (Some res)
      obtain ok x1 s1 w1 where res: "res = (ok, x1, s1, w1)" by (cases res)
      let ?h1 = "heap_put p x1 h"
      have k: "obj_key x1 = obj_key x" using simpleConnect_key Some res by blast
      have h1: "heap_keys ?h1 = heap_keys h" by (rule heap_keys_put [OF x(1) k])
      have "chain (links ?h1) r qs" using x(2) y(1) links_keys [OF h1] by simp
      have tl1: "objs_at ?h1 qs = objs_at h qs" "objs_at ?h1 (tl qs) = objs_at h (tl qs)"
        using p(1) Cons by (auto intro!: objs_at_put)
      have "qs \<noteq> []" using Cons by simp
      note IH = Cons.IH [OF \<open>chain (links ?h1) r qs\<close> this, of s1 w1, unfolded tl1]
      show ?thesis
      proof (cases ok)
        case False
        then show ?thesis
          using step x(1) q Some res h1 by (simp add: ts)
      next
        case True
        have eq: "conn_connect S p s server port h w =
            (case conn_connect S r s1 server port ?h1 w1 of
               None \<Rightarrow> None
             | Some (ok, s, h, w) \<Rightarrow>
                 if ok then Some (True, s, h, w)
                 else (case hp_objs h r of
                         None \<Rightarrow> None
                       | Some y \<Rightarrow>
                           Some (False, s, heap_put p (map_base (conn_setError (conn_error (base_of y))) x1) h, w)))"
          using step Some res True
          by simp
        show ?thesis
        proof (cases "follow S (objs_at h qs) (map target_of (objs_at h (tl qs)) @ [(server, port)]) s1 w1")
          case None
          then show ?thesis using IH True Some res x(1) q by (simp add: ts eq)
        next
          case fl: (Some r2)
          obtain e s2 w2 where r2: "r2 = (e, s2, w2)" by (cases r2)
          obtain h2 z where z: "conn_connect S r s1 server port ?h1 w1 = Some (e = None, s2, h2, w2)"
            "hp_next h2 = hp_next h" "heap_keys h2 = heap_keys h"
            "hp_objs h2 r = Some z" "\<And>m. e = Some m \<Longrightarrow> conn_error (base_of z) = m"
            using IH fl r2 h1 by auto
          obtain x2 where x2: "hp_objs h2 p = Some x2" "obj_key x2 = obj_key x"
            using heap_keys_lookup [OF z(3) x(1)] by blast
          have "heap_keys (heap_put p (map_base (conn_setError m) x1) h2) = heap_keys h" for m
            using heap_keys_put [OF x2(1), of "map_base (conn_setError m) x1"] x2(2) k z(3) by simp
          then show ?thesis
            using z x2 Some res True fl r2 x(1) q
            by (cases e) (simp_all add: ts eq)
        qed
      qed
    qed
  qed
qed simp

subsection \<open>Descriptors along a chain\<close>

text \<open>
  The balance of descriptors: every one opened was closed, is the one held, or is lost; and only open
  ones were closed.
  \<open>socket\<close> may answer 0 where descriptor 0 is free, which the code takes for a failure.
\<close>

definition fd_books :: "int multiset \<Rightarrow> int \<Rightarrow> 'e world \<Rightarrow> bool" where
  "fd_books lost s w \<longleftrightarrow> opens w = closes w + held s + lost \<and> owned_closes w"

definition socket_nonzero :: "'e sys \<Rightarrow> bool" where
  "socket_nonzero S \<longleftrightarrow> (\<forall>e. sr_ret (fst (sys_step S Sys_socket e)) \<noteq> 0)"

lemma fd_books_emits: "emits keeps_fds w w' \<Longrightarrow> fd_books lost s w' = fd_books lost s w"
  by (simp add: fd_books_def emits_keeps_fds owned_closes_emits)

lemma normal_simpleConnect_books:
  assumes n: "normal_simpleConnect S c s server port w = (ok, c', s', w')"
    and b: "fd_books lost s w"
  shows "\<exists>lost'. fd_books lost' s' w' \<and> (s = 0 \<and> socket_nonzero S \<longrightarrow> lost' = lost)"
proof (cases "port \<le> 0 \<or> no_server server")
  case True
  then show ?thesis using normal_simpleConnect_fds [OF n] b by auto
next
  case False
  then obtain fd where fd: "fd = sr_ret (fst (call S Sys_socket w))"
    "opens w' = opens w + {#fd#}" "s' = (if ok then fd else 0)" "ok \<longrightarrow> fd \<noteq> 0"
    "closes w' = closes w + (if ok \<or> fd = 0 then {#} else {#fd#})"
    using normal_simpleConnect_fds [OF n] by auto
  have "fd \<noteq> 0" if "socket_nonzero S"
    using that fd(1) call_env [of S Sys_socket w] unfolding socket_nonzero_def
    by (cases "call S Sys_socket w") (metis fst_conv)
  moreover have "fd_books (lost + held s + (if fd = 0 then {#fd#} else {#})) s' w'"
    using b fd normal_simpleConnect_owned [OF n] by (auto simp: fd_books_def add.assoc)
  ultimately show ?thesis by (intro exI conjI) auto
qed

lemma follow_rest:
  "follow S xs ts s w = Some (e, s', w') \<Longrightarrow> \<forall>x \<in> set xs. class_of x \<noteq> Class_Normal \<Longrightarrow>
   s' = s \<and> emits plain_io w w'"
  by (induction S xs ts s w rule: follow.induct)
    (auto split: bind_splits if_splits dest!: simpleConnect_frame intro: emits_trans)

lemma follow_books:
  assumes f: "follow S (x # xs) (t # ts) s w = Some (e, s', w')"
    and x: "class_of x = Class_Normal" and xs: "\<forall>x \<in> set xs. class_of x \<noteq> Class_Normal"
    and b: "fd_books lost s w"
  shows "emits plain_call w w'
    \<and> (\<exists>lost'. fd_books lost' s' w' \<and> (s = 0 \<and> socket_nonzero S \<longrightarrow> lost' = lost))"
proof -
  obtain c where c: "x = Obj_Normal c" using x by (cases x) auto
  obtain ok c1 s1 w1 where n: "normal_simpleConnect S c s (fst t) (snd t) w = (ok, c1, s1, w1)"
    by (metis prod_cases4)
  have p: "emits plain_call w w1" using normal_simpleConnect_fds [OF n] by simp
  obtain lost' where l: "fd_books lost' s1 w1" "s = 0 \<and> socket_nonzero S \<longrightarrow> lost' = lost"
    using normal_simpleConnect_books [OF n b] by blast
  show ?thesis
  proof (cases ok)
    case False
    then show ?thesis using f n c p l by (cases t) auto
  next
    case True
    then have "follow S xs ts s1 w1 = Some (e, s', w')" using f n c by (cases t) auto
    from follow_rest [OF this xs] have "s' = s1" "emits plain_io w1 w'" by simp_all
    then show ?thesis
      using p l fd_books_emits [OF emits_plain_io(2)] by (blast intro: emits_trans emits_plain_io(1))
  qed
qed

text \<open>A chain as \<open>connect\<close> builds it: a connector that opens the socket over proxies.\<close>

definition proxies :: "heap \<Rightarrow> nat \<Rightarrow> nat list \<Rightarrow> bool" where
  "proxies h p ps \<longleftrightarrow> chain (links h) p ps \<and> (\<forall>q \<in> set ps. class_at h q \<noteq> Some Class_Normal)"

definition route :: "heap \<Rightarrow> nat \<Rightarrow> nat list \<Rightarrow> bool" where
  "route h p ps \<longleftrightarrow> p \<noteq> 0 \<and> chain (links h) p (p # ps) \<and> class_at h p = Some Class_Normal
     \<and> (\<forall>q \<in> set ps. class_at h q \<noteq> Some Class_Normal)"

lemma conn_connect_books:
  assumes c: "conn_connect S p s server port h w = Some (ok, s', h', w')"
    and r: "route h p ps" and b: "fd_books lost s w"
  shows "emits plain_call w w' \<and> heap_keys h' = heap_keys h \<and> hp_next h' = hp_next h
    \<and> (\<exists>lost'. fd_books lost' s' w' \<and> (s = 0 \<and> socket_nonzero S \<longrightarrow> lost' = lost))"
proof -
  have ch: "chain (links h) p (p # ps)" using r by (simp add: route_def)
  have live: "hp_objs h q \<noteq> None" if "q \<in> set (p # ps)" for q
    using chain_bound [OF ch that] by (simp add: links_None)
  have cl: "class_of (the (hp_objs h q)) \<noteq> Class_Normal" if "q \<in> set ps" for q
    using r live [of q] that by (auto simp: route_def class_at_def)
  have hd: "class_of (the (hp_objs h p)) = Class_Normal"
    using r by (auto simp: route_def class_at_def)
  let ?ts = "map target_of (objs_at h ps) @ [(server, port)]"
  obtain e where "follow S (objs_at h (p # ps)) ?ts s w = Some (e, s', w')"
    "heap_keys h' = heap_keys h" "hp_next h' = hp_next h"
    using conn_connect_chain [OF ch, where S = S and s = s and w = w and server = server and port = port] c
    by (auto split: option.splits)
  moreover obtain t ts where "?ts = t # ts" by (cases ?ts) auto
  moreover have "\<forall>x \<in> set (objs_at h ps). class_of x \<noteq> Class_Normal"
    using cl by (auto simp: objs_at_def)
  ultimately show ?thesis
    using follow_books [of S "the (hp_objs h p)" "objs_at h ps" t ts s w e s' w' lost] hd b by auto
qed

lemmas connect_chain_run [run] = conn_connect.simps

subsection \<open>The recursion and the walk\<close>

text \<open>What the caller of \<open>connect\<close> sees: the error of the outermost connector, if it failed.\<close>

definition hop_outcome :: "nat \<Rightarrow> bool \<times> int \<times> heap \<times> 'e world \<Rightarrow> string option \<times> int \<times> 'e world" where
  "hop_outcome p = (\<lambda>(ok, s, h, w).
     (if ok then None else map_option (\<lambda>x. conn_error (base_of x)) (hp_objs h p), s, w))"

text \<open>
  C22. \<open>connect\<close> is a walk along the chain: the recursion of the connectors over the store has the
  outcome, the descriptor and the calls of \<open>follow\<close>, which contacts the hops one after the other,
  each told to reach the address of the next one, the last one the destination, and stops with the
  error of the first that fails.
\<close>

theorem conn_connect_follows_chain:
  assumes "chain (links h) p (p # ps)"
  shows "map_option (hop_outcome p) (conn_connect S p s server port h w)
    = follow S (objs_at h (p # ps)) (map target_of (objs_at h ps) @ [(server, port)]) s w"
proof -
  note c = conn_connect_chain [OF assms, where S = S and s = s and w = w and server = server and port = port,
      simplified list.sel]
  show ?thesis
  proof (cases "follow S (objs_at h (p # ps)) (map target_of (objs_at h ps) @ [(server, port)]) s w")
    case None
    then show ?thesis using c by simp
  next
    case (Some res)
    obtain e s' w' where res: "res = (e, s', w')" using prod_cases3 by blast
    then obtain h' x where "conn_connect S p s server port h w = Some (e = None, s', h', w')"
      "hp_objs h' p = Some x" "\<forall>m. e = Some m \<longrightarrow> conn_error (base_of x) = m"
      using c Some by auto
    then show ?thesis using Some res by (cases e) (auto simp: hop_outcome_def)
  qed
qed

subsection \<open>Timeouts along a chain\<close>

definition timeout_at :: "heap \<Rightarrow> nat \<Rightarrow> (int \<times> int) option" where
  "timeout_at h p = map_option (\<lambda>x. (conn_tsecs (base_of x), conn_tmicro (base_of x))) (hp_objs h p)"

lemma conn_setTimeout_sets:
  "chain (links h) p ps \<Longrightarrow> p \<noteq> 0 \<Longrightarrow> conn_setTimeout s u p h = Some h' \<Longrightarrow>
   timeout_at h' q = (if q \<in> set ps then Some (s, u) else timeout_at h q)"
proof (induction ps arbitrary: p h)
  case (Cons r rs)
  then obtain x where x: "hp_objs h p = Some x" "chain (links h) (conn_child (base_of x)) rs" and r: "r = p"
    by (auto simp: links_Some split: option.splits)
  define h1 where "h1 = heap_put p (map_base (\<lambda>b. b\<lparr>conn_tsecs := s, conn_tmicro := u\<rparr>) x) h"
  have h1: "links h1 = links h" using setTimeout_step [OF x(1), of u s] by (simp add: h1_def)
  have t1: "timeout_at h1 q = (if q = p then Some (s, u) else timeout_at h q)"
    by (simp add: h1_def timeout_at_def)
  have eq: "conn_setTimeout s u p h = (if conn_child (base_of x) \<noteq> 0
      then conn_setTimeout s u (conn_child (base_of x)) h1 else Some h1)"
    using x(1) by (subst conn_setTimeout.simps) (simp add: h1_def Let_def)
  show ?case
  proof (cases "conn_child (base_of x) = 0")
    case True
    then show ?thesis using Cons.prems(3) eq t1 x(2) r by simp
  next
    case False
    then have "conn_setTimeout s u (conn_child (base_of x)) h1 = Some h'" using Cons.prems(3) eq by simp
    from Cons.IH [OF _ False this] x(2) h1 t1 r show ?thesis by auto
  qed
qed simp

text \<open>Worked examples.\<close>

definition demo_heap :: heap where
  "demo_heap = heap_put 2 (Obj_Normal (conn_new\<lparr>conn_child := 1\<rparr>))
                 (heap_put 1 (Obj_Tunnel (conn_new\<lparr>conn_server := ''t'', conn_port := 1\<rparr>)) heap_empty)"

lemma demo_heap_chain: "chain (links demo_heap) 2 [2, 1]"
  by (simp add: demo_heap_def heap_put_def heap_empty_def links_def conn_new_def conn.defs)

lemma conn_connect_follows_chain_witness:
  "map_option (hop_outcome 2) (conn_connect stream_sys 2 0 (Some ''h'') 80 demo_heap (start []))
    = follow stream_sys (objs_at demo_heap [2, 1]) (map target_of (objs_at demo_heap [1]) @ [(Some ''h'', 80)]) 0 (start [])"
  by (rule conn_connect_follows_chain [OF demo_heap_chain])

end
