(* ===== verification/TCPClient.thy ===== *)
theory TCPClient
  imports Connect_Chain
begin

text \<open>
  \<open>Socket_TCPClient\<close> (src/src/socket_tcpclient.h, socket_tcpclient.cpp): coordinates one
  connector (a pointer into the store) and one communication layer (owned, so a value) over one
  descriptor; \<open>d_sock = 0\<close> is "no connection". The two reading loops are defined over any
  reader of single bytes.
\<close>

record tcp =
  tcp_tsecs :: int
  tcp_tmilli :: int
  tcp_readbuffer :: "byte list"
  tcp_error :: string
  tcp_conn :: nat
  tcp_comm :: "comm_obj option"
  tcp_sock :: int

definition tcp_new :: tcp where
  "tcp_new = \<lparr>tcp_tsecs = 0, tcp_tmilli = 0, tcp_readbuffer = [], tcp_error = [], tcp_conn = 0,
              tcp_comm = None, tcp_sock = 0\<rparr>"

definition tcp_setError :: "string \<Rightarrow> tcp \<Rightarrow> tcp" where
  "tcp_setError e t = t\<lparr>tcp_error := e\<rparr>"

definition tcp_setTimeout :: "int \<Rightarrow> int \<Rightarrow> tcp \<Rightarrow> heap \<Rightarrow> (tcp \<times> heap) option" where
  "tcp_setTimeout seconds microseconds t h = do {
     let t = t\<lparr>tcp_tsecs := seconds, tcp_tmilli := microseconds\<rparr>;
     h \<leftarrow> (if tcp_conn t \<noteq> 0 then conn_setTimeout seconds microseconds (tcp_conn t) h else Some h);
     Some (t\<lparr>tcp_comm := map_option (obj_setTimeout seconds microseconds) (tcp_comm t)\<rparr>, h)
   }"

definition tcp_setConnection :: "nat \<Rightarrow> tcp \<Rightarrow> heap \<Rightarrow> (tcp \<times> heap) option" where
  "tcp_setConnection p t h = do {
     h \<leftarrow> (if tcp_conn t \<noteq> 0 then conn_delete (tcp_conn t) h else Some h);
     h \<leftarrow> conn_setTimeout (tcp_tsecs t) (tcp_tmilli t) p h;
     Some (t\<lparr>tcp_conn := p\<rparr>, h)
   }"

definition tcp_setComm :: "'e sys \<Rightarrow> comm_obj \<Rightarrow> tcp \<Rightarrow> 'e world \<Rightarrow> (tcp \<times> 'e world) option" where
  "tcp_setComm S c t w = do {
     w \<leftarrow> (case tcp_comm t of None \<Rightarrow> Some w | Some old \<Rightarrow> obj_delete S old w);
     Some (t\<lparr>tcp_comm := Some (obj_setTimeout (tcp_tsecs t) (tcp_tmilli t) c)\<rparr>, w)
   }"

subsection \<open>Sending\<close>

definition tcp_send :: "'e sys \<Rightarrow> tcp \<Rightarrow> byte list \<Rightarrow> 'e world \<Rightarrow> (int \<times> tcp \<times> 'e world) option" where
  "tcp_send S t d w =
     (case tcp_comm t of
        None \<Rightarrow> Some (- 1, tcp_setError ''Socket_TCPClient does not have a Socket_Comm to send through'' t, w)
      | Some c \<Rightarrow> do {
          (rc, c, w) \<leftarrow> obj_send S c d w;
          let t = t\<lparr>tcp_comm := Some c\<rparr>;
          Some (rc, if rc \<le> 0 then tcp_setError (obj_getError c) t else t, w)
        })"

definition tcp_sends ::
  "'e sys \<Rightarrow> tcp \<Rightarrow> byte list option \<Rightarrow> 'e world \<Rightarrow> (bool \<times> tcp \<times> 'e world) option" where
  "tcp_sends S t buffer w =
     (case buffer of
        None \<Rightarrow> Some (False, tcp_setError ''Socket_TCPClient cant sends null pointer'' t, w)
      | Some b \<Rightarrow>
          if int32 (int (length b)) = 0 then Some (True, t, w)
          else (case tcp_comm t of
                  None \<Rightarrow> Some (False, tcp_setError ''Socket_TCPClient does not have a Socket_Comm to sends through'' t, w)
                | Some c \<Rightarrow> do {
                    (rc, c, w) \<leftarrow> obj_send S c (c_slice b) w;
                    let t = t\<lparr>tcp_comm := Some c\<rparr>;
                    if rc \<le> 0 then Some (False, tcp_setError (obj_getError c) t, w)
                    else Some (True, t, w)
                  }))"

subsection \<open>Reading\<close>

definition tcp_read ::
  "'e sys \<Rightarrow> tcp \<Rightarrow> int \<Rightarrow> 'e world \<Rightarrow> (int \<times> byte list \<times> tcp \<times> 'e world) option" where
  "tcp_read S t n w =
     (case tcp_comm t of
        None \<Rightarrow> Some (- 1, [], tcp_setError ''Socket_TCPClient does not have a Socket_Comm to read through'' t, w)
      | Some c \<Rightarrow> do {
          (rc, bs, c, w) \<leftarrow> obj_read S c n w;
          let t = t\<lparr>tcp_comm := Some c\<rparr>;
          Some (rc, bs, if rc \<le> 0 then tcp_setError (obj_getError c) t else t, w)
        })"

definition tcp_read_one ::
  "'e sys \<Rightarrow> tcp \<times> 'e world \<Rightarrow> (int \<times> byte \<times> tcp \<times> 'e world) option" where
  "tcp_read_one S = (\<lambda>(t, w). do {
     (rc, bs, t, w) \<leftarrow> tcp_read S t 1 w;
     Some (rc, first_byte bs, t, w)
   })"

text \<open>
  A turn of a reading loop. A loop ends with the pointer it returns (\<open>None\<close> is null, else what
  the caller sees of the buffer) and the contents of \<open>d_readbuffer\<close>.
\<close>

definition reads_turn ::
  "('s \<Rightarrow> (int \<times> byte \<times> 's) option) \<Rightarrow> byte list \<times> 's \<Rightarrow>
   ((byte list option \<times> byte list \<times> 's) + (byte list \<times> 's)) option" where
  "reads_turn rd = (\<lambda>(buf, s). do {
     (rc, c, s) \<leftarrow> rd s;
     Some (if rc > 0 then
             (let buf = buf @ [c]
              in if c = 0 then Inl (Some (c_str buf), buf, s) else Inr (buf, s))
           else if rc = 0 then Inl (if buf = [] then None else Some (c_str buf), buf, s)
           else Inl (None, [], s))
   })"

definition readline_turn ::
  "('s \<Rightarrow> (int \<times> byte \<times> 's) option) \<Rightarrow> byte list \<times> byte \<times> 's \<Rightarrow>
   ((byte list option \<times> byte list \<times> 's) + (byte list \<times> byte \<times> 's)) option" where
  "readline_turn rd = (\<lambda>(buf, lastc, s). do {
     (rc, c, s) \<leftarrow> rd s;
     Some (if rc > 0 then
             (let buf = (if c \<noteq> 0x0A \<and> c \<noteq> 0x0D then buf @ [c] else buf)
              in if c = 0 then Inl (Some (c_str buf), buf, s)
                 else if c = 0x0A \<and> lastc = 0x0D then Inl (Some (c_str buf), buf, s)
                 else Inr (buf, c, s))
           else if rc = 0 then Inl (if buf = [] then None else Some (c_str buf), buf, s)
           else Inl (None, [], s))
   })"

definition tcp_reads :: "'e sys \<Rightarrow> tcp \<Rightarrow> 'e world \<Rightarrow> (byte list option \<times> tcp \<times> 'e world) option" where
  "tcp_reads S t w = do {
     (res, buf, t, w) \<leftarrow> forever (reads_turn (tcp_read_one S)) ([], t\<lparr>tcp_readbuffer := []\<rparr>, w);
     Some (res, t\<lparr>tcp_readbuffer := buf\<rparr>, w)
   }"

definition tcp_readline :: "'e sys \<Rightarrow> tcp \<Rightarrow> 'e world \<Rightarrow> (byte list option \<times> tcp \<times> 'e world) option" where
  "tcp_readline S t w = do {
     (res, buf, t, w) \<leftarrow> forever (readline_turn (tcp_read_one S)) ([], 0, t\<lparr>tcp_readbuffer := []\<rparr>, w);
     Some (res, t\<lparr>tcp_readbuffer := buf\<rparr>, w)
   }"

subsection \<open>Connecting and closing\<close>

definition tcp_connect ::
  "'e sys \<Rightarrow> tcp \<Rightarrow> string option \<Rightarrow> int \<Rightarrow> heap \<Rightarrow> 'e world \<Rightarrow>
   (bool \<times> tcp \<times> heap \<times> 'e world) option" where
  "tcp_connect S t server port h w =
     (if tcp_conn t = 0
      then Some (False, tcp_setError
             ''Socket_TCPClient::connect does not have a Socket_Connect to connect through'' t, h, w)
      else do {
        (ok, s, h, w) \<leftarrow> conn_connect S (tcp_conn t) (tcp_sock t) server port h w;
        let t = t\<lparr>tcp_sock := s\<rparr>;
        if ok then
          (case tcp_comm t of
             None \<Rightarrow> None
           | Some c \<Rightarrow> do {
               (bound, c, w) \<leftarrow> obj_bind S s c w;
               let t = t\<lparr>tcp_comm := Some c\<rparr>;
               Some (bound, if bound then t else tcp_setError (obj_getError c) t, h, w)
             })
        else (case hp_objs h (tcp_conn t) of
                None \<Rightarrow> None
              | Some x \<Rightarrow> Some (False, tcp_setError (conn_error (base_of x)) t, h, w))
      })"

definition closeDescriptor :: "'e sys \<Rightarrow> tcp \<Rightarrow> 'e world \<Rightarrow> tcp \<times> 'e world" where
  "closeDescriptor S t w =
     (if tcp_sock t = 0 then (t, w)
      else let (r, w) = call S (Sys_shutdown (tcp_sock t)) w;
               (r, w) = call S (Sys_close (tcp_sock t)) w
           in (t\<lparr>tcp_sock := 0\<rparr>, w))"

definition tcp_startSSL ::
  "'e sys \<Rightarrow> tcp \<Rightarrow> string option \<Rightarrow> bool \<Rightarrow> 'e world \<Rightarrow> (bool \<times> tcp \<times> 'e world) option" where
  "tcp_startSSL S t hostname verifypeer w =
     (if \<not> using_openssl (sys_build S)
      then Some (False, tcp_setError ''RudeSocket was built without SSL support - startSSL() is unavailable. Rebuild with OpenSSL (RUDESOCKET_WITH_SSL=ON).'' t, w)
      else case tcp_comm t of
        None \<Rightarrow> Some (False, tcp_setError ''Socket_TCPClient::startSSL - no connection to secure'' t, w)
      | Some c \<Rightarrow>
          if tcp_sock t = 0
          then Some (False, tcp_setError ''Socket_TCPClient::startSSL - not connected'' t, w)
          else if isSecure c
          then Some (False, tcp_setError ''Socket_TCPClient::startSSL - connection is already secure'' t, w)
          else do {
            (ok, c, w) \<leftarrow> obj_finish S c w;
            let t = t\<lparr>tcp_comm := Some c\<rparr>;
            if \<not> ok then Some (False, tcp_setError (obj_getError c) t, w)
            else do {
              let new = SSH_Comm (ssh_setVerifyPeer verifypeer (ssh_setHostname hostname ssh_new));
              (t, w) \<leftarrow> tcp_setComm S new t w;
              (case tcp_comm t of
                 None \<Rightarrow> None
               | Some c \<Rightarrow> do {
                   (bound, c, w) \<leftarrow> obj_bind S (tcp_sock t) c w;
                   let t = t\<lparr>tcp_comm := Some c\<rparr>;
                   if bound then Some (True, t, w)
                   else (let t = tcp_setError (obj_getError c) t;
                             (r, w) = call S (Sys_shutdown (tcp_sock t)) w;
                             (r, w) = call S (Sys_close (tcp_sock t)) w
                         in Some (False, t\<lparr>tcp_sock := 0\<rparr>, w))
                 })
            }
          })"

definition tcp_close :: "'e sys \<Rightarrow> tcp \<Rightarrow> 'e world \<Rightarrow> (bool \<times> tcp \<times> 'e world) option" where
  "tcp_close S t w =
     (if tcp_sock t = 0 then Some (True, t, w)
      else case tcp_comm t of
        None \<Rightarrow> (let (t, w) = closeDescriptor S t w in Some (True, t, w))
      | Some c \<Rightarrow> do {
          (ok, c, w) \<leftarrow> obj_finish S c w;
          let t = t\<lparr>tcp_comm := Some c\<rparr>;
          let t = (if ok then t else tcp_setError (obj_getError c) t);
          let (t, w) = closeDescriptor S t w;
          Some (ok, t, w)
        })"

text \<open>The destructor: the store and the world it leaves.\<close>

definition tcp_delete :: "'e sys \<Rightarrow> tcp \<Rightarrow> heap \<Rightarrow> 'e world \<Rightarrow> (heap \<times> 'e world) option" where
  "tcp_delete S t h w = do {
     (t, w) \<leftarrow> (case tcp_comm t of
                 None \<Rightarrow> Some (t, w)
               | Some c \<Rightarrow> if tcp_sock t = 0 then Some (t, w)
                           else do {
                             (ok, c, w) \<leftarrow> obj_finish S c w;
                             Some (t\<lparr>tcp_comm := Some c\<rparr>, w)
                           });
     let (t, w) = closeDescriptor S t w;
     h \<leftarrow> (if tcp_conn t \<noteq> 0 then conn_delete (tcp_conn t) h else Some h);
     w \<leftarrow> (case tcp_comm t of None \<Rightarrow> Some w | Some c \<Rightarrow> obj_delete S c w);
     Some (h, w)
   }"

subsection \<open>The books of a client\<close>

text \<open>Its descriptor, and the handles of its layer.\<close>

definition tcp_books :: "int multiset \<times> int multiset \<Rightarrow> int multiset \<Rightarrow> tcp \<Rightarrow> 'e world \<Rightarrow> bool" where
  "tcp_books oth lost t w \<longleftrightarrow> fd_books lost (tcp_sock t) w
     \<and> (case tcp_comm t of None \<Rightarrow> tls_books oth {#} {#} w | Some c \<Rightarrow> obj_books oth c w)"

lemma tcp_books_fields [simp]:
  "tcp_books oth lost (tcp_setError e t) w = tcp_books oth lost t w"
  "tcp_books oth lost (t\<lparr>tcp_conn := p\<rparr>) w = tcp_books oth lost t w"
  "tcp_books oth lost (t\<lparr>tcp_tsecs := n, tcp_tmilli := m\<rparr>) w = tcp_books oth lost t w"
  "tcp_books oth lost (t\<lparr>tcp_readbuffer := b\<rparr>) w = tcp_books oth lost t w"
  "tcp_books oth lost (t\<lparr>tcp_tsecs := n, tcp_tmilli := m,
     tcp_comm := map_option (obj_setTimeout a b') (tcp_comm t)\<rparr>) w = tcp_books oth lost t w"
  by (simp_all add: tcp_books_def tcp_setError_def split: option.split)

lemma tcp_setError_simps [simp]:
  "tcp_sock (tcp_setError e t) = tcp_sock t" "tcp_conn (tcp_setError e t) = tcp_conn t"
  "tcp_comm (tcp_setError e t) = tcp_comm t" "tcp_error (tcp_setError e t) = e"
  "tcp_readbuffer (tcp_setError e t) = tcp_readbuffer t"
  "tcp_tsecs (tcp_setError e t) = tcp_tsecs t" "tcp_tmilli (tcp_setError e t) = tcp_tmilli t"
  by (simp_all add: tcp_setError_def)

lemma tcp_books_comm:
  assumes "tcp_books oth lost t w" "emits keeps_fds w w'" "obj_books oth c' w'"
  shows "tcp_books oth lost (t\<lparr>tcp_comm := Some c'\<rparr>) w'"
  using assms fd_books_emits [OF assms(2)] by (simp add: tcp_books_def)

lemma tcp_setComm_books:
  fixes w :: "'e world"
  assumes "tcp_setComm S c t w = Some (t', w')" "tcp_books oth lost t w"
    and fresh: "\<And>w :: 'e world. tls_books oth {#} {#} w \<Longrightarrow> obj_books oth c w"
  shows "tcp_books oth lost t' w'
    \<and> t' = t\<lparr>tcp_comm := Some (obj_setTimeout (tcp_tsecs t) (tcp_tmilli t) c)\<rparr>"
proof -
  obtain w1 where w1: "(case tcp_comm t of None \<Rightarrow> Some w | Some old \<Rightarrow> obj_delete S old w) = Some w1"
    and t': "t' = t\<lparr>tcp_comm := Some (obj_setTimeout (tcp_tsecs t) (tcp_tmilli t) c)\<rparr>" "w' = w1"
    using assms(1) by (auto simp: tcp_setComm_def split: bind_splits)
  have "emits keeps_fds w w1 \<and> tls_books oth {#} {#} w1"
  proof (cases "tcp_comm t")
    case None
    then show ?thesis using assms(2) w1 by (simp add: tcp_books_def)
  next
    case (Some old)
    then have "obj_books oth old w" using assms(2) by (simp add: tcp_books_def)
    from obj_delete_books [OF this, of S] show ?thesis using Some w1 by simp
  qed
  with t' assms(2) fresh show ?thesis by (auto intro: tcp_books_comm)
qed

text \<open>An operation that keeps the descriptor, the connector and the books.\<close>

definition tcp_step :: "int multiset \<times> int multiset \<Rightarrow> int multiset \<Rightarrow> tcp \<Rightarrow> tcp \<Rightarrow> 'e world \<Rightarrow> bool" where
  "tcp_step oth lost t t' w' \<longleftrightarrow> tcp_books oth lost t' w' \<and> tcp_sock t' = tcp_sock t \<and> tcp_conn t' = tcp_conn t
     \<and> tcp_tsecs t' = tcp_tsecs t \<and> tcp_tmilli t' = tcp_tmilli t"

lemma obj_send_books:
  "obj_send S c d w = Some (rc, c', w') \<Longrightarrow> tcp_books oth lost t w \<Longrightarrow> tcp_comm t = Some c \<Longrightarrow>
   tcp_books oth lost (t\<lparr>tcp_comm := Some c'\<rparr>) w'"
  using obj_send_frame [of S c d w rc c' w'] obj_io_books(1) [of S c d w rc c' w']
  by (auto simp: tcp_books_def fd_books_emits)

lemma obj_read_books:
  "obj_read S c n w = Some (rc, bs, c', w') \<Longrightarrow> tcp_books oth lost t w \<Longrightarrow> tcp_comm t = Some c \<Longrightarrow>
   tcp_books oth lost (t\<lparr>tcp_comm := Some c'\<rparr>) w'"
  using obj_read_frame [of S c n w rc bs c' w'] obj_io_books(2) [of S c n w rc bs c' w']
  by (auto simp: tcp_books_def fd_books_emits)

lemma tcp_send_step:
  "tcp_send S t d w = Some (rc, t', w') \<Longrightarrow> tcp_books oth lost t w \<Longrightarrow> tcp_step oth lost t t' w'"
  by (auto simp: tcp_send_def tcp_step_def Let_def obj_send_books split: option.splits bind_splits if_splits)

lemma tcp_sends_step:
  "tcp_sends S t b w = Some (ok, t', w') \<Longrightarrow> tcp_books oth lost t w \<Longrightarrow> tcp_step oth lost t t' w'"
  by (auto simp: tcp_sends_def tcp_step_def Let_def obj_send_books split: option.splits bind_splits if_splits)

lemma tcp_read_step:
  "tcp_read S t n w = Some (rc, bs, t', w') \<Longrightarrow> tcp_books oth lost t w \<Longrightarrow> tcp_step oth lost t t' w'"
  by (auto simp: tcp_read_def tcp_step_def Let_def obj_read_books split: option.splits bind_splits if_splits)

lemma tcp_step_trans: "tcp_step oth lost t t' w' \<Longrightarrow> tcp_step oth lost t' t'' w'' \<Longrightarrow> tcp_step oth lost t t'' w''"
  by (simp add: tcp_step_def)

lemma tcp_step_refl: "tcp_books oth lost t w \<Longrightarrow> tcp_step oth lost t t w"
  by (simp add: tcp_step_def)

text \<open>What one \<open>read\<close> keeps, the two reading loops keep.\<close>

lemma tcp_loops_inv:
  assumes rd: "\<And>t w rc bs t' w'. tcp_read S t 1 w = Some (rc, bs, t', w') \<Longrightarrow> I t w \<Longrightarrow> I t' w'"
    and buf: "\<And>t w b. I (t\<lparr>tcp_readbuffer := b\<rparr>) w = I t w" and i: "I t w"
  shows "tcp_reads S t w = Some (res, t', w') \<Longrightarrow> I t' w'"
    "tcp_readline S t w = Some (res, t', w') \<Longrightarrow> I t' w'"
proof -
  have one: "I t' w'" if "tcp_read_one S (t, w) = Some (rc, b, t', w')" "I t w" for t w rc b t' w'
    using that rd by (auto simp: tcp_read_one_def split: bind_splits)
  have "post (forever (reads_turn (tcp_read_one S)) ([], t\<lparr>tcp_readbuffer := []\<rparr>, w)) (\<lambda>(res, buf, t', w'). I t' w')"
    by (rule forever_post [where I = "\<lambda>(buf, t, w). I t w"])
      (auto simp: reads_turn_def i buf post_def Let_def one split: bind_splits if_splits)
  then show "tcp_reads S t w = Some (res, t', w') \<Longrightarrow> I t' w'"
    by (auto simp: tcp_reads_def buf split: bind_splits dest: postD)
  have "post (forever (readline_turn (tcp_read_one S)) ([], 0, t\<lparr>tcp_readbuffer := []\<rparr>, w)) (\<lambda>(res, buf, t', w'). I t' w')"
    by (rule forever_post [where I = "\<lambda>(buf, l, t, w). I t w"])
      (auto simp: readline_turn_def i buf post_def Let_def one split: bind_splits if_splits)
  then show "tcp_readline S t w = Some (res, t', w') \<Longrightarrow> I t' w'"
    by (auto simp: tcp_readline_def buf split: bind_splits dest: postD)
qed

lemma tcp_step_readbuffer [simp]:
  "tcp_step oth lost t0 (t\<lparr>tcp_readbuffer := b\<rparr>) w = tcp_step oth lost t0 t w"
  by (simp add: tcp_step_def)

lemma tcp_read_step_trans:
  "tcp_read S t 1 w = Some (rc, bs, t', w') \<Longrightarrow> tcp_step oth lost t0 t w \<Longrightarrow> tcp_step oth lost t0 t' w'"
  using tcp_read_step [of S t 1 w rc bs t' w' oth lost] tcp_step_trans [of oth lost t0 t w t' w']
  by (simp add: tcp_step_def [of oth lost t0 t])

lemma tcp_reads_step:
  "tcp_reads S t w = Some (res, t', w') \<Longrightarrow> tcp_books oth lost t w \<Longrightarrow> tcp_step oth lost t t' w'"
  by (rule tcp_loops_inv(1) [where I = "tcp_step oth lost t", OF tcp_read_step_trans _ tcp_step_refl]) simp_all

lemma tcp_readline_step:
  "tcp_readline S t w = Some (res, t', w') \<Longrightarrow> tcp_books oth lost t w \<Longrightarrow> tcp_step oth lost t t' w'"
  by (rule tcp_loops_inv(2) [where I = "tcp_step oth lost t", OF tcp_read_step_trans _ tcp_step_refl]) simp_all

lemma obj_books_emits:
  assumes "emits keeps_handles w w'"
  shows "obj_books oth c w' = obj_books oth c w"
  using tls_books_emits [OF assms] by (cases c) (simp_all add: ssh_books_def)

lemma closeDescriptor_books:
  assumes "closeDescriptor S t w = (t', w')" "tcp_books oth lost t w"
  shows "tcp_books oth lost t' w' \<and> t' = t\<lparr>tcp_sock := 0\<rparr>"
proof (cases "tcp_sock t = 0")
  case True
  then show ?thesis using assms by (auto simp: closeDescriptor_def)
next
  case False
  obtain r1 w1 where 1: "call S (Sys_shutdown (tcp_sock t)) w = (r1, w1)" by fastforce
  obtain r2 w2 where 2: "call S (Sys_close (tcp_sock t)) w1 = (r2, w2)" by fastforce
  have "opens w2 = opens w" "closes w2 = closes w + {#tcp_sock t#}"
    using opens_call [OF 1] opens_call [OF 2] by simp_all
  moreover have "owned_closes w2" if o: "owned_closes w" "opens w = closes w + {#tcp_sock t#} + m" for m
  proof -
    have "owned_closes w1" by (rule owned_closes_call [OF 1 o(1)]) simp
    moreover have "opens w1 = closes w1 + {#tcp_sock t#} + m" using o(2) opens_call [OF 1] by simp
    ultimately show ?thesis using owned_closes_call [OF 2] by blast
  qed
  moreover have "emits keeps_handles w w2"
    using emits_step [OF emits_callD [OF 1] 2, of keeps_handles] by simp
  ultimately show ?thesis
    using assms False tls_books_emits [of w w2] obj_books_emits [of w w2]
    by (auto simp: closeDescriptor_def 1 2 tcp_books_def fd_books_def split: option.splits)
qed

lemma tcp_finish_books:
  assumes "obj_finish S c w = Some (ok, c', w')" "tcp_books oth lost t w" "tcp_comm t = Some c"
  shows "tcp_books oth lost (t\<lparr>tcp_comm := Some c'\<rparr>) w'"
  using assms obj_finish_frame [OF assms(1)] obj_finish_books [OF assms(1)]
  by (auto simp: tcp_books_def fd_books_emits)

lemma tcp_bind_books:
  assumes "obj_bind S s c w = Some (ok, c', w')" "tcp_books oth lost t w" "tcp_comm t = Some c"
  shows "tcp_books oth lost (t\<lparr>tcp_comm := Some c'\<rparr>) w'"
  using assms obj_bind_frame [OF assms(1)] obj_bind_books [OF assms(1)]
  by (auto simp: tcp_books_def fd_books_emits)

lemma tcp_close_books:
  assumes "tcp_close S t w = Some (ok, t', w')" "tcp_books oth lost t w"
  shows "tcp_books oth lost t' w' \<and> tcp_sock t' = 0 \<and> tcp_conn t' = tcp_conn t"
proof (cases "tcp_sock t = 0")
  case True
  then show ?thesis using assms by (simp add: tcp_close_def)
next
  case False
  show ?thesis
  proof (cases "tcp_comm t")
    case None
    then show ?thesis
      using assms False by (auto simp: tcp_close_def split: prod.splits dest!: closeDescriptor_books)
  next
    case (Some c)
    obtain ok1 c1 w1 where f: "obj_finish S c w = Some (ok1, c1, w1)"
      using obj_finish_returns by blast
    define u where "u = (if ok1 then t\<lparr>tcp_comm := Some c1\<rparr>
                          else tcp_setError (obj_getError c1) (t\<lparr>tcp_comm := Some c1\<rparr>))"
    have u: "tcp_books oth lost u w1" "tcp_conn u = tcp_conn t"
      using tcp_finish_books [OF f assms(2) Some] by (simp_all add: u_def)
    have "closeDescriptor S u w1 = (t', w')"
      using assms(1) False Some f by (auto simp: tcp_close_def Let_def u_def split: prod.splits)
    from closeDescriptor_books [OF this u(1)] u(2) show ?thesis by auto
  qed
qed

lemma obj_books_new: "tls_books oth {#} {#} w \<Longrightarrow> obj_books oth (Normal_Comm comm_new) w"
  "tls_books oth {#} {#} w \<Longrightarrow> obj_books oth (SSH_Comm (ssh_setVerifyPeer v (ssh_setHostname h ssh_new))) w"
  by (simp_all add: ssh_books_def ssh_setVerifyPeer_def ssh_setHostname_def ssh_new_def comm_new_def
      comm.defs ssh_comm.defs)

lemma tcp_startSSL_books:
  assumes ssl: "tcp_startSSL S t hostname v w = Some (ok, t', w')" and b: "tcp_books oth lost t w"
  shows "tcp_books oth lost t' w' \<and> tcp_conn t' = tcp_conn t \<and> (tcp_sock t' = tcp_sock t \<or> \<not> ok \<and> tcp_sock t' = 0)"
proof (cases "using_openssl (sys_build S) \<and> tcp_sock t \<noteq> 0 \<and> (\<exists>c. tcp_comm t = Some c \<and> \<not> isSecure c)")
  case False
  then show ?thesis
    using ssl b by (auto simp: tcp_startSSL_def split: if_splits option.splits)
next
  case True
  then obtain c where c: "tcp_comm t = Some c" "\<not> isSecure c" "tcp_sock t \<noteq> 0"
    and build: "using_openssl (sys_build S)" by blast
  obtain ok1 c1 w1 where f: "obj_finish S c w = Some (ok1, c1, w1)"
    using obj_finish_returns by blast
  have b1: "tcp_books oth lost (t\<lparr>tcp_comm := Some c1\<rparr>) w1" by (rule tcp_finish_books [OF f b c(1)])
  show ?thesis
  proof (cases ok1)
    case False
    then show ?thesis
      using ssl b1 c build f by (auto simp: tcp_startSSL_def Let_def)
  next
    case True
    let ?new = "SSH_Comm (ssh_setVerifyPeer v (ssh_setHostname hostname ssh_new))"
    obtain t2 w2 where s2: "tcp_setComm S ?new (t\<lparr>tcp_comm := Some c1\<rparr>) w1 = Some (t2, w2)"
      using ssl c build f True by (auto simp: tcp_startSSL_def Let_def split: bind_splits)
    from tcp_setComm_books [OF s2 b1 obj_books_new(2)] obtain c2
      where t2: "tcp_books oth lost t2 w2" "t2 = t\<lparr>tcp_comm := Some c2\<rparr>" by auto
    obtain bound c3 w3 where s3: "obj_bind S (tcp_sock t) c2 w2 = Some (bound, c3, w3)"
      using ssl c build f True s2 t2 by (auto simp: tcp_startSSL_def Let_def split: bind_splits)
    define t3 where "t3 = t2\<lparr>tcp_comm := Some c3\<rparr>"
    have b3: "tcp_books oth lost t3 w3" "tcp_sock t3 = tcp_sock t" "tcp_conn t3 = tcp_conn t"
      using tcp_bind_books [OF s3 t2(1)] t2(2) by (simp_all add: t3_def)
    have eq: "(ok, t', w') = (if bound then (True, t3, w3)
        else (False, closeDescriptor S (tcp_setError (obj_getError c3) t3) w3))"
      using ssl c build f True s2 t2 s3 b3
      by (auto simp: tcp_startSSL_def Let_def closeDescriptor_def t3_def split: if_splits prod.splits)
    show ?thesis
    proof (cases bound)
      case True
      then show ?thesis using eq b3 by simp
    next
      case False
      then have "closeDescriptor S (tcp_setError (obj_getError c3) t3) w3 = (t', w')" "\<not> ok"
        using eq by simp_all
      from closeDescriptor_books [OF this(1), of oth lost] b3 \<open>\<not> ok\<close> show ?thesis by auto
    qed
  qed
qed

text \<open>The destructor returns whenever it can free the connectors, and it frees everything.\<close>

lemma tcp_delete_books:
  assumes b: "tcp_books oth lost t w" and ch: "chain (links h) (tcp_conn t) ps"
  shows "\<exists>w'. tcp_delete S t h w = Some (h\<lparr>hp_objs := hp_objs h |` (- set ps)\<rparr>, w')
    \<and> opens w' = closes w' + lost \<and> owned_closes w' \<and> tls_books oth {#} {#} w'"
proof -
  let ?m = "case tcp_comm t of None \<Rightarrow> Some (t, w)
            | Some c \<Rightarrow> if tcp_sock t = 0 then Some (t, w)
                        else Option.bind (obj_finish S c w) (\<lambda>(ok, c, w). Some (t\<lparr>tcp_comm := Some c\<rparr>, w))"
  obtain t1 w1 where 1: "?m = Some (t1, w1)" "tcp_books oth lost t1 w1" "tcp_conn t1 = tcp_conn t"
  proof (cases "tcp_comm t")
    case None
    then show thesis using b by (intro that [of t w]) simp_all
  next
    case (Some c)
    obtain c1 w1 where f: "obj_finish S c w = Some (obj_sock c \<noteq> 0, c1, w1)"
      using obj_finish_returns by blast
    show thesis
    proof (cases "tcp_sock t = 0")
      case True
      then show thesis using b Some by (intro that [of t w]) simp_all
    next
      case False
      then show thesis
        using f Some tcp_finish_books [OF f b Some] by (intro that [of "t\<lparr>tcp_comm := Some c1\<rparr>" w1]) simp_all
    qed
  qed
  obtain t2 w2 where 2: "closeDescriptor S t1 w1 = (t2, w2)" by fastforce
  have b2: "tcp_books oth lost t2 w2" "t2 = t1\<lparr>tcp_sock := 0\<rparr>"
    using closeDescriptor_books [OF 2 1(2)] by blast+
  let ?h = "h\<lparr>hp_objs := hp_objs h |` (- set ps)\<rparr>"
  have h: "(if tcp_conn t2 \<noteq> 0 then conn_delete (tcp_conn t2) h else Some h) = Some ?h"
    using conn_delete_chain [OF ch] conn_delete.simps [of 0 h] ch b2(2) 1(3) by auto
  have del: "tcp_delete S t h w
      = (case tcp_comm t2 of None \<Rightarrow> Some (?h, w2)
         | Some c \<Rightarrow> Option.bind (obj_delete S c w2) (\<lambda>w. Some (?h, w)))"
    using 1(1) 2 h by (simp add: tcp_delete_def split: option.split)
  show ?thesis
  proof (cases "tcp_comm t2")
    case None
    then show ?thesis using b2 by (simp add: del tcp_books_def fd_books_def)
  next
    case (Some c)
    have "obj_books oth c w2" using b2(1) Some by (simp add: tcp_books_def)
    from obj_delete_books [OF this, of S] obtain w3
      where w3: "obj_delete S c w2 = Some w3" "emits keeps_fds w2 w3" "tls_books oth {#} {#} w3" by blast
    then have "fd_books lost 0 w3" using b2 by (simp add: fd_books_emits tcp_books_def)
    with w3 Some show ?thesis by (simp add: del fd_books_def)
  qed
qed

lemma tcp_connect_books:
  assumes c: "tcp_connect S t server port h w = Some (ok, t', h', w')"
    and r: "route h (tcp_conn t) ps" and b: "tcp_books oth lost t w"
  shows "heap_keys h' = heap_keys h \<and> hp_next h' = hp_next h \<and> tcp_conn t' = tcp_conn t
    \<and> (\<exists>lost'. tcp_books oth lost' t' w' \<and> (tcp_sock t = 0 \<and> socket_nonzero S \<longrightarrow> lost' = lost))"
proof -
  have p: "tcp_conn t \<noteq> 0" using r by (simp add: route_def)
  obtain ok1 s1 h1 w1 where 1: "conn_connect S (tcp_conn t) (tcp_sock t) server port h w = Some (ok1, s1, h1, w1)"
    using c p by (auto simp: tcp_connect_def split: bind_splits)
  have b0: "fd_books lost (tcp_sock t) w" using b by (simp add: tcp_books_def)
  from conn_connect_books [OF 1 r b0] obtain lost' where
    cc: "emits plain_call w w1" "heap_keys h1 = heap_keys h" "hp_next h1 = hp_next h"
      "fd_books lost' s1 w1" "tcp_sock t = 0 \<and> socket_nonzero S \<longrightarrow> lost' = lost" by blast
  let ?t = "t\<lparr>tcp_sock := s1\<rparr>"
  have kh: "emits keeps_handles w w1" by (rule emits_mono [OF cc(1)]) (rule plain_keeps_handles)
  have b1: "tcp_books oth lost' ?t w1"
    using b cc(4) tls_books_emits [OF kh] obj_books_emits [OF kh]
    by (simp add: tcp_books_def split: option.splits)
  show ?thesis
  proof (cases ok1)
    case False
    then show ?thesis
      using c p 1 b1 cc by (auto simp: tcp_connect_def Let_def split: option.splits)
  next
    case True
    obtain l where l: "tcp_comm ?t = Some l"
      using c p 1 True by (auto simp: tcp_connect_def Let_def split: option.splits)
    obtain bound l1 w2 where 2: "obj_bind S s1 l w1 = Some (bound, l1, w2)"
      using c p 1 True l by (auto simp: tcp_connect_def Let_def split: bind_splits)
    have "tcp_books oth lost' (?t\<lparr>tcp_comm := Some l1\<rparr>) w2" by (rule tcp_bind_books [OF 2 b1 l])
    then show ?thesis
      using c p 1 2 True l cc by (auto simp: tcp_connect_def Let_def split: if_splits)
  qed
qed

lemma tcp_setTimeout_inv:
  assumes st: "tcp_setTimeout n m t h = Some (t', h')" and ok: "heap_ok h"
  shows "links h' = links h \<and> hop_at h' = hop_at h \<and> hp_next h' = hp_next h
    \<and> tcp_conn t' = tcp_conn t \<and> tcp_sock t' = tcp_sock t \<and> (tcp_books oth lost t w \<longrightarrow> tcp_books oth lost t' w)"
proof (cases "tcp_conn t = 0")
  case True
  then show ?thesis using st by (auto simp: tcp_setTimeout_def Let_def)
next
  case False
  then obtain h1 where 1: "conn_setTimeout n m (tcp_conn t) h = Some h1"
    using st by (auto simp: tcp_setTimeout_def Let_def split: bind_splits)
  show ?thesis
    using st False 1 conn_setTimeout_defined [OF ok 1] by (auto simp: tcp_setTimeout_def Let_def)
qed

lemmas tcpclient_run [run] = tcp_new_def tcp_setError_def tcp_setTimeout_def tcp_setConnection_def
  tcp_setComm_def tcp_send_def tcp_sends_def tcp_read_def tcp_read_one_def reads_turn_def
  readline_turn_def tcp_reads_def tcp_readline_def tcp_connect_def closeDescriptor_def
  tcp_startSSL_def tcp_close_def tcp_delete_def

subsection \<open>The reading loops over a byte source\<close>

context byte_source
begin

lemma readline_loop:
  assumes "ok s"
  shows "\<exists>s'. forever (readline_turn rd) (buf, l, s)
       = Some (let (line, rest, found) = scan_line buf l (rx s)
               in (if found \<or> line \<noteq> [] then Some (c_str line) else None, line, s'))
     \<and> ok s' \<and> rx s' = fst (snd (scan_line buf l (rx s)))"
  using assms
proof (induction "rx s" arbitrary: s buf l)
  case Nil
  from rd_eof [OF Nil.prems Nil.hyps [symmetric]] obtain c s' where
    "rd s = Some (0, c, s')" "ok s'" "rx s' = []" by blast
  then show ?case by (simp add: forever_unfold(1) readline_turn_def Nil.hyps [symmetric])
next
  case (Cons b bs)
  from rd_byte [OF Cons.prems Cons.hyps(2) [symmetric]] obtain s' where
    s': "rd s = Some (1, b, s')" "ok s'" "rx s' = bs" by blast
  let ?buf = "if b \<noteq> LF \<and> b \<noteq> CR then buf @ [b] else buf"
  show ?case
  proof (cases "b = 0 \<or> b = LF \<and> l = CR")
    case True
    then have "readline_turn rd (buf, l, s) = Some (Inl (Some (c_str ?buf), ?buf, s'))"
      using s' by (auto simp: readline_turn_def Let_def)
    then have "forever (readline_turn rd) (buf, l, s) = Some (Some (c_str ?buf), ?buf, s')"
      by (rule forever_unfold(1))
    with True s' show ?thesis by (auto simp: Cons.hyps(2) [symmetric] Let_def)
  next
    case False
    then have "readline_turn rd (buf, l, s) = Some (Inr (?buf, b, s'))"
      using s' by (auto simp: readline_turn_def Let_def)
    then have "forever (readline_turn rd) (buf, l, s) = forever (readline_turn rd) (?buf, b, s')"
      by (rule forever_unfold(2))
    with Cons.hyps(1) [OF s'(3) [symmetric] s'(2), of ?buf b] False s'(3)
    show ?thesis by (auto simp: Cons.hyps(2) [symmetric] Let_def)
  qed
qed

lemma reads_loop:
  assumes "ok s"
  shows "\<exists>s'. forever (reads_turn rd) (buf, s)
       = Some (let (text, rest, found) = scan_all buf (rx s)
               in (if found \<or> text \<noteq> [] then Some (c_str text) else None, text, s'))
     \<and> ok s' \<and> rx s' = fst (snd (scan_all buf (rx s)))"
  using assms
proof (induction "rx s" arbitrary: s buf)
  case Nil
  from rd_eof [OF Nil.prems Nil.hyps [symmetric]] obtain c s' where
    "rd s = Some (0, c, s')" "ok s'" "rx s' = []" by blast
  then show ?case by (simp add: forever_unfold(1) reads_turn_def Nil.hyps [symmetric])
next
  case (Cons b bs)
  from rd_byte [OF Cons.prems Cons.hyps(2) [symmetric]] obtain s' where
    s': "rd s = Some (1, b, s')" "ok s'" "rx s' = bs" by blast
  show ?case
  proof (cases "b = 0")
    case True
    with s' show ?thesis
      by (simp add: forever_unfold(1) reads_turn_def Let_def Cons.hyps(2) [symmetric])
  next
    case False
    then have "reads_turn rd (buf, s) = Some (Inr (buf @ [b], s'))"
      using s' by (simp add: reads_turn_def Let_def)
    then have "forever (reads_turn rd) (buf, s) = forever (reads_turn rd) (buf @ [b], s')"
      by (rule forever_unfold(2))
    with Cons.hyps(1) [OF s'(3) [symmetric] s'(2), of "buf @ [b]"] False s'(3)
    show ?thesis by (simp add: Cons.hyps(2) [symmetric])
  qed
qed

end

text \<open>One byte from the client is a byte source when the layer is plain and the peer is prompt.\<close>

definition tcp_linked :: "'e sys \<Rightarrow> ('e \<Rightarrow> byte list) \<Rightarrow> int \<Rightarrow> tcp \<Rightarrow> bool" where
  "tcp_linked S rx fd t \<longleftrightarrow> (\<exists>c. tcp_comm t = Some (Normal_Comm c) \<and> linked S rx fd c)"

lemma tcp_read_prompt:
  assumes "tcp_linked S rx fd t" "0 \<le> n"
  shows "\<exists>t' w'. tcp_read S t n w
       = Some (if nat n \<le> length (rx (w_env w)) then n else 0, take (nat n) (rx (w_env w)), t', w')
     \<and> tcp_linked S rx fd t' \<and> rx (w_env w') = drop (nat n) (rx (w_env w))"
proof -
  obtain c where c: "tcp_comm t = Some (Normal_Comm c)" "linked S rx fd c"
    using assms(1) by (auto simp: tcp_linked_def)
  from normal_read_prompt [OF c(2) assms(2), of w] c(1) show ?thesis
    by (auto simp: tcp_read_def tcp_linked_def Let_def tcp_setError_def)
qed

interpretation tcp_stream: byte_source "tcp_read_one S" "\<lambda>(t, w). tcp_linked S rx fd t"
  "\<lambda>(t, w). rx (w_env w)" for S rx fd
proof (unfold_locales, goal_cases)
  case (1 s b bs)
  then show ?case
    using tcp_read_prompt [of S rx fd "fst s" 1 "snd s"]
    by (auto simp: tcp_read_one_def first_byte_def split: prod.splits)
next
  case (2 s)
  then show ?case
    using tcp_read_prompt [of S rx fd "fst s" 1 "snd s"]
    by (auto simp: tcp_read_one_def first_byte_def split: prod.splits)
qed

subsection \<open>Reading and sending with a prompt peer\<close>

lemma tcp_linked_fields [simp]:
  "tcp_linked S rx fd (t\<lparr>tcp_readbuffer := b\<rparr>) = tcp_linked S rx fd t"
  by (simp add: tcp_linked_def)

text \<open>Reading a line over a plain layer sends nothing.\<close>

definition layer_plain :: "tcp \<Rightarrow> bool" where
  "layer_plain t \<longleftrightarrow> (\<exists>c. tcp_comm t = Some (Normal_Comm c))"

lemma tcp_read_no_send:
  "tcp_read S t n w = Some (rc, bs, t', w') \<Longrightarrow> layer_plain t \<and> emits no_send w0 w \<Longrightarrow>
   layer_plain t' \<and> emits no_send w0 w'"
  by (auto simp: tcp_read_def layer_plain_def Let_def frame_back split: bind_splits if_splits)

lemma tcp_readline_no_send:
  assumes "tcp_readline S t w = Some (res, t', w')" "layer_plain t"
  shows "emits no_send w w'"
proof -
  have "layer_plain t' \<and> emits no_send w w'"
    by (rule tcp_loops_inv(2) [OF tcp_read_no_send _ _ assms(1)]) (simp_all add: layer_plain_def assms(2) [unfolded layer_plain_def])
  then show ?thesis by simp
qed

lemma tcp_readline_scan:
  assumes "tcp_linked S rx fd t" "scan_line [] 0 (rx (w_env w)) = (line, rest, found)"
  shows "\<exists>t' w'. tcp_readline S t w
       = Some (if found \<or> line \<noteq> [] then Some (c_str line) else None, t', w')
     \<and> tcp_linked S rx fd t' \<and> rx (w_env w') = rest \<and> tcp_readbuffer t' = line"
  using tcp_stream.readline_loop [of S rx fd "(t\<lparr>tcp_readbuffer := []\<rparr>, w)" "[]" 0] assms
  by (auto simp: tcp_readline_def)

lemma tcp_reads_scan:
  assumes "tcp_linked S rx fd t" "scan_all [] (rx (w_env w)) = (txt, rest, found)"
  shows "\<exists>t' w'. tcp_reads S t w
       = Some (if found \<or> txt \<noteq> [] then Some (c_str txt) else None, t', w')
     \<and> tcp_linked S rx fd t' \<and> rx (w_env w') = rest \<and> tcp_readbuffer t' = txt"
  using tcp_stream.reads_loop [of S rx fd "(t\<lparr>tcp_readbuffer := []\<rparr>, w)" "[]"] assms
  by (auto simp: tcp_reads_def)

lemma tcp_readline_crlf:
  assumes "tcp_linked S rx fd t" "rx (w_env w) = pre @ CR # LF # rest" "0 \<notin> set pre"
    and "\<not> sublist [CR, LF] (pre @ [CR])"
  shows "\<exists>t' w'. tcp_readline S t w = Some (Some (line_text pre), t', w')
     \<and> tcp_linked S rx fd t' \<and> rx (w_env w') = rest \<and> tcp_readbuffer t' = line_text pre"
  using tcp_readline_scan [OF assms(1), of w "line_text pre" rest True]
    scan_line_crlf [OF assms(3) no_crlf_zero [OF assms(4)], of "[]" rest] line_text_no_nul [OF assms(3)]
  by (simp add: assms(2) c_str_id)

text \<open>
  With a plain layer on a prompt peer, \<open>readline\<close> returns: if the bytes to come are \<open>pre\<close> and
  then CR LF, with no NUL and no earlier CR LF, the result is \<open>pre\<close> without its lone CR and LF
  bytes, and the stream is left just after the CR LF.
\<close>

theorem readline_returns_line:
  assumes "tcp_linked S rx fd t" "rx (w_env w) = pre @ CR # LF # rest" "0 \<notin> set pre"
    and "\<not> sublist [CR, LF] (pre @ [CR])"
  shows "\<exists>t' w'. tcp_readline S t w = Some (Some (line_text pre), t', w')
     \<and> tcp_linked S rx fd t' \<and> rx (w_env w') = rest \<and> tcp_readbuffer t' = line_text pre"
  using tcp_readline_crlf [OF assms] .


text \<open>
  \<open>reads\<close> returns everything up to the end of the stream or the first NUL, exactly as it came.
\<close>

theorem reads_returns_all:
  assumes "tcp_linked S rx fd t" "0 \<notin> set pre"
    and "rx (w_env w) = pre @ tail \<and> (tail = [] \<or> hd tail = 0)"
  shows "\<exists>t' w'. tcp_reads S t w = Some (if pre @ tail = [] then None else Some pre, t', w')
     \<and> rx (w_env w') = drop 1 tail"
proof (cases tail)
  case Nil
  then show ?thesis
    using tcp_reads_scan [OF assms(1), of w pre "[]" False] scan_all_eof [OF assms(2), of "[]"] assms(2,3)
    by (auto simp: c_str_id)
next
  case (Cons z rest)
  then show ?thesis
    using tcp_reads_scan [OF assms(1), of w "pre @ [0]" rest True] scan_all_nul [OF assms(2), of "[]" rest] assms(2,3)
    by (auto simp: c_str_nul)
qed

lemma tcp_sends_prompt:
  assumes t: "tcp_linked S rx fd t" and d: "d \<noteq> []" "length d < 2 ^ 31"
  shows "\<exists>t' w'. tcp_sends S t (Some d) w = Some (True, t', w') \<and> tcp_linked S rx fd t'
    \<and> rx (w_env w') = rx (w_env w) \<and> wire fd w' = wire fd w @ d"
proof -
  obtain c where c: "tcp_comm t = Some (Normal_Comm c)" "linked S rx fd c"
    using t by (auto simp: tcp_linked_def)
  from normal_send_prompt [OF c(2) d(1), of w] obtain w' where
    "normal_send S c d w = Some (int (length d), c, w')" "rx (w_env w') = rx (w_env w)"
    "wire fd w' = wire fd w @ d" by blast
  moreover have "int32 (int (length d)) = int (length d)" using d(2) by (simp add: int32_id)
  ultimately show ?thesis
    using c d by (auto simp: tcp_sends_def c_slice_id tcp_linked_def Let_def)
qed

text \<open>Worked examples: a client bound to descriptor 3 of \<open>stream_sys\<close>.\<close>

definition demo_tcp :: tcp where
  "demo_tcp = tcp_new\<lparr>tcp_comm := Some (Normal_Comm (comm_new\<lparr>comm_sock := 3\<rparr>)), tcp_sock := 3\<rparr>"

lemma demo_linked: "tcp_linked stream_sys (\<lambda>bs. bs) 3 demo_tcp"
  by (simp add: tcp_linked_def linked_def prompt_stream demo_tcp_def)

lemma readline_returns_line_witness:
  "\<exists>t' w'. tcp_readline stream_sys demo_tcp (start [104, 105, 13, 10, 120]) = Some (Some [104, 105], t', w')
     \<and> tcp_linked stream_sys (\<lambda>bs. bs) 3 t' \<and> w_env w' = [120] \<and> tcp_readbuffer t' = [104, 105]"
  using readline_returns_line [OF demo_linked, of "start [104, 105, 13, 10, 120]" "[104, 105]" "[120]"]
  by (simp add: start_def sublist_Cons_right line_text_def)


lemma reads_returns_all_witness:
  "\<exists>t' w'. tcp_reads stream_sys demo_tcp (start [104, 13, 10, 105]) = Some (Some [104, 13, 10, 105], t', w')
     \<and> w_env w' = []"
  using reads_returns_all [OF demo_linked, of "[104, 13, 10, 105]" "start [104, 13, 10, 105]" "[]"]
  by (simp add: start_def)

end
