(* ===== verification/SocketImpl.thy ===== *)
theory SocketImpl
  imports TCPClient
begin

text \<open>
  \<open>Rude_SocketImpl\<close> (src/src/rude_socketimpl.h, rude_socketimpl.cpp): the implementation behind
  \<open>Socket\<close>. \<open>im_lastconnect\<close> is the raw pointer to the head of the proxy chain; \<open>connect\<close> hands
  it to the fresh connector as its child and keeps it as well.
\<close>

record impl =
  im_tcp :: tcp
  im_lastconnect :: nat
  im_sslverify :: bool
  im_sslerror :: string
  im_lastserver :: string

definition impl_new :: impl where
  "impl_new = \<lparr>im_tcp = tcp_new, im_lastconnect = 0, im_sslverify = True, im_sslerror = [],
               im_lastserver = []\<rparr>"

definition impl_setTimeout :: "int \<Rightarrow> int \<Rightarrow> impl \<Rightarrow> heap \<Rightarrow> (impl \<times> heap) option" where
  "impl_setTimeout seconds microseconds i h = do {
     (t, h) \<leftarrow> tcp_setTimeout seconds microseconds (im_tcp i) h;
     Some (i\<lparr>im_tcp := t\<rparr>, h)
   }"

definition impl_getError :: "impl \<Rightarrow> string" where
  "impl_getError i = (if im_sslerror i \<noteq> [] then im_sslerror i else tcp_error (im_tcp i))"

definition impl_setSSLVerify :: "bool \<Rightarrow> impl \<Rightarrow> impl" where
  "impl_setSSLVerify v i = i\<lparr>im_sslverify := v\<rparr>"

text \<open>
  What \<open>connect\<close> and \<open>connectSSL\<close> share: a fresh connector over the chain (no system call is made
  up to here), then the given layer, then the connection.
\<close>

definition impl_prepare :: "impl \<Rightarrow> heap \<Rightarrow> (tcp \<times> heap) option" where
  "impl_prepare i h = do {
     let (normalconnect, h) = heap_new (Obj_Normal conn_new) h;
     h \<leftarrow> conn_setChild normalconnect (im_lastconnect i) h;
     tcp_setConnection normalconnect (im_tcp i) h
   }"

definition impl_connect_with ::
  "'e sys \<Rightarrow> comm_obj \<Rightarrow> impl \<Rightarrow> string option \<Rightarrow> int \<Rightarrow> heap \<Rightarrow> 'e world \<Rightarrow>
   (bool \<times> impl \<times> heap \<times> 'e world) option" where
  "impl_connect_with S comm i server port h w = do {
     (t, h) \<leftarrow> impl_prepare i h;
     (t, w) \<leftarrow> tcp_setComm S comm t w;
     (ok, t, h, w) \<leftarrow> tcp_connect S t server port h w;
     Some (ok, i\<lparr>im_tcp := t\<rparr>, h, w)
   }"

definition impl_connect ::
  "'e sys \<Rightarrow> impl \<Rightarrow> string option \<Rightarrow> int \<Rightarrow> heap \<Rightarrow> 'e world \<Rightarrow>
   (bool \<times> impl \<times> heap \<times> 'e world) option" where
  "impl_connect S i server port h w =
     (let i = i\<lparr>im_sslerror := [], im_lastserver := host_of server\<rparr>
      in impl_connect_with S (Normal_Comm comm_new) i server port h w)"

definition impl_connectSSL ::
  "'e sys \<Rightarrow> impl \<Rightarrow> string option \<Rightarrow> int \<Rightarrow> heap \<Rightarrow> 'e world \<Rightarrow>
   (bool \<times> impl \<times> heap \<times> 'e world) option" where
  "impl_connectSSL S i server port h w =
     (let i = i\<lparr>im_sslerror := [], im_lastserver := host_of server\<rparr>
      in if using_openssl (sys_build S)
         then impl_connect_with S
                (SSH_Comm (ssh_setVerifyPeer (im_sslverify i) (ssh_setHostname server ssh_new)))
                i server port h w
         else Some (False, i\<lparr>im_sslerror := ''RudeSocket was built without SSL support - connectSSL() is unavailable. Rebuild with OpenSSL (RUDESOCKET_WITH_SSL=ON).''\<rparr>, h, w))"

definition impl_startSSL :: "'e sys \<Rightarrow> impl \<Rightarrow> 'e world \<Rightarrow> (bool \<times> impl \<times> 'e world) option" where
  "impl_startSSL S i w =
     (let i = i\<lparr>im_sslerror := []\<rparr>
      in if using_openssl (sys_build S)
         then do {
           (ok, t, w) \<leftarrow> tcp_startSSL S (im_tcp i) (Some (im_lastserver i)) (im_sslverify i) w;
           Some (ok, i\<lparr>im_tcp := t\<rparr>, w)
         }
         else Some (False, i\<lparr>im_sslerror := ''RudeSocket was built without SSL support - startSSL() is unavailable. Rebuild with OpenSSL (RUDESOCKET_WITH_SSL=ON).''\<rparr>, w))"

text \<open>The end of every \<open>insert...\<close>: the fresh connector becomes the head of the chain.\<close>

definition impl_insert :: "conn_obj \<Rightarrow> impl \<Rightarrow> heap \<Rightarrow> (bool \<times> impl \<times> heap) option" where
  "impl_insert x i h = do {
     let (tunnel, h) = heap_new x h;
     if im_lastconnect i \<noteq> 0
     then do {
       h \<leftarrow> conn_setChild tunnel (im_lastconnect i) h;
       Some (True, i\<lparr>im_lastconnect := tunnel\<rparr>, h)
     }
     else Some (True, i\<lparr>im_lastconnect := tunnel\<rparr>, h)
   }"

definition impl_insertTunnel ::
  "string option \<Rightarrow> int \<Rightarrow> impl \<Rightarrow> heap \<Rightarrow> (bool \<times> impl \<times> heap) option" where
  "impl_insertTunnel server port =
     impl_insert (Obj_Tunnel (conn_setPort port (conn_setServer server conn_new)))"

definition impl_insertSocks4 ::
  "string option \<Rightarrow> int \<Rightarrow> string option \<Rightarrow> impl \<Rightarrow> heap \<Rightarrow> (bool \<times> impl \<times> heap) option" where
  "impl_insertSocks4 server port username =
     impl_insert (Obj_Socks4 (socks4_setUsername username
                               (conn_setPort port (conn_setServer server socks4_new))))"

definition impl_insertSocks5 ::
  "string option \<Rightarrow> int \<Rightarrow> string option \<Rightarrow> string option \<Rightarrow> impl \<Rightarrow> heap \<Rightarrow>
   (bool \<times> impl \<times> heap) option" where
  "impl_insertSocks5 server port username password =
     impl_insert (Obj_Socks5 (socks5_setPassword password (socks5_setUsername username
                               (conn_setPort port (conn_setServer server socks5_new)))))"

definition impl_insertProxy ::
  "string option \<Rightarrow> int \<Rightarrow> impl \<Rightarrow> heap \<Rightarrow> (bool \<times> impl \<times> heap) option" where
  "impl_insertProxy server port =
     impl_insert (Obj_Proxy (conn_setPort port (conn_setServer server proxy_new)))"

definition impl_send :: "'e sys \<Rightarrow> impl \<Rightarrow> byte list \<Rightarrow> 'e world \<Rightarrow> (int \<times> impl \<times> 'e world) option" where
  "impl_send S i d w =
     do { (rc, t, w) \<leftarrow> tcp_send S (im_tcp i) d w; Some (rc, i\<lparr>im_tcp := t\<rparr>, w) }"

definition impl_read ::
  "'e sys \<Rightarrow> impl \<Rightarrow> int \<Rightarrow> 'e world \<Rightarrow> (int \<times> byte list \<times> impl \<times> 'e world) option" where
  "impl_read S i n w =
     do { (rc, bs, t, w) \<leftarrow> tcp_read S (im_tcp i) n w; Some (rc, bs, i\<lparr>im_tcp := t\<rparr>, w) }"

definition impl_reads :: "'e sys \<Rightarrow> impl \<Rightarrow> 'e world \<Rightarrow> (byte list option \<times> impl \<times> 'e world) option" where
  "impl_reads S i w =
     do { (res, t, w) \<leftarrow> tcp_reads S (im_tcp i) w; Some (res, i\<lparr>im_tcp := t\<rparr>, w) }"

definition impl_readline ::
  "'e sys \<Rightarrow> impl \<Rightarrow> 'e world \<Rightarrow> (byte list option \<times> impl \<times> 'e world) option" where
  "impl_readline S i w =
     do { (res, t, w) \<leftarrow> tcp_readline S (im_tcp i) w; Some (res, i\<lparr>im_tcp := t\<rparr>, w) }"

definition impl_sends ::
  "'e sys \<Rightarrow> impl \<Rightarrow> byte list option \<Rightarrow> 'e world \<Rightarrow> (bool \<times> impl \<times> 'e world) option" where
  "impl_sends S i b w =
     do { (ok, t, w) \<leftarrow> tcp_sends S (im_tcp i) b w; Some (ok, i\<lparr>im_tcp := t\<rparr>, w) }"

definition impl_close :: "'e sys \<Rightarrow> impl \<Rightarrow> 'e world \<Rightarrow> (bool \<times> impl \<times> 'e world) option" where
  "impl_close S i w =
     do { (ok, t, w) \<leftarrow> tcp_close S (im_tcp i) w; Some (ok, i\<lparr>im_tcp := t\<rparr>, w) }"

text \<open>The destructor has an empty body: only the members are destroyed.\<close>

definition impl_delete :: "'e sys \<Rightarrow> impl \<Rightarrow> heap \<Rightarrow> 'e world \<Rightarrow> (heap \<times> 'e world) option" where
  "impl_delete S i h w = tcp_delete S (im_tcp i) h w"

subsection \<open>Ownership of the connectors\<close>

text \<open>Adding an object, and stores that agree below a bound.\<close>

lemma heap_new_simps [simp]:
  "fst (heap_new x h) = hp_next h"
  "links (snd (heap_new x h)) = (links h)(hp_next h \<mapsto> conn_child (base_of x))"
  "class_at (snd (heap_new x h)) = (class_at h)(hp_next h \<mapsto> class_of x)"
  "hop_at (snd (heap_new x h)) = (hop_at h)(hp_next h \<mapsto> hop_key x)"
  "hp_next (snd (heap_new x h)) = Suc (hp_next h)"
  "hp_objs (snd (heap_new x h)) (hp_next h) = Some x"
  by (auto simp: heap_new_def links_def class_at_def hop_at_def)

lemma chain_live: "heap_ok h \<Longrightarrow> chain (links h) p ps \<Longrightarrow> q \<in> set ps \<Longrightarrow> q < hp_next h"
  using chain_bound [of "links h" p ps q] heap_okD [of h q] by auto

lemma chain_mono:
  "(\<And>q n. l q = Some n \<Longrightarrow> l' q = Some n) \<Longrightarrow> chain l p ps \<Longrightarrow> chain l' p ps"
  by (induction ps arbitrary: p) (fastforce split: option.splits)+

definition heap_below :: "heap \<Rightarrow> heap \<Rightarrow> bool" where
  "heap_below h h' \<longleftrightarrow> (\<forall>q < hp_next h. links h' q = links h q \<and> class_at h' q = class_at h q)"

lemma proxies_below:
  assumes "heap_ok h" "heap_below h h'"
  shows "proxies h p ps \<Longrightarrow> proxies h' p ps" "route h p ps \<Longrightarrow> route h' p ps"
proof -
  have same: "links h' q = links h q" "class_at h' q = class_at h q"
    if "chain (links h) p' qs" "q \<in> set qs" for p' qs q
    using assms chain_live [OF assms(1) that] by (auto simp: heap_below_def)
  show "proxies h p ps \<Longrightarrow> proxies h' p ps"
    using chain_cong [of ps "links h'" "links h" p] same [of p ps] by (auto simp: proxies_def)
  show "route h p ps \<Longrightarrow> route h' p ps"
    using chain_cong [of "p # ps" "links h'" "links h" p] same [of p "p # ps"]
    by (auto simp: route_def simp del: chain.simps)
qed

text \<open>
  The invariant of the implementation: the proxies of the next connection form a chain, and so
  do the connector of the last connection and its proxies.
\<close>

definition impl_ok :: "impl \<Rightarrow> heap \<Rightarrow> bool" where
  "impl_ok i h \<longleftrightarrow> heap_ok h \<and> (\<exists>qs. proxies h (im_lastconnect i) qs)
     \<and> (tcp_conn (im_tcp i) = 0 \<or> (\<exists>ps. route h (tcp_conn (im_tcp i)) ps))"

lemma impl_ok_new: "impl_ok impl_new heap_empty"
  by (simp add: impl_ok_def impl_new_def tcp_new_def heap_ok_def proxies_def)
    (simp add: heap_empty_def)

lemma impl_ok_cong:
  "links h' = links h \<Longrightarrow> class_at h' = class_at h \<Longrightarrow> hp_next h' = hp_next h \<Longrightarrow>
   im_lastconnect i' = im_lastconnect i \<Longrightarrow> tcp_conn (im_tcp i') = tcp_conn (im_tcp i) \<Longrightarrow>
   impl_ok i' h' = impl_ok i h"
  by (simp add: impl_ok_def heap_ok_def proxies_def route_def)

lemma conn_setChild_fresh:
  "hp_objs h p = Some x \<Longrightarrow> conn_child (base_of x) = 0 \<Longrightarrow>
   conn_setChild p c h = Some (heap_put p (map_base (\<lambda>b. b\<lparr>conn_child := c\<rparr>) x) h)"
  by (simp add: conn_setChild_def)

lemma class_at_put: "class_at (heap_put p x h) = (class_at h)(p \<mapsto> class_of x)"
  by (auto simp: class_at_def heap_put_def)

lemma hop_at_put: "hop_at (heap_put p x h) = (hop_at h)(p \<mapsto> hop_key x)"
  by (auto simp: hop_at_def heap_put_def)

lemma map_base_child:
  "conn_child (base_of x) = c \<Longrightarrow> map_base (\<lambda>b. b\<lparr>conn_child := c\<rparr>) x = x"
proof (cases x)
  case (Obj_Proxy y)
  then show "conn_child (base_of x) = c \<Longrightarrow> ?thesis" by (cases y) (simp add: conn.defs)
next
  case (Obj_Socks4 y)
  then show "conn_child (base_of x) = c \<Longrightarrow> ?thesis" by (cases y) (simp add: conn.defs)
next
  case (Obj_Socks5 y)
  then show "conn_child (base_of x) = c \<Longrightarrow> ?thesis" by (cases y) (simp add: conn.defs)
qed simp_all

text \<open>Inserting a proxy always works; the new proxy becomes the head.\<close>

lemma impl_insert_ok:
  assumes ok: "impl_ok i h" and x: "conn_child (base_of x) = 0" "class_of x \<noteq> Class_Normal"
    and qs: "proxies h (im_lastconnect i) qs"
  shows "\<exists>h'. impl_insert x i h = Some (True, i\<lparr>im_lastconnect := hp_next h\<rparr>, h')
    \<and> impl_ok (i\<lparr>im_lastconnect := hp_next h\<rparr>) h' \<and> proxies h' (hp_next h) (hp_next h # qs)
    \<and> hp_objs h' (hp_next h) = Some (map_base (\<lambda>b. b\<lparr>conn_child := im_lastconnect i\<rparr>) x)
    \<and> (\<forall>q < hp_next h. hp_objs h' q = hp_objs h q)"
proof -
  let ?p = "hp_next h"
  obtain h1 where new: "heap_new x h = (?p, h1)" by (simp add: heap_new_def)
  have h1: "links h1 = (links h)(?p \<mapsto> conn_child (base_of x))"
    "class_at h1 = (class_at h)(?p \<mapsto> class_of x)" "hp_next h1 = Suc ?p"
    "hp_objs h1 = (hp_objs h)(?p \<mapsto> x)"
    using heap_new_simps [of x h] new by (auto simp: heap_new_def)
  let ?x = "map_base (\<lambda>b. b\<lparr>conn_child := im_lastconnect i\<rparr>) x"
  let ?h = "heap_put ?p ?x h1" and ?i = "i\<lparr>im_lastconnect := ?p\<rparr>"
  have hok: "heap_ok h" "0 < ?p" using ok by (auto simp: impl_ok_def heap_ok_def)
  have L: "im_lastconnect i < ?p"
    using qs chain_live [OF hok(1), of "im_lastconnect i" qs "im_lastconnect i"] hok(2)
    by (cases qs) (auto simp: proxies_def)
  have eq: "impl_insert x i h = Some (True, ?i, ?h)"
  proof (cases "im_lastconnect i = 0")
    case True
    then have "?h = h1"
      using map_base_child [OF x(1)] h1(4) by (cases h1) (simp add: heap_put_def)
    then show ?thesis using True by (simp add: impl_insert_def new)
  next
    case False
    then show ?thesis using x(1) h1(4) conn_setChild_fresh [of h1 ?p x] by (simp add: impl_insert_def new)
  qed
  define h' where "h' = ?h"
  have links: "links h' = (links h)(?p \<mapsto> im_lastconnect i)" by (simp add: h'_def h1 fun_eq_iff)
  have cls: "class_at h' = (class_at h)(?p \<mapsto> class_of x)" by (simp add: h'_def h1 class_at_put fun_eq_iff)
  have next': "hp_next h' = Suc ?p" by (simp add: h'_def h1)
  have below: "heap_below h h'" by (simp add: heap_below_def links cls)
  have hok': "heap_ok h'" using hok L by (auto simp: heap_ok_def links next' less_SucI)
  have px0: "proxies h' (im_lastconnect i) qs" by (rule proxies_below(1) [OF hok(1) below qs])
  then have px: "proxies h' ?p (?p # qs)"
    using hok(2) L x(2) by (auto simp: proxies_def links cls)
  moreover have "impl_ok ?i h'"
    unfolding impl_ok_def using ok hok' px proxies_below(2) [OF hok(1) below]
    by (auto simp: impl_ok_def)
  moreover have "hp_objs h' ?p = Some ?x" "\<forall>q < ?p. hp_objs h' q = hp_objs h q"
    by (simp_all add: h'_def h1)
  ultimately show ?thesis using eq by (auto simp: h'_def [symmetric])
qed

text \<open>What \<open>connect\<close> does to the store before it makes a call: \<open>F\<close> are the objects it frees.\<close>

definition connected :: "impl \<Rightarrow> heap \<Rightarrow> nat list \<Rightarrow> bool" where
  "connected i h fs \<longleftrightarrow> (if tcp_conn (im_tcp i) = 0 then fs = []
     else (\<exists>ps. route h (tcp_conn (im_tcp i)) ps \<and> fs = tcp_conn (im_tcp i) # ps))"

lemma impl_ok_connected: "impl_ok i h \<Longrightarrow> \<exists>fs. connected i h fs"
  by (cases "tcp_conn (im_tcp i) = 0") (auto simp: impl_ok_def connected_def)

lemma connected_chain: "connected i h fs \<Longrightarrow> chain (links h) (tcp_conn (im_tcp i)) fs"
  by (auto simp: connected_def route_def split: if_splits)

lemma links_class_restrict:
  "links (h\<lparr>hp_objs := hp_objs h |` A\<rparr>) = links h |` A"
  "hop_at (h\<lparr>hp_objs := hp_objs h |` A\<rparr>) = hop_at h |` A"
  by (auto simp: links_def hop_at_def restrict_map_def fun_eq_iff)

lemma conn_new_child: "conn_child conn_new = 0"
  by (simp add: conn_new_def)

lemma hop_key_new: "hop_key (Obj_Normal conn_new) = (Class_Normal, [], 0)"
  "hop_key (Obj_Normal (conn_new\<lparr>conn_child := c\<rparr>)) = (Class_Normal, [], 0)"
  "hop_key (map_base (\<lambda>b. b\<lparr>conn_child := c\<rparr>) x) = hop_key x"
  by (simp_all add: hop_key_def conn_new_def)

lemma impl_prepare_eq:
  assumes ok: "impl_ok i h" and fs: "connected i h fs"
  shows "\<exists>h3. impl_prepare i h = map_option (\<lambda>h'. ((im_tcp i)\<lparr>tcp_conn := hp_next h\<rparr>, h'))
      (conn_setTimeout (tcp_tsecs (im_tcp i)) (tcp_tmilli (im_tcp i)) (hp_next h) h3)
    \<and> links h3 = ((links h)(hp_next h \<mapsto> im_lastconnect i)) |` (- set fs)
    \<and> hop_at h3 = ((hop_at h)(hp_next h \<mapsto> (Class_Normal, [], 0))) |` (- set fs)
    \<and> hp_next h3 = Suc (hp_next h)"
proof -
  let ?p = "hp_next h" and ?t = "im_tcp i"
  obtain h1 where new: "heap_new (Obj_Normal conn_new) h = (?p, h1)" by (simp add: heap_new_def)
  have h1: "links h1 = (links h)(?p \<mapsto> 0)" "hop_at h1 = (hop_at h)(?p \<mapsto> (Class_Normal, [], 0))"
    "hp_next h1 = Suc ?p" "hp_objs h1 ?p = Some (Obj_Normal conn_new)"
    using heap_new_simps [of "Obj_Normal conn_new" h] by (simp_all add: new conn_new_child hop_key_new)
  define h2 where "h2 = heap_put ?p (map_base (\<lambda>b. b\<lparr>conn_child := im_lastconnect i\<rparr>) (Obj_Normal conn_new)) h1"
  have c2: "conn_setChild ?p (im_lastconnect i) h1 = Some h2"
    unfolding h2_def by (rule conn_setChild_fresh [OF h1(4)]) (simp add: conn_new_child)
  have h2: "links h2 = (links h)(?p \<mapsto> im_lastconnect i)"
    "hop_at h2 = (hop_at h)(?p \<mapsto> (Class_Normal, [], 0))" "hp_next h2 = Suc ?p"
    by (simp_all add: h2_def h1 hop_at_put hop_key_new fun_eq_iff)
  have hok: "heap_ok h" using ok by (simp add: impl_ok_def)
  have "?p \<notin> set fs" using chain_live [OF hok connected_chain [OF fs]] by blast
  then have ch: "chain (links h2) (tcp_conn ?t) fs"
    using connected_chain [OF fs] by (simp add: h2 chain_upd)
  define h3 where "h3 = h2\<lparr>hp_objs := hp_objs h2 |` (- set fs)\<rparr>"
  have h3: "links h3 = links h2 |` (- set fs)" "hop_at h3 = hop_at h2 |` (- set fs)"
    "hp_next h3 = Suc ?p"
    by (simp_all add: h3_def links_class_restrict h2)
  have del: "(if tcp_conn ?t \<noteq> 0 then conn_delete (tcp_conn ?t) h2 else Some h2) = Some h3"
    using conn_delete_chain [OF ch] conn_delete.simps [of 0 h2] by (auto simp: h3_def)
  have "impl_prepare i h = map_option (\<lambda>h'. (?t\<lparr>tcp_conn := ?p\<rparr>, h'))
      (conn_setTimeout (tcp_tsecs ?t) (tcp_tmilli ?t) ?p h3)"
    using del
    by (cases "conn_setTimeout (tcp_tsecs ?t) (tcp_tmilli ?t) ?p h3")
      (simp_all add: impl_prepare_def new c2 tcp_setConnection_def)
  then show ?thesis using h3 h2 by (intro exI [of _ h3]) simp
qed

lemma impl_prepare_returns:
  assumes ok: "impl_ok i h" and qs: "proxies h (im_lastconnect i) qs" and fs: "connected i h fs"
    and disj: "set qs \<inter> set fs = {}"
  shows "\<exists>t' h'. impl_prepare i h = Some (t', h')"
proof -
  let ?p = "hp_next h"
  obtain h3 where h3: "impl_prepare i h = map_option (\<lambda>h'. ((im_tcp i)\<lparr>tcp_conn := ?p\<rparr>, h'))
      (conn_setTimeout (tcp_tsecs (im_tcp i)) (tcp_tmilli (im_tcp i)) ?p h3)"
    "links h3 = ((links h)(?p \<mapsto> im_lastconnect i)) |` (- set fs)"
    using impl_prepare_eq [OF ok fs] by blast
  have hok: "heap_ok h" "0 < ?p" using ok by (auto simp: impl_ok_def heap_ok_def)
  have ch: "chain (links h) (im_lastconnect i) qs" using qs by (simp add: proxies_def)
  have notp: "?p \<notin> set qs" "?p \<notin> set fs"
    using chain_live [OF hok(1) ch] chain_live [OF hok(1) connected_chain [OF fs]] by blast+
  have L: "im_lastconnect i < ?p"
    using ch chain_live [OF hok(1), of "im_lastconnect i" qs "im_lastconnect i"] hok(2)
    by (cases qs) auto
  have "links h3 q = links h q" if "q \<in> set qs" for q
    using that disj notp by (auto simp: h3(2) restrict_map_def)
  then have "chain (links h3) (im_lastconnect i) qs" using ch chain_cong by blast
  then have "chain (links h3) ?p (?p # qs)" using hok(2) L notp(2) by (simp add: h3(2))
  from conn_setTimeout_chain [OF this] hok(2) h3(1) show ?thesis by force
qed

lemma impl_prepare_ok:
  assumes ok: "impl_ok i h" and qs: "proxies h (im_lastconnect i) qs" and fs: "connected i h fs"
    and prep: "impl_prepare i h = Some (t', h')"
  shows "route h' (hp_next h) qs \<and> proxies h' (im_lastconnect i) qs \<and> heap_ok h'
    \<and> t' = (im_tcp i)\<lparr>tcp_conn := hp_next h\<rparr> \<and> set qs \<inter> set fs = {}
    \<and> hop_at h' (hp_next h) = Some (Class_Normal, [], 0) \<and> (\<forall>q \<in> set qs. hop_at h' q = hop_at h q)"
proof -
  let ?p = "hp_next h"
  obtain h3 where h3: "impl_prepare i h = map_option (\<lambda>h'. ((im_tcp i)\<lparr>tcp_conn := ?p\<rparr>, h'))
      (conn_setTimeout (tcp_tsecs (im_tcp i)) (tcp_tmilli (im_tcp i)) ?p h3)"
    "links h3 = ((links h)(?p \<mapsto> im_lastconnect i)) |` (- set fs)"
    "hop_at h3 = ((hop_at h)(?p \<mapsto> (Class_Normal, [], 0))) |` (- set fs)" "hp_next h3 = Suc ?p"
    using impl_prepare_eq [OF ok fs] by blast
  have hok: "heap_ok h" "0 < ?p" using ok by (auto simp: impl_ok_def heap_ok_def)
  have L: "im_lastconnect i < ?p"
    using qs chain_live [OF hok(1), of "im_lastconnect i" qs "im_lastconnect i"] hok(2)
    by (cases qs) (auto simp: proxies_def)
  have ok3: "heap_ok h3"
    using hok L by (auto simp: heap_ok_def h3 restrict_map_def less_SucI split: if_splits)
  have st: "conn_setTimeout (tcp_tsecs (im_tcp i)) (tcp_tmilli (im_tcp i)) ?p h3 = Some h'"
    and t': "t' = (im_tcp i)\<lparr>tcp_conn := ?p\<rparr>"
    using prep h3(1) by auto
  from conn_setTimeout_defined [OF ok3 st] obtain ps where
    ps: "ps \<noteq> []" "chain (links h3) ?p ps" and
    same: "links h' = links h3" "hp_next h' = hp_next h3" "hop_at h' = hop_at h3" by blast
  from ps obtain qs' where qs': "ps = ?p # qs'" "?p \<notin> set fs" "chain (links h3) (im_lastconnect i) qs'"
    by (cases ps) (auto simp: h3(2) restrict_map_def split: if_splits option.splits)
  have notp: "?p \<notin> set qs'" using chain_below ps(2) qs'(1) by blast
  have "chain ((links h)(?p \<mapsto> im_lastconnect i)) (im_lastconnect i) qs'"
    by (rule chain_mono [OF _ qs'(3)]) (auto simp: h3(2) restrict_map_def split: if_splits)
  then have "chain (links h) (im_lastconnect i) qs'" using notp by (simp add: chain_upd)
  then have "qs' = qs" using qs chain_unique by (auto simp: proxies_def)
  moreover have disj: "q \<notin> set fs" if "q \<in> set qs'" for q
    using chain_bound [OF qs'(3) that] by (auto simp: h3(2) restrict_map_def)
  moreover have hop: "hop_at h' q = hop_at h q" if "q \<in> set qs" for q
    using that notp \<open>qs' = qs\<close> disj [of q] by (auto simp: same(3) h3(3) restrict_map_def)
  moreover have "class_at h' q \<noteq> Some Class_Normal" if "q \<in> set qs" for q
    using that qs hop [of q] by (auto simp: class_at_hop proxies_def)
  moreover have "hop_at h' ?p = Some (Class_Normal, [], 0)" using qs'(2) by (simp add: same(3) h3(3))
  moreover from this have "class_at h' ?p = Some Class_Normal" by (simp add: class_at_hop)
  moreover have "heap_ok h'" using ok3 same by (simp add: heap_ok_def)
  ultimately show ?thesis
    using ps qs' same t' hok(2) by (auto simp: route_def proxies_def simp del: chain.simps)
qed

text \<open>If the connector of the last connection owns a proxy still in the chain, that proxy is freed
  and then used.\<close>

lemma impl_prepare_dangling:
  assumes ok: "impl_ok i h" and qs: "proxies h (im_lastconnect i) qs"
    and fs: "connected i h fs" and q: "q \<in> set fs" "q \<in> set qs"
  shows "impl_prepare i h = None"
  using impl_prepare_ok [OF ok qs fs] q by (cases "impl_prepare i h") auto

text \<open>The implementation's operations keep the invariant and the books.\<close>

lemma new_child [simp]:
  "conn_child (conn_setPort p c) = conn_child c" "conn_child (conn_setServer sv c) = conn_child c"
  "conn_child (socks4_setUsername u p4) = conn_child p4"
  "conn_child (socks5_setUsername u p5) = conn_child p5"
  "conn_child (socks5_setPassword u p5) = conn_child p5"
  "conn_child conn_new = 0" "conn_child proxy_new = 0" "conn_child socks4_new = 0" "conn_child socks5_new = 0"
  by (simp_all add: conn_setPort_def conn_setServer_def socks4_setUsername_def socks5_setUsername_def
      socks5_setPassword_def conn_new_def proxy_new_def socks4_new_def socks5_new_def conn.defs)

lemma impl_ok_same: "im_lastconnect i' = im_lastconnect i \<Longrightarrow> tcp_conn (im_tcp i') = tcp_conn (im_tcp i) \<Longrightarrow>
   impl_ok i' h = impl_ok i h"
  by (rule impl_ok_cong) simp_all

lemma insert_step_inv:
  assumes "impl_insert x i h = Some (ok, i', h')" "impl_ok i h"
    and "conn_child (base_of x) = 0" "class_of x \<noteq> Class_Normal"
  shows "impl_ok i' h' \<and> im_tcp i' = im_tcp i"
proof -
  obtain qs where "proxies h (im_lastconnect i) qs" using assms(2) by (auto simp: impl_ok_def)
  from impl_insert_ok [OF assms(2-4) this] assms(1) show ?thesis by auto
qed

lemma impl_connect_with_books:
  fixes w :: "'e world"
  assumes c: "impl_connect_with S comm i server port h w = Some (ok, i', h', w')"
    and inv: "impl_ok i h" and b: "tcp_books oth lost (im_tcp i) w"
    and fresh: "\<And>w :: 'e world. tls_books oth {#} {#} w \<Longrightarrow> obj_books oth comm w"
  shows "impl_ok i' h' \<and> im_lastconnect i' = im_lastconnect i
    \<and> (\<exists>t1 h1. impl_prepare i h = Some (t1, h1) \<and> links h' = links h1 \<and> class_at h' = class_at h1
         \<and> tcp_conn (im_tcp i') = tcp_conn t1)
    \<and> (\<exists>lost'. tcp_books oth lost' (im_tcp i') w'
         \<and> (tcp_sock (im_tcp i) = 0 \<and> socket_nonzero S \<longrightarrow> lost' = lost))"
proof -
  obtain qs fs where qs: "proxies h (im_lastconnect i) qs" and fs: "connected i h fs"
    using inv impl_ok_connected [OF inv] by (auto simp: impl_ok_def)
  obtain t1 h1 where 1: "impl_prepare i h = Some (t1, h1)"
    using c by (auto simp: impl_connect_with_def split: bind_splits)
  obtain t2 w2 where 2: "tcp_setComm S comm t1 w = Some (t2, w2)"
    using c 1 by (auto simp: impl_connect_with_def split: bind_splits)
  obtain t3 w3 where 3: "tcp_connect S t2 server port h1 w2 = Some (ok, t3, h', w')" "i' = i\<lparr>im_tcp := t3\<rparr>"
    using c 1 2 by (auto simp: impl_connect_with_def split: bind_splits)
  note pre = impl_prepare_ok [OF inv qs fs 1]
  have b1: "tcp_books oth lost t1 w" using b pre by simp
  from tcp_setComm_books [OF 2 b1 fresh]
  have b2: "tcp_books oth lost t2 w2" "tcp_conn t2 = hp_next h" "tcp_sock t2 = tcp_sock (im_tcp i)"
    using pre by auto
  have r: "route h1 (tcp_conn t2) qs" using pre b2 by simp
  note tc = tcp_connect_books [OF 3(1) r b2(1)]
  have same: "links h' = links h1" "class_at h' = class_at h1" "hp_next h' = hp_next h1"
    using tc links_keys [of h' h1] class_at_keys [of h' h1] by simp_all
  have "impl_ok (i\<lparr>im_tcp := t3\<rparr>) h1"
    using pre tc b2(2) r unfolding impl_ok_def by auto
  then have "impl_ok i' h'" using impl_ok_cong [OF same] 3(2) by blast
  then show ?thesis using tc 1 same 3(2) b2 pre by auto
qed

lemmas socketimpl_run [run] = impl_new_def impl_setTimeout_def impl_getError_def impl_setSSLVerify_def
  impl_prepare_def impl_connect_with_def impl_connect_def impl_connectSSL_def impl_startSSL_def
  impl_insert_def impl_insertTunnel_def impl_insertSocks4_def impl_insertSocks5_def
  impl_insertProxy_def impl_send_def impl_read_def impl_reads_def impl_readline_def impl_sends_def
  impl_close_def impl_delete_def

text \<open>
  The timeout reaches every hop: whatever was set before or after the proxies were inserted,
  \<open>connect\<close> gives the client's timeout to the connector that opens the socket and to each
  proxy of the chain.
\<close>

theorem connect_passes_timeouts:
  assumes ok: "impl_ok i h" and qs: "proxies h (im_lastconnect i) qs" and p: "impl_prepare i h = Some (t, h')"
    and q: "q \<in> set (tcp_conn t # qs)"
  shows "timeout_at h' q = Some (tcp_tsecs (im_tcp i), tcp_tmilli (im_tcp i))"
proof -
  obtain fs where fs: "connected i h fs" using impl_ok_connected [OF ok] by blast
  note pr = impl_prepare_ok [OF ok qs fs p]
  obtain h3 where h3: "impl_prepare i h = map_option (\<lambda>h'. ((im_tcp i)\<lparr>tcp_conn := hp_next h\<rparr>, h'))
      (conn_setTimeout (tcp_tsecs (im_tcp i)) (tcp_tmilli (im_tcp i)) (hp_next h) h3)"
    "links h3 = ((links h)(hp_next h \<mapsto> im_lastconnect i)) |` (- set fs)" "hp_next h3 = Suc (hp_next h)"
    using impl_prepare_eq [OF ok fs] by blast
  have st: "conn_setTimeout (tcp_tsecs (im_tcp i)) (tcp_tmilli (im_tcp i)) (hp_next h) h3 = Some h'"
    using p h3(1) by auto
  have hok: "heap_ok h" using ok by (simp add: impl_ok_def)
  have L: "im_lastconnect i < hp_next h"
    using qs chain_live [OF hok, of "im_lastconnect i" qs "im_lastconnect i"] hok
    by (cases qs) (auto simp: proxies_def heap_ok_def)
  have "heap_ok h3" using hok L by (auto simp: heap_ok_def h3 restrict_map_def less_SucI split: if_splits)
  from conn_setTimeout_defined [OF this st] have "links h' = links h3" by blast
  then have "chain (links h3) (hp_next h) (hp_next h # qs)" "hp_next h \<noteq> 0" "tcp_conn t = hp_next h"
    using pr by (auto simp: route_def simp del: chain.simps)
  from conn_setTimeout_sets [OF this(1,2) st, of q] this(3) q show ?thesis by simp
qed

text \<open>Worked examples.\<close>

lemma connect_passes_timeouts_witness:
  "\<exists>t h. impl_prepare (impl_new\<lparr>im_tcp := tcp_new\<lparr>tcp_tsecs := 5\<rparr>\<rparr>) heap_empty = Some (t, h)
    \<and> timeout_at h (tcp_conn t) = Some (5, 0)"
proof -
  let ?i = "impl_new\<lparr>im_tcp := tcp_new\<lparr>tcp_tsecs := 5\<rparr>\<rparr>"
  have ok: "impl_ok ?i heap_empty"
    using impl_ok_new impl_ok_same [of ?i impl_new heap_empty] by (simp add: impl_new_def tcp_new_def)
  have qs: "proxies heap_empty (im_lastconnect ?i) []" by (simp add: impl_new_def proxies_def)
  have fs: "connected ?i heap_empty []" by (simp add: connected_def tcp_new_def)
  obtain t h where p: "impl_prepare ?i heap_empty = Some (t, h)"
    using impl_prepare_returns [OF ok qs fs] by auto
  from connect_passes_timeouts [OF ok qs p] p show ?thesis by (simp add: tcp_new_def)
qed

end
