(* ===== verification/Socket_API.thy ===== *)
theory Socket_API
  imports SocketImpl
begin

text \<open>
  \<open>Socket\<close> (src/src/socket.h, socket.cpp): the public class. Every method forwards to the
  implementation, so the class is one step function over the calls a program can make; a
  program's use of one \<open>Socket\<close> is a list of calls, from the constructor to the destructor.
\<close>

datatype api =
    Api_setTimeout int int
  | Api_getError
  | Api_connect "string option" int
  | Api_connectSSL "string option" int
  | Api_startSSL
  | Api_setSSLVerify bool
  | Api_insertTunnel "string option" int
  | Api_insertSocks4 "string option" int "string option"
  | Api_insertSocks5 "string option" int "string option" "string option"
  | Api_insertProxy "string option" int
  | Api_send "byte list"
  | Api_read int
  | Api_reads
  | Api_readline
  | Api_sends "byte list option"
  | Api_close
  | Api_setMessageStream

datatype api_result =
    Ret_void
  | Ret_bool bool
  | Ret_error string
  | Ret_int int
  | Ret_data int "byte list"
  | Ret_text "byte list option"

record 'e socket =
  so_impl :: impl
  so_heap :: heap
  so_world :: "'e world"

definition socket_new :: "'e world \<Rightarrow> 'e socket" where
  "socket_new w = \<lparr>so_impl = impl_new, so_heap = heap_empty, so_world = w\<rparr>"

text \<open>How a method's result is put back into the object.\<close>

definition ret_iw ::
  "('r \<Rightarrow> api_result) \<Rightarrow> 'e socket \<Rightarrow> ('r \<times> impl \<times> 'e world) option \<Rightarrow>
   (api_result \<times> 'e socket) option" where
  "ret_iw f s m = do { (r, i, w) \<leftarrow> m; Some (f r, s\<lparr>so_impl := i, so_world := w\<rparr>) }"

definition ret_ihw ::
  "'e socket \<Rightarrow> (bool \<times> impl \<times> heap \<times> 'e world) option \<Rightarrow> (api_result \<times> 'e socket) option" where
  "ret_ihw s m = do { (r, i, h, w) \<leftarrow> m;
                      Some (Ret_bool r, s\<lparr>so_impl := i, so_heap := h, so_world := w\<rparr>) }"

definition ret_ih ::
  "'e socket \<Rightarrow> (bool \<times> impl \<times> heap) option \<Rightarrow> (api_result \<times> 'e socket) option" where
  "ret_ih s m = do { (r, i, h) \<leftarrow> m; Some (Ret_bool r, s\<lparr>so_impl := i, so_heap := h\<rparr>) }"

fun api_step :: "'e sys \<Rightarrow> api \<Rightarrow> 'e socket \<Rightarrow> (api_result \<times> 'e socket) option" where
  "api_step S (Api_setTimeout secs us) s =
     do { (i, h) \<leftarrow> impl_setTimeout secs us (so_impl s) (so_heap s);
          Some (Ret_void, s\<lparr>so_impl := i, so_heap := h\<rparr>) }"
| "api_step S Api_getError s = Some (Ret_error (impl_getError (so_impl s)), s)"
| "api_step S (Api_connect server port) s =
     ret_ihw s (impl_connect S (so_impl s) server port (so_heap s) (so_world s))"
| "api_step S (Api_connectSSL server port) s =
     ret_ihw s (impl_connectSSL S (so_impl s) server port (so_heap s) (so_world s))"
| "api_step S Api_startSSL s = ret_iw Ret_bool s (impl_startSSL S (so_impl s) (so_world s))"
| "api_step S (Api_setSSLVerify v) s = Some (Ret_void, s\<lparr>so_impl := impl_setSSLVerify v (so_impl s)\<rparr>)"
| "api_step S (Api_insertTunnel server port) s =
     ret_ih s (impl_insertTunnel server port (so_impl s) (so_heap s))"
| "api_step S (Api_insertSocks4 server port user) s =
     ret_ih s (impl_insertSocks4 server port user (so_impl s) (so_heap s))"
| "api_step S (Api_insertSocks5 server port user pass) s =
     ret_ih s (impl_insertSocks5 server port user pass (so_impl s) (so_heap s))"
| "api_step S (Api_insertProxy server port) s =
     ret_ih s (impl_insertProxy server port (so_impl s) (so_heap s))"
| "api_step S (Api_send d) s = ret_iw Ret_int s (impl_send S (so_impl s) d (so_world s))"
| "api_step S (Api_read n) s =
     do { (rc, bs, i, w) \<leftarrow> impl_read S (so_impl s) n (so_world s);
          Some (Ret_data rc bs, s\<lparr>so_impl := i, so_world := w\<rparr>) }"
| "api_step S Api_reads s = ret_iw Ret_text s (impl_reads S (so_impl s) (so_world s))"
| "api_step S Api_readline s = ret_iw Ret_text s (impl_readline S (so_impl s) (so_world s))"
| "api_step S (Api_sends b) s = ret_iw Ret_bool s (impl_sends S (so_impl s) b (so_world s))"
| "api_step S Api_close s = ret_iw Ret_bool s (impl_close S (so_impl s) (so_world s))"
| "api_step S Api_setMessageStream s = Some (Ret_void, s)"

definition socket_delete :: "'e sys \<Rightarrow> 'e socket \<Rightarrow> (heap \<times> 'e world) option" where
  "socket_delete S s = impl_delete S (so_impl s) (so_heap s) (so_world s)"

text \<open>A program's calls in order: their results and the object after the last.\<close>

fun api_run :: "'e sys \<Rightarrow> api list \<Rightarrow> 'e socket \<Rightarrow> (api_result list \<times> 'e socket) option" where
  "api_run S [] s = Some ([], s)"
| "api_run S (a # as) s = do {
     (r, s) \<leftarrow> api_step S a s;
     (rs, s) \<leftarrow> api_run S as s;
     Some (r # rs, s)
   }"

text \<open>What every call keeps, a run keeps.\<close>

lemma api_run_keeps:
  assumes "api_run S as s = Some (rs, s')" "I s"
    and step: "\<And>a s r s'. a \<in> set as \<Longrightarrow> api_step S a s = Some (r, s') \<Longrightarrow> I s \<Longrightarrow> I s'"
  shows "I s'"
  using assms
proof (induction as arbitrary: s rs)
  case (Cons a as)
  then obtain r s1 rs1 where "api_step S a s = Some (r, s1)" "api_run S as s1 = Some (rs1, s')"
    by (auto split: bind_splits)
  with Cons show ?case by (metis list.set_intros)
qed simp

subsection \<open>The invariant of every run\<close>

fun connects :: "api \<Rightarrow> bool" where
  "connects (Api_connect _ _) = True"
| "connects (Api_connectSSL _ _) = True"
| "connects _ = False"

definition socket_inv :: "int multiset \<times> int multiset \<Rightarrow> int multiset \<Rightarrow> 'e socket \<Rightarrow> bool" where
  "socket_inv oth lost s \<longleftrightarrow> impl_ok (so_impl s) (so_heap s) \<and> tcp_books oth lost (im_tcp (so_impl s)) (so_world s)"

text \<open>The calls that really dial: \<open>connectSSL\<close> does so only where OpenSSL is built in.\<close>

definition dials :: "'e sys \<Rightarrow> api \<Rightarrow> bool" where
  "dials S a \<longleftrightarrow> connects a \<and> (\<forall>sv p. a = Api_connectSSL sv p \<longrightarrow> using_openssl (sys_build S))"

lemma dial_form:
  fixes s :: "'e socket"
  assumes st: "api_step S a s = Some (r, s')" and d: "dials S a"
  shows "\<exists>comm j sv pt ok i' h' w'.
    impl_connect_with S comm j sv pt (so_heap s) (so_world s) = Some (ok, i', h', w')
    \<and> s' = s\<lparr>so_impl := i', so_heap := h', so_world := w'\<rparr>
    \<and> im_tcp j = im_tcp (so_impl s) \<and> im_lastconnect j = im_lastconnect (so_impl s)
    \<and> (\<forall>oth (w :: 'e world). tls_books oth {#} {#} w \<longrightarrow> obj_books oth comm w)
    \<and> (comm = Normal_Comm comm_new \<or> using_openssl (sys_build S)
         \<and> (\<exists>v hn. comm = SSH_Comm (ssh_setVerifyPeer v (ssh_setHostname hn ssh_new))))"
proof (cases a)
  case (Api_connect sv pt)
  let ?j = "(so_impl s)\<lparr>im_sslerror := [], im_lastserver := host_of sv\<rparr>"
  have "\<forall>oth (w :: 'e world). tls_books oth {#} {#} w \<longrightarrow> obj_books oth (Normal_Comm comm_new) w"
    by (simp add: obj_books_new)
  moreover obtain ok' i' h' w' where
    "impl_connect_with S (Normal_Comm comm_new) ?j sv pt (so_heap s) (so_world s) = Some (ok', i', h', w')"
    "s' = s\<lparr>so_impl := i', so_heap := h', so_world := w'\<rparr>"
    using st Api_connect by (auto simp: ret_ihw_def impl_connect_def split: bind_splits)
  moreover have "im_tcp ?j = im_tcp (so_impl s)" "im_lastconnect ?j = im_lastconnect (so_impl s)" by simp_all
  ultimately show ?thesis by blast
next
  case (Api_connectSSL sv pt)
  let ?j = "(so_impl s)\<lparr>im_sslerror := [], im_lastserver := host_of sv\<rparr>"
  let ?c = "SSH_Comm (ssh_setVerifyPeer (im_sslverify ?j) (ssh_setHostname sv ssh_new))"
  have "\<forall>oth (w :: 'e world). tls_books oth {#} {#} w \<longrightarrow> obj_books oth ?c w"
    using obj_books_new(2) by blast
  moreover obtain ok' i' h' w' where
    "impl_connect_with S ?c ?j sv pt (so_heap s) (so_world s) = Some (ok', i', h', w')"
    "s' = s\<lparr>so_impl := i', so_heap := h', so_world := w'\<rparr>"
    using st Api_connectSSL d
    by (auto simp: ret_ihw_def impl_connectSSL_def dials_def split: bind_splits)
  moreover have "im_tcp ?j = im_tcp (so_impl s)" "im_lastconnect ?j = im_lastconnect (so_impl s)"
    "using_openssl (sys_build S)" using d Api_connectSSL by (simp_all add: dials_def)
  ultimately show ?thesis by blast
qed (use d in \<open>simp_all add: dials_def\<close>)

lemma dial_step:
  fixes s :: "'e socket"
  assumes st: "api_step S a s = Some (r, s')" and inv: "socket_inv oth lost s" and d: "dials S a"
  shows "(\<exists>t h. impl_prepare (so_impl s) (so_heap s) = Some (t, h)
        \<and> links (so_heap s') = links h \<and> class_at (so_heap s') = class_at h
        \<and> tcp_conn (im_tcp (so_impl s')) = tcp_conn t)
    \<and> im_lastconnect (so_impl s') = im_lastconnect (so_impl s)
    \<and> (\<exists>lost'. socket_inv oth lost' s'
         \<and> (tcp_sock (im_tcp (so_impl s)) = 0 \<and> socket_nonzero S \<longrightarrow> lost' = lost))"
proof -
  obtain comm j sv pt ok i' h' w' where
    f: "impl_connect_with S comm j sv pt (so_heap s) (so_world s) = Some (ok, i', h', w')"
      "s' = s\<lparr>so_impl := i', so_heap := h', so_world := w'\<rparr>"
      "im_tcp j = im_tcp (so_impl s)" "im_lastconnect j = im_lastconnect (so_impl s)"
    and fresh: "\<And>w :: 'e world. tls_books oth {#} {#} w \<Longrightarrow> obj_books oth comm w"
    using dial_form [OF st d] by blast
  have "impl_ok j (so_heap s)" "tcp_books oth lost (im_tcp j) (so_world s)"
    using inv f(3,4) impl_ok_same [of j "so_impl s" "so_heap s"] by (simp_all add: socket_inv_def)
  note c = impl_connect_with_books [OF f(1) this fresh]
  have "impl_prepare j (so_heap s) = impl_prepare (so_impl s) (so_heap s)"
    using f(3,4) by (simp add: impl_prepare_def)
  with c f show ?thesis by (auto simp: socket_inv_def)
qed

lemma api_step_inv:
  assumes st: "api_step S a s = Some (r, s')" and inv: "socket_inv oth lost s"
  shows "\<exists>lost'. socket_inv oth lost' s'
    \<and> (\<not> connects a \<or> tcp_sock (im_tcp (so_impl s)) = 0 \<and> socket_nonzero S \<longrightarrow> lost' = lost)"
proof -
  let ?i = "so_impl s" and ?h = "so_heap s" and ?w = "so_world s"
  have ok: "impl_ok ?i ?h" "heap_ok ?h" "tcp_books oth lost (im_tcp ?i) ?w"
    using inv by (auto simp: socket_inv_def impl_ok_def)
  have keep: ?thesis if "tcp_step oth lost (im_tcp ?i) t w'" "s' = s\<lparr>so_impl := ?i\<lparr>im_tcp := t\<rparr>, so_world := w'\<rparr>" for t w'
    using that ok(1) impl_ok_same [of "?i\<lparr>im_tcp := t\<rparr>" ?i ?h]
    by (intro exI [of _ lost]) (simp add: socket_inv_def tcp_step_def)
  show ?thesis
  proof (cases a)
    case (Api_send d)
    obtain rc t w' where 1: "tcp_send S (im_tcp ?i) d ?w = Some (rc, t, w')"
      and 2: "s' = s\<lparr>so_impl := ?i\<lparr>im_tcp := t\<rparr>, so_world := w'\<rparr>"
      using st Api_send by (auto simp: ret_iw_def impl_send_def split: bind_splits)
    show ?thesis by (rule keep [OF tcp_send_step [OF 1 ok(3)] 2])
  next
    case Api_readline
    obtain rc t w' where 1: "tcp_readline S (im_tcp ?i) ?w = Some (rc, t, w')"
      and 2: "s' = s\<lparr>so_impl := ?i\<lparr>im_tcp := t\<rparr>, so_world := w'\<rparr>"
      using st Api_readline by (auto simp: ret_iw_def impl_readline_def split: bind_splits)
    show ?thesis by (rule keep [OF tcp_readline_step [OF 1 ok(3)] 2])
  next
    case Api_reads
    obtain rc t w' where 1: "tcp_reads S (im_tcp ?i) ?w = Some (rc, t, w')"
      and 2: "s' = s\<lparr>so_impl := ?i\<lparr>im_tcp := t\<rparr>, so_world := w'\<rparr>"
      using st Api_reads by (auto simp: ret_iw_def impl_reads_def split: bind_splits)
    show ?thesis by (rule keep [OF tcp_reads_step [OF 1 ok(3)] 2])
  next
    case (Api_sends d)
    obtain rc t w' where 1: "tcp_sends S (im_tcp ?i) d ?w = Some (rc, t, w')"
      and 2: "s' = s\<lparr>so_impl := ?i\<lparr>im_tcp := t\<rparr>, so_world := w'\<rparr>"
      using st Api_sends by (auto simp: ret_iw_def impl_sends_def split: bind_splits)
    show ?thesis by (rule keep [OF tcp_sends_step [OF 1 ok(3)] 2])
  next
    case (Api_read n)
    obtain rc bs t w' where 1: "tcp_read S (im_tcp ?i) n ?w = Some (rc, bs, t, w')"
      and 2: "s' = s\<lparr>so_impl := ?i\<lparr>im_tcp := t\<rparr>, so_world := w'\<rparr>"
      using st Api_read by (auto simp: impl_read_def split: bind_splits)
    show ?thesis by (rule keep [OF tcp_read_step [OF 1 ok(3)] 2])
  next
    case Api_close
    then obtain t w' where c: "tcp_close S (im_tcp ?i) ?w = Some (case r of Ret_bool b \<Rightarrow> b, t, w')"
      "s' = s\<lparr>so_impl := ?i\<lparr>im_tcp := t\<rparr>, so_world := w'\<rparr>"
      using st by (auto simp: ret_iw_def impl_close_def split: bind_splits)
    show ?thesis
      using tcp_close_books [OF c(1) ok(3)] c(2) ok(1) impl_ok_same [of "?i\<lparr>im_tcp := t\<rparr>" ?i ?h]
      by (intro exI [of _ lost]) (simp add: socket_inv_def)
  next
    case (Api_connect sv pt)
    then show ?thesis using dial_step [OF st inv] by (simp add: dials_def)
  next
    case (Api_connectSSL sv pt)
    show ?thesis
    proof (cases "using_openssl (sys_build S)")
      case False
      let ?j = "?i\<lparr>im_sslerror := [], im_lastserver := host_of sv\<rparr>"
      show ?thesis
        using False st Api_connectSSL ok impl_ok_same [of "?j\<lparr>im_sslerror := e\<rparr>" ?i ?h for e]
        by (intro exI [of _ lost]) (auto simp: ret_ihw_def impl_connectSSL_def Let_def socket_inv_def)
    next
      case True
      then show ?thesis using Api_connectSSL dial_step [OF st inv] by (simp add: dials_def)
    qed
  next
    case Api_startSSL
    show ?thesis
    proof (cases "using_openssl (sys_build S)")
      case False
      then show ?thesis
        using st Api_startSSL ok impl_ok_same [of "?i\<lparr>im_sslerror := e\<rparr>" ?i ?h for e]
        by (intro exI [of _ lost]) (auto simp: ret_iw_def impl_startSSL_def Let_def socket_inv_def)
    next
      case True
      let ?j = "?i\<lparr>im_sslerror := []\<rparr>"
      obtain ok' t w' where 1: "tcp_startSSL S (im_tcp ?i) (Some (im_lastserver ?i)) (im_sslverify ?i) ?w = Some (ok', t, w')"
        and 2: "s' = s\<lparr>so_impl := ?j\<lparr>im_tcp := t\<rparr>, so_world := w'\<rparr>"
        using st Api_startSSL True by (auto simp: ret_iw_def impl_startSSL_def Let_def split: bind_splits)
      show ?thesis
        using tcp_startSSL_books [OF 1 ok(3)] 2 ok(1) impl_ok_same [of "?j\<lparr>im_tcp := t\<rparr>" ?i ?h]
        by (intro exI [of _ lost]) (simp add: socket_inv_def)
    qed
  next
    case (Api_setTimeout n m)
    obtain t h' where 1: "tcp_setTimeout n m (im_tcp ?i) ?h = Some (t, h')"
      and 2: "s' = s\<lparr>so_impl := ?i\<lparr>im_tcp := t\<rparr>, so_heap := h'\<rparr>"
      using st Api_setTimeout by (auto simp: impl_setTimeout_def split: bind_splits)
    have "links h' = links ?h" "class_at h' = class_at ?h" "hp_next h' = hp_next ?h"
      "tcp_conn t = tcp_conn (im_tcp ?i)" "tcp_books oth lost t ?w"
      using tcp_setTimeout_inv [OF 1 ok(2), of oth lost ?w] ok(3) hop_at_class [of h' ?h] by simp_all
    then show ?thesis
      using impl_ok_cong [of h' ?h "?i\<lparr>im_tcp := t\<rparr>" ?i] 2 ok(1)
      by (intro exI [of _ lost]) (simp add: socket_inv_def)
  next
    case (Api_insertTunnel sv pt)
    then show ?thesis using st ok insert_step_inv
      by (fastforce simp: ret_ih_def impl_insertTunnel_def socket_inv_def split: bind_splits)
  next
    case (Api_insertProxy sv pt)
    then show ?thesis using st ok insert_step_inv
      by (fastforce simp: ret_ih_def impl_insertProxy_def socket_inv_def split: bind_splits)
  next
    case (Api_insertSocks4 sv pt u)
    then show ?thesis using st ok insert_step_inv
      by (fastforce simp: ret_ih_def impl_insertSocks4_def socket_inv_def split: bind_splits)
  next
    case (Api_insertSocks5 sv pt u p)
    then show ?thesis using st ok insert_step_inv
      by (fastforce simp: ret_ih_def impl_insertSocks5_def socket_inv_def split: bind_splits)
  next
    case (Api_setSSLVerify v)
    then show ?thesis using st ok impl_ok_same [of "impl_setSSLVerify v ?i" ?i ?h]
      by (intro exI [of _ lost]) (auto simp: socket_inv_def impl_setSSLVerify_def)
  qed (use st inv in auto)
qed

lemmas socket_run [run] = socket_new_def ret_iw_def ret_ihw_def ret_ih_def socket_delete_def

text \<open>A program that never connects over an open descriptor: it closes first.\<close>

fun closes_first :: "'e sys \<Rightarrow> api list \<Rightarrow> 'e socket \<Rightarrow> bool" where
  "closes_first S [] s = True"
| "closes_first S (a # as) s =
     ((connects a \<longrightarrow> tcp_sock (im_tcp (so_impl s)) = 0) \<and>
      (case api_step S a s of None \<Rightarrow> True | Some (r, s') \<Rightarrow> closes_first S as s'))"

lemma api_run_inv:
  "api_run S as s = Some (rs, s') \<Longrightarrow> socket_inv oth lost s \<Longrightarrow>
   \<exists>lost'. socket_inv oth lost' s' \<and> (closes_first S as s \<and> socket_nonzero S \<longrightarrow> lost' = lost)"
proof (induction as arbitrary: s rs lost)
  case Nil
  then show ?case by auto
next
  case (Cons a as)
  then obtain r s1 rs1 where 1: "api_step S a s = Some (r, s1)" "api_run S as s1 = Some (rs1, s')"
    by (auto split: bind_splits)
  from api_step_inv [OF 1(1) Cons.prems(2)] obtain lost1 where
    2: "socket_inv oth lost1 s1" "\<not> connects a \<or> tcp_sock (im_tcp (so_impl s)) = 0 \<and> socket_nonzero S \<longrightarrow> lost1 = lost"
    by blast
  from Cons.IH [OF 1(2) 2(1)] 2(2) 1(1) show ?case by auto
qed

lemma socket_inv_new: "socket_inv no_others {#} (socket_new (start e))"
  using impl_ok_new
  by (simp add: socket_inv_def socket_new_def tcp_books_def impl_new_def tcp_new_def fd_books_def
      start_def opens_def closes_def ledger_def tls_books_def owned_closes_def)

lemma socket_delete_inv:
  assumes "socket_inv oth lost s"
  shows "\<exists>ps w. chain (links (so_heap s)) (tcp_conn (im_tcp (so_impl s))) ps
    \<and> socket_delete S s = Some ((so_heap s)\<lparr>hp_objs := hp_objs (so_heap s) |` (- set ps)\<rparr>, w)
    \<and> opens w = closes w + lost \<and> owned_closes w \<and> tls_books oth {#} {#} w"
proof -
  from assms obtain fs where "connected (so_impl s) (so_heap s) fs"
    using impl_ok_connected by (auto simp: socket_inv_def)
  note ch = connected_chain [OF this]
  from assms have "tcp_books oth lost (im_tcp (so_impl s)) (so_world s)" by (simp add: socket_inv_def)
  from tcp_delete_books [OF this ch, of S] ch show ?thesis
    by (auto simp: socket_delete_def impl_delete_def)
qed

subsection \<open>The proxies in the chain\<close>

fun inserted :: "api \<Rightarrow> (conn_class \<times> string \<times> int) option" where
  "inserted (Api_insertTunnel sv p) = Some (Class_Tunnel, host_of sv, p)"
| "inserted (Api_insertSocks4 sv p u) = Some (Class_Socks4, host_of sv, p)"
| "inserted (Api_insertSocks5 sv p u pw) = Some (Class_Socks5, host_of sv, p)"
| "inserted (Api_insertProxy sv p) = Some (Class_Proxy, host_of sv, p)"
| "inserted _ = None"

text \<open>A call that neither connects nor inserts leaves the connectors alone.\<close>

definition same_store :: "'e socket \<Rightarrow> 'e socket \<Rightarrow> bool" where
  "same_store s s' \<longleftrightarrow> im_lastconnect (so_impl s') = im_lastconnect (so_impl s)
     \<and> tcp_conn (im_tcp (so_impl s')) = tcp_conn (im_tcp (so_impl s))
     \<and> links (so_heap s') = links (so_heap s) \<and> hop_at (so_heap s') = hop_at (so_heap s)
     \<and> hp_next (so_heap s') = hp_next (so_heap s)"

lemma api_step_same_store:
  assumes st: "api_step S a s = Some (r, s')" and inv: "socket_inv oth lost s"
    and a: "\<not> dials S a" "inserted a = None"
  shows "same_store s s'"
proof -
  have b: "tcp_books oth lost (im_tcp (so_impl s)) (so_world s)" and h: "heap_ok (so_heap s)"
    using inv by (auto simp: socket_inv_def impl_ok_def)
  show ?thesis
  proof (cases a)
    case (Api_setTimeout n m)
    then show ?thesis
      using st tcp_setTimeout_inv [OF _ h]
      by (fastforce simp: impl_setTimeout_def same_store_def split: bind_splits)
  next
    case (Api_connectSSL sv pt)
    then show ?thesis
      using st a by (auto simp: dials_def ret_ihw_def impl_connectSSL_def Let_def same_store_def)
  next
    case Api_startSSL
    then show ?thesis
      using st tcp_startSSL_books [OF _ b]
      by (fastforce simp: impl_startSSL_def ret_iw_def same_store_def Let_def split: bind_splits if_splits)
  qed (use st b a in \<open>auto simp: impl_send_def impl_sends_def impl_read_def impl_reads_def impl_readline_def
        impl_close_def impl_setSSLVerify_def ret_iw_def dials_def same_store_def tcp_step_def split: bind_splits
        dest: tcp_send_step tcp_sends_step tcp_read_step tcp_reads_step tcp_readline_step tcp_close_books\<close>)
qed

fun insert_obj :: "api \<Rightarrow> conn_obj option" where
  "insert_obj (Api_insertTunnel sv p) = Some (Obj_Tunnel (conn_setPort p (conn_setServer sv conn_new)))"
| "insert_obj (Api_insertSocks4 sv p u) =
     Some (Obj_Socks4 (socks4_setUsername u (conn_setPort p (conn_setServer sv socks4_new))))"
| "insert_obj (Api_insertSocks5 sv p u pw) =
     Some (Obj_Socks5 (socks5_setPassword pw (socks5_setUsername u
       (conn_setPort p (conn_setServer sv socks5_new)))))"
| "insert_obj (Api_insertProxy sv p) = Some (Obj_Proxy (conn_setPort p (conn_setServer sv proxy_new)))"
| "insert_obj _ = None"

lemma insert_obj_None: "insert_obj a = None \<longleftrightarrow> inserted a = None"
  by (cases a) simp_all

lemma insert_obj_step:
  "insert_obj a = Some x \<Longrightarrow>
   api_step S a s = ret_ih s (impl_insert x (so_impl s) (so_heap s)) \<and> \<not> connects a
   \<and> conn_child (base_of x) = 0 \<and> class_of x \<noteq> Class_Normal \<and> inserted a = Some (hop_key x)"
  by (cases a)
    (auto simp: impl_insertTunnel_def impl_insertSocks4_def impl_insertSocks5_def impl_insertProxy_def
      hop_key_def conn_setPort_def conn_setServer_def socks4_setUsername_def socks5_setUsername_def
      socks5_setPassword_def host_of_def)

text \<open>What an insertion does to the chain.\<close>

lemma api_insert_step:
  assumes st: "api_step S a s = Some (r, s')" and inv: "socket_inv oth lost s" and a: "inserted a = Some k"
    and qs: "proxies (so_heap s) (im_lastconnect (so_impl s)) qs"
  shows "\<exists>p. im_lastconnect (so_impl s') = p \<and> p \<noteq> 0 \<and> proxies (so_heap s') p (p # qs)
    \<and> hop_at (so_heap s') p = Some k \<and> im_tcp (so_impl s') = im_tcp (so_impl s)
    \<and> heap_below (so_heap s) (so_heap s') \<and> (\<forall>q \<in> set qs. hop_at (so_heap s') q = hop_at (so_heap s) q)"
proof -
  obtain x where x: "insert_obj a = Some x" using a insert_obj_None [of a] by auto
  have ok: "impl_ok (so_impl s) (so_heap s)" using inv by (simp add: socket_inv_def)
  note ob = insert_obj_step [OF x, of S s]
  have c: "conn_child (base_of x) = 0" "class_of x \<noteq> Class_Normal" using ob by simp_all
  from impl_insert_ok [OF ok c qs] obtain h' where h': "impl_insert x (so_impl s) (so_heap s)
      = Some (True, (so_impl s)\<lparr>im_lastconnect := hp_next (so_heap s)\<rparr>, h')"
    "proxies h' (hp_next (so_heap s)) (hp_next (so_heap s) # qs)"
    "hp_objs h' (hp_next (so_heap s)) = Some (map_base (\<lambda>b. b\<lparr>conn_child := im_lastconnect (so_impl s)\<rparr>) x)"
    "\<forall>q < hp_next (so_heap s). hp_objs h' q = hp_objs (so_heap s) q" by blast
  have s': "s' = s\<lparr>so_impl := (so_impl s)\<lparr>im_lastconnect := hp_next (so_heap s)\<rparr>, so_heap := h'\<rparr>"
    using st ob h'(1) by (simp add: ret_ih_def)
  have "q < hp_next (so_heap s)" if "q \<in> set qs" for q
    using chain_live [of "so_heap s" _ qs q] ok qs that by (auto simp: impl_ok_def proxies_def)
  then show ?thesis
    using h' ob a ok
    by (auto simp: s' heap_below_def hop_at_def links_def class_at_def hop_key_new(3) impl_ok_def heap_ok_def)
qed

lemma same_store_chains:
  assumes "same_store s s'"
  shows "proxies (so_heap s') p qs = proxies (so_heap s) p qs"
    "connected (so_impl s') (so_heap s') fs = connected (so_impl s) (so_heap s) fs"
  using assms hop_at_class [of "so_heap s'" "so_heap s"]
  by (simp_all add: same_store_def proxies_def connected_def route_def)

lemma insertion_order_run:
  assumes "api_run S as s = Some (rs, s')" "socket_inv oth lost s" "\<forall>a \<in> set as. \<not> connects a"
    and "tcp_conn (im_tcp (so_impl s)) = 0" "proxies (so_heap s) (im_lastconnect (so_impl s)) qs"
    and "map (hop_at (so_heap s)) qs = map Some ks"
  shows "\<exists>qs' lost. socket_inv oth lost s' \<and> tcp_conn (im_tcp (so_impl s')) = 0
    \<and> proxies (so_heap s') (im_lastconnect (so_impl s')) qs'
    \<and> map (hop_at (so_heap s')) qs' = map Some (rev (List.map_filter inserted as) @ ks)"
  using assms
proof (induction as arbitrary: s rs lost qs ks)
  case Nil
  then show ?case by (auto simp: List.map_filter_simps)
next
  case (Cons a as)
  then obtain r s1 rs1 where 1: "api_step S a s = Some (r, s1)" "api_run S as s1 = Some (rs1, s')"
    by (auto split: bind_splits)
  from api_step_inv [OF 1(1) Cons.prems(2)] Cons.prems(3) have inv1: "socket_inv oth lost s1" by auto
  show ?case
  proof (cases "inserted a")
    case None
    have sm: "same_store s s1" using api_step_same_store [OF 1(1) Cons.prems(2) _ None] Cons.prems(3) by (simp add: dials_def)
    have "tcp_conn (im_tcp (so_impl s1)) = 0" "proxies (so_heap s1) (im_lastconnect (so_impl s1)) qs"
      "map (hop_at (so_heap s1)) qs = map Some ks"
      using sm Cons.prems(4-6) same_store_chains(1) [OF sm, of "im_lastconnect (so_impl s)" qs]
      by (simp_all add: same_store_def)
    from Cons.IH [OF 1(2) inv1 _ this] Cons.prems(3) None show ?thesis
      by (simp add: List.map_filter_simps)
  next
    case (Some k)
    from api_insert_step [OF 1(1) Cons.prems(2) Some Cons.prems(5)] obtain p where
      p: "im_lastconnect (so_impl s1) = p" "proxies (so_heap s1) p (p # qs)" "hop_at (so_heap s1) p = Some k"
        "im_tcp (so_impl s1) = im_tcp (so_impl s)" "\<forall>q \<in> set qs. hop_at (so_heap s1) q = hop_at (so_heap s) q"
      by blast
    have "map (hop_at (so_heap s1)) (p # qs) = map Some (k # ks)"
      using p(3,5) Cons.prems(6) by (simp cong: map_cong)
    from Cons.IH [OF 1(2) inv1 _ _ _ this] p Cons.prems(3,4) Some show ?thesis
      by (simp add: List.map_filter_simps)
  qed
qed

text \<open>What a call that really connects leaves behind: the live proxies belong to the connection.\<close>

definition shared :: "'e socket \<Rightarrow> bool" where
  "shared s \<longleftrightarrow> (\<exists>fs qs q. connected (so_impl s) (so_heap s) fs
     \<and> proxies (so_heap s) (im_lastconnect (so_impl s)) qs \<and> q \<in> set fs \<and> q \<in> set qs)"

lemma dial_shared:
  assumes st: "api_step S a s = Some (r, s')" and inv: "socket_inv oth lost s" and d: "dials S a"
  shows "\<not> shared s \<and> (im_lastconnect (so_impl s) \<noteq> 0 \<longrightarrow> shared s')"
proof -
  obtain t h where p: "impl_prepare (so_impl s) (so_heap s) = Some (t, h)"
    "links (so_heap s') = links h" "class_at (so_heap s') = class_at h"
    "tcp_conn (im_tcp (so_impl s')) = tcp_conn t"
    "im_lastconnect (so_impl s') = im_lastconnect (so_impl s)"
    using dial_step [OF assms] by blast
  have ok: "impl_ok (so_impl s) (so_heap s)" using inv by (simp add: socket_inv_def)
  have "\<not> shared s"
    using impl_prepare_dangling [OF ok] p(1) unfolding shared_def by fastforce
  moreover have "shared s'" if L: "im_lastconnect (so_impl s) \<noteq> 0"
  proof -
    obtain qs fs where qs: "proxies (so_heap s) (im_lastconnect (so_impl s)) qs"
      and fs: "connected (so_impl s) (so_heap s) fs"
      using ok impl_ok_connected [OF ok] by (auto simp: impl_ok_def)
    from impl_prepare_ok [OF ok qs fs p(1)] have
      "route (so_heap s') (tcp_conn (im_tcp (so_impl s'))) qs"
      "proxies (so_heap s') (im_lastconnect (so_impl s')) qs" "tcp_conn (im_tcp (so_impl s')) \<noteq> 0"
      using p by (auto simp: route_def proxies_def)
    moreover have "im_lastconnect (so_impl s) \<in> set qs"
      using qs L by (cases qs) (auto simp: proxies_def)
    ultimately show ?thesis unfolding shared_def connected_def
      by (intro exI [of _ "tcp_conn (im_tcp (so_impl s')) # qs"] exI [of _ qs]
          exI [of _ "im_lastconnect (so_impl s)"]) auto
  qed
  ultimately show ?thesis by blast
qed

lemma other_shared:
  assumes st: "api_step S a s = Some (r, s')" and inv: "socket_inv oth lost s" and d: "\<not> dials S a"
  shows "(shared s \<longrightarrow> shared s') \<and> (im_lastconnect (so_impl s) \<noteq> 0 \<longrightarrow> im_lastconnect (so_impl s') \<noteq> 0)"
proof (cases "inserted a")
  case None
  have sm: "same_store s s'" by (rule api_step_same_store [OF st inv d None])
  then show ?thesis
    using same_store_chains [OF sm] unfolding shared_def by (simp add: same_store_def)
next
  case (Some k)
  have ok: "heap_ok (so_heap s)" using inv by (simp add: socket_inv_def impl_ok_def)
  have "shared s'" if sh: "shared s"
  proof -
    obtain fs qs q where c: "connected (so_impl s) (so_heap s) fs"
      and qs: "proxies (so_heap s) (im_lastconnect (so_impl s)) qs" and q: "q \<in> set fs" "q \<in> set qs"
      using sh by (auto simp: shared_def)
    from api_insert_step [OF st inv Some qs] obtain p where
      p: "proxies (so_heap s') (im_lastconnect (so_impl s')) (p # qs)"
        "im_tcp (so_impl s') = im_tcp (so_impl s)" "heap_below (so_heap s) (so_heap s')" by blast
    have "connected (so_impl s') (so_heap s') fs"
      using c proxies_below(2) [OF ok p(3)] p(2) by (auto simp: connected_def split: if_splits)
    with p(1) q show ?thesis unfolding shared_def by fastforce
  qed
  moreover have "im_lastconnect (so_impl s') \<noteq> 0"
    using api_insert_step [OF st inv Some] inv by (auto simp: socket_inv_def impl_ok_def)
  ultimately show ?thesis by blast
qed

lemma inserted_head:
  assumes "api_step S a s = Some (r, s')" "socket_inv oth lost s" "inserted a \<noteq> None"
  shows "im_lastconnect (so_impl s') \<noteq> 0"
  using api_insert_step [OF assms(1,2)] assms(2,3) by (auto simp: socket_inv_def impl_ok_def)

text \<open>Once a chain has been dialled, every later state is shared.\<close>

definition consistent :: "'e socket \<Rightarrow> bool" where
  "consistent s \<longleftrightarrow> (\<exists>oth lost. socket_inv oth lost s)"

lemma api_step_consistent: "api_step S a s = Some (r, s') \<Longrightarrow> consistent s \<Longrightarrow> consistent s'"
  using api_step_inv unfolding consistent_def by blast

lemma shared_run:
  assumes "api_run S as s = Some (rs, s')" "consistent s \<and> shared s"
  shows "consistent s' \<and> shared s'"
proof (rule api_run_keeps [where I = "\<lambda>s. consistent s \<and> shared s", OF assms])
  fix a s r s' assume "api_step S a s = Some (r, s')" "consistent s \<and> shared s"
  then show "consistent s' \<and> shared s'"
    using dial_shared other_shared api_step_consistent unfolding consistent_def by metis
qed

lemma nonempty_run:
  assumes "api_run S as s = Some (rs, s')" "consistent s \<and> im_lastconnect (so_impl s) \<noteq> 0"
  shows "consistent s' \<and> im_lastconnect (so_impl s') \<noteq> 0"
proof (rule api_run_keeps [where I = "\<lambda>s. consistent s \<and> im_lastconnect (so_impl s) \<noteq> 0", OF assms])
  fix a s r s' assume "api_step S a s = Some (r, s')" "consistent s \<and> im_lastconnect (so_impl s) \<noteq> 0"
  then show "consistent s' \<and> im_lastconnect (so_impl s') \<noteq> 0"
    using dial_step other_shared api_step_consistent unfolding consistent_def by metis
qed

lemma api_run_append:
  "api_run S (as @ bs) s = Some (rs, s') \<Longrightarrow>
   \<exists>rs1 s1 rs2. api_run S as s = Some (rs1, s1) \<and> api_run S bs s1 = Some (rs2, s')"
  by (induction as arbitrary: s rs) (force split: bind_splits)+

subsection \<open>What every program that uses a socket may rely on\<close>


text \<open>
  C2. No descriptor leaks: for any calls of a program that closes before it connects again, on any
  system whose \<open>socket\<close> never answers 0, whatever fails on the way, the destructor returns and
  every descriptor that was opened has then been closed exactly once.
\<close>

theorem no_descriptor_leak:
  assumes "api_run S as (socket_new (start e)) = Some (rs, s)"
    and "closes_first S as (socket_new (start e))" and "socket_nonzero S"
  shows "\<exists>h w. socket_delete S s = Some (h, w) \<and> opens w = closes w"
  using api_run_inv [OF assms(1) socket_inv_new] socket_delete_inv [of no_others _ s S] assms(2,3) by fastforce

text \<open>
  C3. No descriptor is closed twice, or closed without having been opened: after any calls whatsoever,
  also over an open connection or after failures, and through the destructor, each \<open>close\<close> in the log is of
  a descriptor that \<open>socket\<close> had answered and that no \<open>close\<close> since had released.
\<close>

theorem only_open_descriptors_are_closed:
  assumes "api_run S as (socket_new (start e)) = Some (rs, s)"
  shows "\<exists>h w. socket_delete S s = Some (h, w) \<and> closes_open {#} (w_log w)"
  using api_run_inv [OF assms(1) socket_inv_new] socket_delete_inv [of no_others _ s S]
  by (fastforce simp: owned_closes_def)

text \<open>
  C10. Every OpenSSL context and session is freed exactly once: after any calls whatsoever, also when
  handshakes failed half-way, the destructor returns and the handles made are the handles freed.
\<close>

theorem tls_handles_freed:
  assumes "api_run S as (socket_new (start e)) = Some (rs, s)"
  shows "\<exists>h w. socket_delete S s = Some (h, w)
    \<and> ledger ctx_made w = ledger ctx_freed w \<and> ledger ssl_made w = ledger ssl_freed w"
  using api_run_inv [OF assms(1) socket_inv_new] socket_delete_inv [of no_others _ s S]
  by (fastforce simp: tls_books_def)

text \<open>
  C24. The destructor is memory safe after every defined run: it returns, deletes each connector of
  the last connection once and nothing else. (Proxies inserted and never dialled are not deleted.)
\<close>

theorem destructor_frees_chain:
  assumes "api_run S as (socket_new (start e)) = Some (rs, s)"
  shows "\<exists>ps h w. chain (links (so_heap s)) (tcp_conn (im_tcp (so_impl s))) ps
    \<and> socket_delete S s = Some (h, w) \<and> hp_objs h = hp_objs (so_heap s) |` (- set ps)"
  using api_run_inv [OF assms(1) socket_inv_new] socket_delete_inv [of no_others _ s S] by fastforce

text \<open>
  C25. Connecting twice over the same proxies is undefined behaviour: after a run that inserted a
  proxy and then dialled, the next \<open>connect\<close> deletes the previous connector and with it the
  proxies it owns, and then walks through the freed proxies (\<open>impl_prepare\<close> is undefined, before
  any system call).
\<close>

theorem reconnect_over_proxies_undefined:
  assumes run: "api_run S (as @ ins # bs @ dial # cs) (socket_new (start e)) = Some (rs, s)"
    and ins: "inserted ins \<noteq> None" and dial: "dials S dial"
  shows "impl_prepare (so_impl s) (so_heap s) = None \<and> api_step S (Api_connect server port) s = None"
proof -
  obtain rs1 s1 rs2 where 1: "api_run S as (socket_new (start e)) = Some (rs1, s1)"
    "api_run S (ins # bs @ dial # cs) s1 = Some (rs2, s)" using api_run_append [OF run] by blast
  obtain l1 where l1: "socket_inv no_others l1 s1" using api_run_inv [OF 1(1) socket_inv_new] by blast
  obtain r2 s2 rs3 where 2: "api_step S ins s1 = Some (r2, s2)" "api_run S (bs @ dial # cs) s2 = Some (rs3, s)"
    using 1(2) by (auto split: bind_splits)
  have c2: "consistent s2 \<and> im_lastconnect (so_impl s2) \<noteq> 0"
    using inserted_head [OF 2(1) l1 ins] api_step_consistent [OF 2(1)] l1 by (auto simp: consistent_def)
  obtain rs4 s3 rs5 where 3: "api_run S bs s2 = Some (rs4, s3)" "api_run S (dial # cs) s3 = Some (rs5, s)"
    using api_run_append [OF 2(2)] by blast
  obtain r4 s4 rs6 where 4: "api_step S dial s3 = Some (r4, s4)" "api_run S cs s4 = Some (rs6, s)"
    using 3(2) by (auto split: bind_splits)
  have "consistent s4 \<and> shared s4"
    using dial_shared [OF 4(1) _ dial] nonempty_run [OF 3(1) c2] api_step_consistent [OF 4(1)]
    by (auto simp: consistent_def)
  then have sh: "consistent s \<and> shared s" by (rule shared_run [OF 4(2)])
  then obtain oth l5 where l5: "socket_inv oth l5 s" by (auto simp: consistent_def)
  then have ok: "impl_ok (so_impl s) (so_heap s)" by (simp add: socket_inv_def)
  have none: "impl_prepare (so_impl s) (so_heap s) = None"
    using impl_prepare_dangling [OF ok] sh unfolding shared_def by blast
  have "api_step S (Api_connect server port) s = None"
  proof (rule ccontr)
    assume "api_step S (Api_connect server port) s \<noteq> None"
    then obtain r s' where "api_step S (Api_connect server port) s = Some (r, s')" by auto
    from dial_step [OF this l5] none show False by (auto simp: dials_def)
  qed
  with none show ?thesis by blast
qed

text \<open>
  C23. Proxies are dialled in the reverse order of their insertion: after any calls that do not
  connect, \<open>connect\<close> builds a chain whose hops are the connector that opens the socket, then the
  inserted proxies from the newest to the oldest. (With \<open>conn_connect_follows_chain\<close> this is the
  order in which they are contacted.)
\<close>

theorem newest_proxy_is_dialled_first:
  assumes run: "api_run S as (socket_new (start e)) = Some (rs, s)" and as: "\<forall>a \<in> set as. \<not> connects a"
  shows "\<exists>t h ps. impl_prepare (so_impl s) (so_heap s) = Some (t, h)
    \<and> chain (links h) (tcp_conn t) ps
    \<and> map (hop_at h) ps = Some (Class_Normal, [], 0) # map Some (rev (List.map_filter inserted as))"
proof -
  have "tcp_conn (im_tcp (so_impl (socket_new (start e)))) = 0"
    "proxies (so_heap (socket_new (start e))) (im_lastconnect (so_impl (socket_new (start e)))) []"
    "map (hop_at (so_heap (socket_new (start e)))) [] = map Some []"
    by (simp_all add: socket_new_def impl_new_def tcp_new_def proxies_def)
  from insertion_order_run [OF run socket_inv_new as this] obtain qs lost where
    inv: "socket_inv no_others lost s" and z: "tcp_conn (im_tcp (so_impl s)) = 0"
    and qs: "proxies (so_heap s) (im_lastconnect (so_impl s)) qs"
    and ks: "map (hop_at (so_heap s)) qs = map Some (rev (List.map_filter inserted as))" by auto
  have ok: "impl_ok (so_impl s) (so_heap s)" using inv by (simp add: socket_inv_def)
  have fs: "connected (so_impl s) (so_heap s) []" using z by (simp add: connected_def)
  obtain t h where p: "impl_prepare (so_impl s) (so_heap s) = Some (t, h)"
    using impl_prepare_returns [OF ok qs fs] by auto
  note pr = impl_prepare_ok [OF ok qs fs p]
  have "map (hop_at h) (hp_next (so_heap s) # qs)
      = Some (Class_Normal, [], 0) # map Some (rev (List.map_filter inserted as))"
    using pr ks by (simp cong: map_cong)
  moreover have "chain (links h) (tcp_conn t) (hp_next (so_heap s) # qs)"
    using pr by (simp add: route_def)
  ultimately show ?thesis using p by (intro exI conjI)
qed

subsection \<open>Worked examples\<close>

definition demo_calls :: "api list" where
  "demo_calls = [Api_insertTunnel (Some ''t'') 1, Api_insertProxy (Some ''p'') 8080,
                 Api_setTimeout 3 0]"

lemma stream_nonzero: "socket_nonzero stream_sys"
  by (simp add: socket_nonzero_def stream_sys_def ans_def)

text \<open>Connect, close and connect again, this time securely.\<close>

lemma no_descriptor_leak_witness:
  "\<exists>rs s h w. api_run stream_sys [Api_connect (Some ''h'') 80, Api_close, Api_connectSSL (Some ''h'') 443]
       (socket_new (start [])) = Some (rs, s)
     \<and> socket_delete stream_sys s = Some (h, w) \<and> opens w = closes w"
proof -
  let ?as = "[Api_connect (Some ''h'') 80, Api_close, Api_connectSSL (Some ''h'') 443]"
  have "api_run stream_sys ?as (socket_new (start [])) \<noteq> None"
    by (simp add: run cong: bind_weak_cong)
  then obtain rs s where 1: "api_run stream_sys ?as (socket_new (start [])) = Some (rs, s)" by auto
  have "closes_first stream_sys ?as (socket_new (start []))"
    by (simp add: run cong: bind_weak_cong)
  from no_descriptor_leak [OF 1 this stream_nonzero] 1 show ?thesis by blast
qed

lemma only_open_descriptors_are_closed_witness:
  "\<exists>rs s h w. api_run stream_sys [Api_connect (Some ''h'') 80, Api_startSSL, Api_connect (Some ''g'') 25]
       (socket_new (start [])) = Some (rs, s)
     \<and> socket_delete stream_sys s = Some (h, w) \<and> closes_open {#} (w_log w)"
proof -
  let ?as = "[Api_connect (Some ''h'') 80, Api_startSSL, Api_connect (Some ''g'') 25]"
  have "api_run stream_sys ?as (socket_new (start [])) \<noteq> None"
    by (simp add: run cong: bind_weak_cong)
  then obtain rs s where 1: "api_run stream_sys ?as (socket_new (start [])) = Some (rs, s)" by auto
  from only_open_descriptors_are_closed [OF 1] 1 show ?thesis by blast
qed

lemma tls_handles_freed_witness:
  "\<exists>rs s h w. api_run stream_sys [Api_connectSSL (Some ''h'') 443] (socket_new (start [])) = Some (rs, s)
     \<and> socket_delete stream_sys s = Some (h, w)
     \<and> ledger ctx_made w = ledger ctx_freed w \<and> ledger ssl_made w = ledger ssl_freed w"
proof -
  have "api_run stream_sys [Api_connectSSL (Some ''h'') 443] (socket_new (start [])) \<noteq> None"
    by (simp add: run cong: bind_weak_cong)
  then obtain rs s where 1: "api_run stream_sys [Api_connectSSL (Some ''h'') 443] (socket_new (start []))
      = Some (rs, s)" by auto
  from tls_handles_freed [OF 1] 1 show ?thesis by blast
qed

lemma destructor_frees_chain_witness:
  "\<exists>rs s ps h w. api_run stream_sys [Api_insertTunnel (Some ''t'') 1, Api_connect (Some ''h'') 80]
       (socket_new (start [])) = Some (rs, s)
     \<and> chain (links (so_heap s)) (tcp_conn (im_tcp (so_impl s))) ps
     \<and> socket_delete stream_sys s = Some (h, w) \<and> hp_objs h = hp_objs (so_heap s) |` (- set ps)"
proof -
  let ?as = "[Api_insertTunnel (Some ''t'') 1, Api_connect (Some ''h'') 80]"
  have "api_run stream_sys ?as (socket_new (start [])) \<noteq> None"
    by (simp add: run cong: bind_weak_cong)
  then obtain rs s where 1: "api_run stream_sys ?as (socket_new (start [])) = Some (rs, s)" by auto
  from destructor_frees_chain [OF 1] 1 show ?thesis by blast
qed

lemma reconnect_over_proxies_undefined_witness:
  "\<exists>rs s. api_run stream_sys [Api_insertTunnel (Some ''t'') 1, Api_connect (Some ''h'') 80, Api_close]
       (socket_new (start [])) = Some (rs, s)
     \<and> impl_prepare (so_impl s) (so_heap s) = None \<and> api_step stream_sys (Api_connect (Some ''h'') 80) s = None"
proof -
  let ?as = "[Api_insertTunnel (Some ''t'') 1, Api_connect (Some ''h'') 80, Api_close]"
  have "api_run stream_sys ?as (socket_new (start [])) \<noteq> None"
    by (simp add: run cong: bind_weak_cong)
  then obtain rs s where 1: "api_run stream_sys ?as (socket_new (start [])) = Some (rs, s)" by auto
  have "api_run stream_sys ([] @ Api_insertTunnel (Some ''t'') 1 # [] @ Api_connect (Some ''h'') 80 # [Api_close])
      (socket_new (start [])) = Some (rs, s)" using 1 by simp
  from reconnect_over_proxies_undefined [OF this, of "Some ''h''" 80] 1 show ?thesis
    by (simp add: dials_def)
qed

lemma newest_proxy_is_dialled_first_witness:
  "\<exists>rs s t h ps. api_run stream_sys demo_calls (socket_new (start [])) = Some (rs, s)
     \<and> impl_prepare (so_impl s) (so_heap s) = Some (t, h) \<and> chain (links h) (tcp_conn t) ps
     \<and> map (hop_at h) ps = [Some (Class_Normal, [], 0), Some (Class_Proxy, ''p'', 8080),
                             Some (Class_Tunnel, ''t'', 1)]"
proof -
  have "api_run stream_sys demo_calls (socket_new (start [])) \<noteq> None"
    by (simp add: run demo_calls_def cong: bind_weak_cong)
  then obtain rs s where 1: "api_run stream_sys demo_calls (socket_new (start [])) = Some (rs, s)" by auto
  have "\<forall>a \<in> set demo_calls. \<not> connects a" by (simp add: demo_calls_def)
  from newest_proxy_is_dialled_first [OF 1 this] obtain t h ps where
    "impl_prepare (so_impl s) (so_heap s) = Some (t, h)" "chain (links h) (tcp_conn t) ps"
    "map (hop_at h) ps = Some (Class_Normal, [], 0) # map Some (rev (List.map_filter inserted demo_calls))"
    by (elim exE conjE) (rule that)
  moreover have "map Some (rev (List.map_filter inserted demo_calls))
      = [Some (Class_Proxy, ''p'', 8080), Some (Class_Tunnel, ''t'', 1)]"
    by (simp add: demo_calls_def List.map_filter_simps host_of_def)
  ultimately show ?thesis using 1 by (intro exI conjI) (assumption | simp)+
qed

subsection \<open>Lines\<close>

definition socket_linked :: "'e sys \<Rightarrow> ('e \<Rightarrow> byte list) \<Rightarrow> int \<Rightarrow> 'e socket \<Rightarrow> bool" where
  "socket_linked S rx fd s \<longleftrightarrow> tcp_linked S rx fd (im_tcp (so_impl s))"

definition line_bytes :: "byte list \<Rightarrow> byte list" where
  "line_bytes l = l @ [CR, LF]"

definition plain_line :: "byte list \<Rightarrow> bool" where
  "plain_line l \<longleftrightarrow> CR \<notin> set l \<and> LF \<notin> set l \<and> 0 \<notin> set l"

text \<open>
  A dialogue: the lines a program sends and the lines it reads, in its order. \<open>said\<close> and \<open>heard\<close> are the
  bytes that go out and come in.
\<close>

datatype turn = Say "byte list" | Hear "byte list"

fun turn_call :: "turn \<Rightarrow> api" where
  "turn_call (Say l) = Api_sends (Some (line_bytes l))"
| "turn_call (Hear l) = Api_readline"

fun turn_result :: "turn \<Rightarrow> api_result" where
  "turn_result (Say l) = Ret_bool True"
| "turn_result (Hear l) = Ret_text (Some l)"

fun turn_ok :: "turn \<Rightarrow> bool" where
  "turn_ok (Say l) = (length (line_bytes l) < 2 ^ 31)"
| "turn_ok (Hear l) = plain_line l"

fun said :: "turn list \<Rightarrow> byte list" where
  "said [] = []"
| "said (Say l # ts) = line_bytes l @ said ts"
| "said (Hear l # ts) = said ts"

fun heard :: "turn list \<Rightarrow> byte list" where
  "heard [] = []"
| "heard (Say l # ts) = heard ts"
| "heard (Hear l # ts) = line_bytes l @ heard ts"

lemma said_heard_lines [simp]:
  "said (map Say ls) = concat (map line_bytes ls)" "heard (map Say ls) = []"
  "said (map Hear ls) = []" "heard (map Hear ls) = concat (map line_bytes ls)"
  by (induction ls) simp_all

lemma turn_calls [simp]:
  "turn_call \<circ> Say = (\<lambda>l. Api_sends (Some (line_bytes l)))" "turn_call \<circ> Hear = (\<lambda>l. Api_readline)"
  "turn_result \<circ> Say = (\<lambda>l. Ret_bool True)" "turn_result \<circ> Hear = (\<lambda>l. Ret_text (Some l))"
  by (simp_all add: fun_eq_iff)

text \<open>
  A connected socket as a channel of lines, whatever its layer: \<open>stream\<close> is what the peer will still
  deliver, \<open>out\<close> what was handed to it.
\<close>

locale line_channel =
  fixes S :: "'e sys" and ok :: "'e socket \<Rightarrow> bool" and stream :: "'e socket \<Rightarrow> byte list"
    and out :: "'e socket \<Rightarrow> byte list"
  assumes line_in: "ok s \<Longrightarrow> plain_line l \<Longrightarrow> stream s = line_bytes l @ rest \<Longrightarrow>
      \<exists>s'. api_step S Api_readline s = Some (Ret_text (Some l), s') \<and> ok s' \<and> stream s' = rest \<and> out s' = out s"
    and line_out: "ok s \<Longrightarrow> length (line_bytes l) < 2 ^ 31 \<Longrightarrow>
      \<exists>s'. api_step S (Api_sends (Some (line_bytes l))) s = Some (Ret_bool True, s') \<and> ok s'
        \<and> stream s' = stream s \<and> out s' = out s @ line_bytes l"
begin

lemma dialogue:
  assumes "ok s" "\<forall>t \<in> set ts. turn_ok t" "stream s = heard ts @ rest"
  shows "\<exists>s'. api_run S (map turn_call ts) s = Some (map turn_result ts, s') \<and> ok s' \<and> stream s' = rest
    \<and> out s' = out s @ said ts"
  using assms
proof (induction ts arbitrary: s rest)
  case (Cons t ts)
  have ts: "\<forall>t \<in> set ts. turn_ok t" using Cons.prems(2) by simp
  obtain s1 where 1: "api_step S (turn_call t) s = Some (turn_result t, s1)" "ok s1" "stream s1 = heard ts @ rest"
    "out s1 = out s @ said [t]"
  proof (cases t)
    case (Say l)
    then show thesis using line_out [OF Cons.prems(1), of l] Cons.prems(2,3) that by auto
  next
    case (Hear l)
    then show thesis using line_in [OF Cons.prems(1), of l "heard ts @ rest"] Cons.prems(2,3) that by auto
  qed
  from Cons.IH [OF 1(2) ts 1(3)] obtain s2 where
    "api_run S (map turn_call ts) s1 = Some (map turn_result ts, s2)" "ok s2" "stream s2 = rest"
    "out s2 = out s1 @ said ts" by blast
  moreover have "said (t # ts) = said [t] @ said ts" by (cases t) simp_all
  ultimately show ?case using 1(1,4) by simp
qed simp

end

text \<open>A plain layer on a prompt peer is such a channel.\<close>

lemma linked_sends_line:
  assumes "socket_linked S rx fd s" "length (line_bytes l) < 2 ^ 31"
  shows "\<exists>s'. api_step S (Api_sends (Some (line_bytes l))) s = Some (Ret_bool True, s') \<and> socket_linked S rx fd s'
    \<and> rx (w_env (so_world s')) = rx (w_env (so_world s)) \<and> wire fd (so_world s') = wire fd (so_world s) @ line_bytes l"
proof -
  have "line_bytes l \<noteq> []" by (simp add: line_bytes_def)
  from tcp_sends_prompt [OF assms(1) [unfolded socket_linked_def] this assms(2), of "so_world s"]
  show ?thesis by (auto simp: ret_iw_def impl_sends_def socket_linked_def)
qed

lemma linked_reads_line:
  assumes "socket_linked S rx fd s" "plain_line l" "rx (w_env (so_world s)) = line_bytes l @ rest"
  shows "\<exists>s'. api_step S Api_readline s = Some (Ret_text (Some l), s') \<and> socket_linked S rx fd s'
    \<and> rx (w_env (so_world s')) = rest \<and> wire fd (so_world s') = wire fd (so_world s)"
proof -
  have l: "CR \<notin> set l" "LF \<notin> set l" "0 \<notin> set l" using assms(2) by (auto simp: plain_line_def)
  have "rx (w_env (so_world s)) = l @ CR # LF # rest" using assms(3) by (simp add: line_bytes_def)
  from tcp_readline_crlf [OF assms(1) [unfolded socket_linked_def] this l(3) no_crlf_text [OF l(1)]]
  obtain t' w' where t': "tcp_readline S (im_tcp (so_impl s)) (so_world s) = Some (Some (line_text l), t', w')"
    "tcp_linked S rx fd t'" "rx (w_env w') = rest" by blast
  have "layer_plain (im_tcp (so_impl s))"
    using assms(1) by (auto simp: socket_linked_def tcp_linked_def layer_plain_def)
  from wire_emits [OF tcp_readline_no_send [OF t'(1) this]] have "wire fd w' = wire fd (so_world s)" .
  then show ?thesis using t' line_text_id [OF l(1,2)] by (simp add: ret_iw_def impl_readline_def socket_linked_def)
qed

interpretation plain_lines: line_channel S "socket_linked S rx fd" "\<lambda>s. rx (w_env (so_world s))"
  "\<lambda>s. wire fd (so_world s)" for S rx fd
  by (unfold_locales; rule linked_sends_line linked_reads_line)

text \<open>
  C16. Lines round trip: the lines one program sends, each ended by CR LF, are the results of as many
  calls of \<open>readline\<close> in a program at the other end, when its stream is what went out on the
  sender's descriptor. Lines contain no CR, LF or NUL.
\<close>

theorem lines_roundtrip:
  assumes "socket_linked S rx fd s" "socket_linked S' rx' fd' s'"
    and "\<forall>l \<in> set ls. plain_line l \<and> length (line_bytes l) < 2 ^ 31"
    and "sent = api_run S (map (\<lambda>l. Api_sends (Some (line_bytes l))) ls) s"
    and "wire fd (so_world s) = []"
    and "rx' (w_env (so_world s')) = wire fd (so_world (snd (the sent))) @ rest"
  shows "\<exists>s1 s2. sent = Some (map (\<lambda>l. Ret_bool True) ls, s1)
    \<and> api_run S' (map (\<lambda>l. Api_readline) ls) s' = Some (map (\<lambda>l. Ret_text (Some l)) ls, s2)
    \<and> rx' (w_env (so_world s2)) = rest"
proof -
  obtain s1 where s1: "sent = Some (map (\<lambda>l. Ret_bool True) ls, s1)"
    "wire fd (so_world s1) = concat (map line_bytes ls)"
    using plain_lines.dialogue [OF assms(1), of "map Say ls"] assms(3-5) by auto
  from plain_lines.dialogue [OF assms(2), of "map Hear ls" rest] s1 assms(3,6) show ?thesis by auto
qed

definition demo_socket :: "byte list \<Rightarrow> byte list socket" where
  "demo_socket bs = (socket_new (start bs))\<lparr>so_impl := impl_new\<lparr>im_tcp := demo_tcp\<rparr>\<rparr>"

lemma lines_roundtrip_witness:
  "\<exists>s1 s2. api_run stream_sys (map (\<lambda>l. Api_sends (Some (line_bytes l))) [[104, 105], [], [106]]) (demo_socket [])
      = Some (map (\<lambda>l. Ret_bool True) [[104, 105 :: byte], [], [106]], s1)
    \<and> api_run stream_sys (map (\<lambda>l. Api_readline) [[104, 105 :: byte], [], [106]])
        (demo_socket [104, 105, 13, 10, 13, 10, 106, 13, 10, 42])
      = Some (map (\<lambda>l. Ret_text (Some l)) [[104, 105], [], [106]], s2)
    \<and> w_env (so_world s2) = [42]"
proof -
  have l: "socket_linked stream_sys (\<lambda>bs. bs) 3 (demo_socket bs)" for bs
    using demo_linked by (simp add: socket_linked_def demo_socket_def)
  have e: "w_env (so_world (demo_socket bs)) = bs" "wire 3 (so_world (demo_socket bs)) = []" for bs
    by (simp_all add: demo_socket_def socket_new_def start_def wire_def)
  let ?sent = "api_run stream_sys (map (\<lambda>l. Api_sends (Some (line_bytes l))) [[104, 105], [], [106]]) (demo_socket [])"
  have "wire 3 (so_world (snd (the ?sent))) = [104, 105, 13, 10, 13, 10, 106, 13, 10]"
    using plain_lines.dialogue [OF l, of "map Say [[104, 105], [], [106]]" "[]" "[]"] e [of "[]"]
    by (auto simp: line_bytes_def)
  then show ?thesis
    using lines_roundtrip [OF l [of "[]"] l [of "[104, 105, 13, 10, 13, 10, 106, 13, 10, 42]"] _ refl e(2),
        of "[[104, 105], [], [106]]" "[42]", unfolded e]
    by (simp add: plain_line_def line_bytes_def)
qed

end
