(* ===== verification/Socket_Calls.thy ===== *)
theory Socket_Calls
  imports Socket_API
begin

text \<open>
  Which system calls a \<open>Socket\<close> makes. The contract of a layer of one kind is a locale; reading and
  writing over it, and then every method of the class, are framed once inside. Secure layers meet
  the first contract with the TLS calls; what a build can construct meets the second with the calls
  of that build.
\<close>

text \<open>The methods that neither make nor end a connection nor replace its layer.\<close>

fun same_layer :: "api \<Rightarrow> bool" where
  "same_layer Api_close = False"
| "same_layer Api_startSSL = False"
| "same_layer a = (\<not> connects a)"

lemma insert_no_io:
  "inserted a = Some k \<Longrightarrow> api_step S a s = Some (r, s') \<Longrightarrow>
   im_tcp (so_impl s') = im_tcp (so_impl s) \<and> so_world s' = so_world s"
  by (cases a) (auto simp: ret_ih_def impl_insertTunnel_def impl_insertProxy_def
      impl_insertSocks4_def impl_insertSocks5_def impl_insert_def Let_def split: bind_splits prod.splits if_splits)

subsection \<open>Layers of one kind\<close>

text \<open>
  \<open>L\<close> picks the layers of one kind, which reading and writing keep within the kind, making only
  calls that satisfy \<open>P\<close>.
\<close>

locale io_layer =
  fixes L :: "comm_obj \<Rightarrow> bool" and P :: "syscall \<Rightarrow> bool" and S :: "'e sys"
  assumes send_kind: "obj_send S c d w = Some (rc, c', w') \<Longrightarrow> L c \<Longrightarrow> L c' \<and> emits P w w'"
    and read_kind: "obj_read S c n w = Some (rc, bs, c', w') \<Longrightarrow> L c \<Longrightarrow> L c' \<and> emits P w w'"
    and timeout_kind: "L c \<Longrightarrow> L (obj_setTimeout n m c)"
begin

definition client_frame :: "'e world \<Rightarrow> tcp \<Rightarrow> 'e world \<Rightarrow> bool" where
  "client_frame w0 t w \<longleftrightarrow> (\<forall>c. tcp_comm t = Some c \<longrightarrow> L c) \<and> emits P w0 w"

lemma client_frame_fields [simp]:
  "client_frame w0 (tcp_setError e t) w = client_frame w0 t w"
  "client_frame w0 (t\<lparr>tcp_readbuffer := b\<rparr>) w = client_frame w0 t w"
  "client_frame w0 (t\<lparr>tcp_sock := n\<rparr>) w = client_frame w0 t w"
  "client_frame w0 (t\<lparr>tcp_conn := p\<rparr>) w = client_frame w0 t w"
  by (simp_all add: client_frame_def)

lemma client_ops:
  "tcp_send S t d w = Some (rc, t', w') \<Longrightarrow> client_frame w0 t w \<Longrightarrow> client_frame w0 t' w'"
  "tcp_sends S t b w = Some (ok, t', w') \<Longrightarrow> client_frame w0 t w \<Longrightarrow> client_frame w0 t' w'"
  "tcp_read S t n w = Some (rc', bs, t', w') \<Longrightarrow> client_frame w0 t w \<Longrightarrow> client_frame w0 t' w'"
  by (auto simp: tcp_send_def tcp_sends_def tcp_read_def client_frame_def Let_def
      split: bind_splits option.splits if_splits dest!: send_kind read_kind elim: emits_trans)

lemma client_texts:
  "tcp_reads S t w = Some (res, t', w') \<Longrightarrow> client_frame w0 t w \<Longrightarrow> client_frame w0 t' w'"
  "tcp_readline S t w = Some (res, t', w') \<Longrightarrow> client_frame w0 t w \<Longrightarrow> client_frame w0 t' w'"
  by (erule tcp_loops_inv [where I = "client_frame w0", OF client_ops(3), rotated -1]; simp)+

lemma client_setTimeout:
  "tcp_setTimeout n m t h = Some (t', h') \<Longrightarrow> client_frame w0 t w \<Longrightarrow> client_frame w0 t' w"
  by (cases "tcp_comm t") (auto simp: tcp_setTimeout_def Let_def client_frame_def timeout_kind split: bind_splits)

lemma client_quiet:
  assumes st: "api_step S a s = Some (r, s')" and q: "same_layer a"
    and p: "client_frame w0 (im_tcp (so_impl s)) (so_world s)"
  shows "client_frame w0 (im_tcp (so_impl s')) (so_world s')"
proof (cases "inserted a")
  case None
  then show ?thesis
    using st q p
    by (cases a) (auto simp: ret_iw_def impl_send_def impl_sends_def impl_read_def impl_reads_def impl_readline_def
        impl_setSSLVerify_def impl_setTimeout_def Let_def split: bind_splits
        dest: client_ops client_texts client_setTimeout)
qed (use insert_no_io [OF _ st] p in simp)

end

text \<open>
  All that a client does with layers of the kind: the whole contract, for which connecting over
  a chain needs the calls of the connectors, and a fresh layer has to be of the kind.
\<close>

locale client_layer = io_layer L P S for L P and S :: "'e sys" +
  assumes bind_kind: "obj_bind S fd c w = Some (ok, c', w') \<Longrightarrow> L c \<Longrightarrow> L c' \<and> emits P w w'"
    and finish_kind: "obj_finish S c w = Some (ok, c', w') \<Longrightarrow> L c \<Longrightarrow> L c' \<and> emits P w w'"
    and plain_kind: "plain_call k \<Longrightarrow> P k"
    and fresh_kind: "L (Normal_Comm comm_new)"
    and secure_kind: "using_openssl (sys_build S) \<Longrightarrow> L (SSH_Comm (ssh_setVerifyPeer v (ssh_setHostname hn ssh_new)))"
begin

lemma delete_kind: "obj_delete S c w = Some w' \<Longrightarrow> L c \<Longrightarrow> emits P w w'"
  by (auto simp: obj_delete_def dest: finish_kind split: bind_splits)

lemma client_plain: "emits plain_call w w' \<Longrightarrow> emits P w w'"
  by (erule emits_mono) (rule plain_kind)

lemma client_setComm:
  "tcp_setComm S c t w = Some (t', w') \<Longrightarrow> L c \<Longrightarrow> client_frame w0 t w \<Longrightarrow> client_frame w0 t' w'"
  by (auto simp: tcp_setComm_def client_frame_def timeout_kind split: bind_splits option.splits
      dest!: delete_kind elim: emits_trans)

lemma client_descriptor:
  "closeDescriptor S t w = (t', w') \<Longrightarrow> client_frame w0 t w \<Longrightarrow> client_frame w0 t' w'"
  by (auto simp: closeDescriptor_def client_frame_def frame_back plain_kind split: prod.splits if_splits)

lemma client_finish:
  assumes "obj_finish S c w = Some (ok, c', w')" "tcp_comm t = Some c" "client_frame w0 t w"
  shows "client_frame w0 (t\<lparr>tcp_comm := Some c'\<rparr>) w'"
  using assms finish_kind [OF assms(1)] by (auto simp: client_frame_def elim: emits_trans)

lemma client_bind:
  assumes "obj_bind S fd c w = Some (ok, c', w')" "tcp_comm t = Some c" "client_frame w0 t w"
  shows "client_frame w0 (t\<lparr>tcp_comm := Some c'\<rparr>) w'"
  using assms bind_kind [OF assms(1)] by (auto simp: client_frame_def elim: emits_trans)

lemma client_close:
  assumes "tcp_close S t w = Some (ok, t', w')" "client_frame w0 t w"
  shows "client_frame w0 t' w'"
proof (cases "tcp_comm t")
  case None
  then show ?thesis using assms client_descriptor by (auto simp: tcp_close_def split: if_splits prod.splits)
next
  case (Some c)
  obtain ok1 c1 w1 where f: "obj_finish S c w = Some (ok1, c1, w1)" using obj_finish_returns by blast
  from client_finish [OF f Some assms(2)] show ?thesis
    using assms Some f
    by (auto simp: tcp_close_def Let_def split: if_splits prod.splits dest!: client_descriptor [where ?w0.0 = w0])
qed

lemma client_startSSL:
  assumes "tcp_startSSL S t hn v w = Some (ok, t', w')" "client_frame w0 t w"
  shows "client_frame w0 t' w'"
  using assms(1) assms(2)
  by (auto simp: tcp_startSSL_def Let_def frame_back plain_kind secure_kind client_frame_def
      split: if_splits option.splits bind_splits prod.splits
      dest!: client_finish [where ?w0.0 = w0] client_setComm [where ?w0.0 = w0] client_bind [where ?w0.0 = w0])

lemma client_connect:
  assumes c: "tcp_connect S t server port h w = Some (ok, t', h', w')" and r: "route h (tcp_conn t) ps"
    and b: "tcp_books oth lost t w" and p: "client_frame w0 t w"
  shows "client_frame w0 t' w'"
proof -
  have nz: "tcp_conn t \<noteq> 0" using r by (simp add: route_def)
  obtain ok1 s1 h1 w1 where 1: "conn_connect S (tcp_conn t) (tcp_sock t) server port h w = Some (ok1, s1, h1, w1)"
    using c nz by (auto simp: tcp_connect_def split: bind_splits)
  have "fd_books lost (tcp_sock t) w" using b by (simp add: tcp_books_def)
  from conn_connect_books [OF 1 r this] have "emits plain_call w w1" by blast
  then have p1: "client_frame w0 (t\<lparr>tcp_sock := s1\<rparr>) w1"
    using p client_plain by (auto simp: client_frame_def intro: emits_trans)
  show ?thesis
    using c nz 1 p1
    by (auto simp: tcp_connect_def Let_def split: bind_splits option.splits if_splits
        dest: client_bind [where t = "t\<lparr>tcp_sock := s1\<rparr>" and ?w0.0 = w0, simplified])
qed

lemma client_dial:
  assumes st: "api_step S a s = Some (r, s')" and d: "dials S a" and inv: "socket_inv oth lost s"
    and p: "client_frame w0 (im_tcp (so_impl s)) (so_world s)"
  shows "client_frame w0 (im_tcp (so_impl s')) (so_world s')"
proof -
  obtain comm j sv pt ok i' h' w' where
    f: "impl_connect_with S comm j sv pt (so_heap s) (so_world s) = Some (ok, i', h', w')"
      "s' = s\<lparr>so_impl := i', so_heap := h', so_world := w'\<rparr>"
      "im_tcp j = im_tcp (so_impl s)" "im_lastconnect j = im_lastconnect (so_impl s)"
    and fresh: "\<And>w :: 'e world. tls_books oth {#} {#} w \<Longrightarrow> obj_books oth comm w" and kind: "L comm"
    using dial_form [OF st d] fresh_kind secure_kind by blast
  have ok: "impl_ok j (so_heap s)" and b: "tcp_books oth lost (im_tcp j) (so_world s)"
    using inv f(3,4) impl_ok_same [of j "so_impl s" "so_heap s"] by (simp_all add: socket_inv_def)
  obtain qs fs where qs: "proxies (so_heap s) (im_lastconnect j) qs" and fs: "connected j (so_heap s) fs"
    using ok impl_ok_connected [OF ok] by (auto simp: impl_ok_def)
  obtain t1 h1 t2 w2 t3 where 1: "impl_prepare j (so_heap s) = Some (t1, h1)"
    and 2: "tcp_setComm S comm t1 (so_world s) = Some (t2, w2)"
    and 3: "tcp_connect S t2 sv pt h1 w2 = Some (ok, t3, h', w')" "im_tcp i' = t3"
    using f(1) by (auto simp: impl_connect_with_def split: bind_splits)
  note pre = impl_prepare_ok [OF ok qs fs 1]
  have "tcp_books oth lost t1 (so_world s)" using b pre by simp
  from tcp_setComm_books [OF 2 this fresh]
  have b2: "tcp_books oth lost t2 w2" "tcp_conn t2 = hp_next (so_heap s)" using pre by auto
  have "client_frame w0 t1 (so_world s)" using p pre f(3) by simp
  from client_setComm [OF 2 kind this] have "client_frame w0 t2 w2" .
  moreover have "route h1 (tcp_conn t2) qs" using pre b2(2) by simp
  ultimately show ?thesis using client_connect [OF 3(1) _ b2(1)] 3(2) f(2) by simp
qed

lemma client_step:
  assumes st: "api_step S a s = Some (r, s')" and inv: "socket_inv oth lost s"
    and p: "client_frame w0 (im_tcp (so_impl s)) (so_world s)"
  shows "client_frame w0 (im_tcp (so_impl s')) (so_world s')"
proof (cases "same_layer a \<or> dials S a")
  case True
  then show ?thesis using client_quiet [OF st _ p] client_dial [OF st _ inv p] by blast
next
  case False
  then show ?thesis
    using st p
    by (cases a) (auto simp: ret_iw_def ret_ihw_def impl_close_def impl_connectSSL_def impl_startSSL_def
        dials_def Let_def split: bind_splits if_splits dest: client_close client_startSSL)
qed

lemma client_run:
  assumes "api_run S as s = Some (rs, s')"
    and "consistent s \<and> client_frame w0 (im_tcp (so_impl s)) (so_world s)"
  shows "consistent s' \<and> client_frame w0 (im_tcp (so_impl s')) (so_world s')"
  by (rule api_run_keeps [where I = "\<lambda>s. consistent s \<and> client_frame w0 (im_tcp (so_impl s)) (so_world s)", OF assms])
    (use api_step_consistent client_step in \<open>unfold consistent_def, blast\<close>)

end

subsection \<open>A secure layer: nothing bypasses TLS\<close>

interpretation tls: io_layer isSecure tls_io S for S
proof (unfold_locales, goal_cases)
  case (1 c d w rc c' w')
  then show ?case by (cases c) (auto simp: io_frame_def split: bind_splits dest!: ssh_io_frame)
next
  case (2 c n w rc bs c' w')
  then show ?case by (cases c) (auto simp: io_frame_def split: bind_splits dest!: ssh_io_frame)
next
  case (3 c n m)
  then show ?case by (cases c) simp_all
qed

text \<open>\<open>startSSL\<close> on a secure layer refuses without a call.\<close>

lemma startSSL_secure:
  assumes "tcp_startSSL S t hn v w = Some (ok, t', w')" "\<And>c. tcp_comm t = Some c \<Longrightarrow> isSecure c"
  shows "\<exists>e. t' = tcp_setError e t \<and> w' = w \<and> \<not> ok"
  using assms by (auto simp: tcp_startSSL_def split: if_splits option.splits)

lemma tls_step:
  assumes st: "api_step S a s = Some (r, s')" and a: "\<not> connects a" "a \<noteq> Api_close"
    and p: "tls.client_frame w0 (im_tcp (so_impl s)) (so_world s)"
  shows "tls.client_frame w0 (im_tcp (so_impl s')) (so_world s')"
proof (cases "a = Api_startSSL")
  case True
  have "isSecure c" if "tcp_comm (im_tcp (so_impl s)) = Some c" for c
    using p that by (simp add: tls.client_frame_def)
  then show ?thesis
    using st True p
    by (auto simp: ret_iw_def impl_startSSL_def Let_def split: bind_splits if_splits dest!: startSSL_secure)
next
  case False
  then have "same_layer a" using a by (cases a) simp_all
  then show ?thesis using tls.client_quiet [OF st _ p] by blast
qed

lemma tls_run:
  assumes "api_run S as s = Some (rs, s')" "tls.client_frame w0 (im_tcp (so_impl s)) (so_world s)"
    and "\<forall>a \<in> set as. \<not> connects a \<and> a \<noteq> Api_close"
  shows "tls.client_frame w0 (im_tcp (so_impl s')) (so_world s')"
  by (rule api_run_keeps [where I = "\<lambda>s. tls.client_frame w0 (im_tcp (so_impl s)) (so_world s)", OF assms(1,2)])
    (rule tls_step, assumption, use assms(3) in simp_all)

text \<open>
  C13. TLS is never bypassed: while the layer is secure, every method but \<open>close\<close> and the
  \<open>connect\<close>s, in any order and whatever the peer does, makes only the calls of an OpenSSL session
  (and of waiting for it): no byte is handed to \<open>send\<close> or taken from \<open>recv\<close> directly, no second
  session is made, and the layer stays secure.
\<close>

theorem tls_is_never_bypassed:
  assumes "api_run S as s = Some (rs, s')" "\<forall>a \<in> set as. \<not> connects a \<and> a \<noteq> Api_close"
    and "tcp_comm (im_tcp (so_impl s)) = Some (SSH_Comm c)"
  shows "emits tls_io (so_world s) (so_world s')
    \<and> (\<forall>c'. tcp_comm (im_tcp (so_impl s')) = Some c' \<longrightarrow> isSecure c')"
  using tls_run [OF assms(1) _ assms(2), of "so_world s"] assms(3) by (simp add: tls.client_frame_def)

subsection \<open>The calls of a build\<close>

text \<open>
  A build without OpenSSL makes no secure layer, so only the calls of the plain one; in a build with
  it every call is possible. In both the history only grows.
\<close>

lemma emits_built:
  "emits plain_io w w' \<Longrightarrow> emits (\<lambda>k. plain_call k \<or> b) w w'"
  "emits Q w w' \<Longrightarrow> emits (\<lambda>k. True) w w'"
  by (erule emits_mono, simp add: plain_io_def)+

interpretation built: client_layer "\<lambda>c. isSecure c \<longrightarrow> using_openssl (sys_build S)"
  "\<lambda>k. plain_call k \<or> using_openssl (sys_build S)" S for S
proof (unfold_locales, goal_cases)
  case (1 c d w rc c' w')
  then show ?case
    by (cases c) (auto simp: io_frame_def split: bind_splits
        dest!: normal_ops_emits(3) [OF _ emits_refl] ssh_io_frame intro: emits_built)
next
  case (2 c n w rc bs c' w')
  then show ?case
    by (cases c) (auto simp: io_frame_def split: bind_splits
        dest!: normal_ops_emits(4) [OF _ emits_refl] ssh_io_frame intro: emits_built)
next
  case (3 c n m)
  then show ?case by (cases c) simp_all
next
  case (4 fd c w ok c' w')
  then show ?case
    using obj_bind_frame [OF 4(1)]
    by (cases c) (auto split: bind_splits
        dest!: normal_ops_emits(1) [OF _ emits_refl] intro: emits_built)
next
  case (5 c w ok c' w')
  then show ?case
    using obj_finish_frame [OF 5(1)]
    by (cases c) (auto split: bind_splits
        dest!: normal_ops_emits(2) [OF _ emits_refl] intro: emits_built)
qed auto

lemma consistent_new: "consistent (socket_new (start e))"
  unfolding consistent_def by (rule exI, rule exI, rule socket_inv_new)

lemma new_socket:
  "tcp_comm (im_tcp (so_impl (socket_new (start e)))) = None" "so_world (socket_new (start e)) = start e"
  by (simp_all add: socket_new_def impl_new_def tcp_new_def)

text \<open>
  A build without OpenSSL never calls it: whatever methods are called in whatever order,
  \<open>connectSSL\<close> and \<open>startSSL\<close> included, only plain socket calls are made.
\<close>

theorem plain_build_never_calls_tls:
  assumes "\<not> using_openssl (sys_build S)" "api_run S as (socket_new (start e)) = Some (rs, s)"
  shows "emits plain_call (start e) (so_world s)"
  using built.client_run [OF assms(2), of "start e", unfolded built.client_frame_def] assms(1)
  by (simp add: new_socket consistent_new)

text \<open>Worked examples.\<close>

lemma tls_is_never_bypassed_witness:
  "\<exists>s s' rs. so_world s = start [7] \<and> api_run stream_sys [Api_sends (Some [1, 2]), Api_startSSL, Api_read 0] s = Some (rs, s')
    \<and> emits tls_io (start [7]) (so_world s')
    \<and> (\<forall>c'. tcp_comm (im_tcp (so_impl s')) = Some c' \<longrightarrow> isSecure c')"
proof -
  let ?as = "[Api_sends (Some [1, 2]), Api_startSSL, Api_read 0]"
  define s :: "byte list socket" where
    "s = (demo_socket [7])\<lparr>so_impl := impl_new\<lparr>im_tcp := demo_tcp\<lparr>tcp_comm := Some (SSH_Comm demo_tls)\<rparr>\<rparr>\<rparr>"
  have w: "so_world s = start [7]" "tcp_comm (im_tcp (so_impl s)) = Some (SSH_Comm demo_tls)"
    by (simp_all add: s_def demo_socket_def socket_new_def)
  have "api_run stream_sys ?as s \<noteq> None"
    by (simp add: run s_def demo_socket_def demo_tcp_def demo_tls_def cong: bind_weak_cong)
  then obtain rs s' where 1: "api_run stream_sys ?as s = Some (rs, s')" by auto
  have "\<forall>a \<in> set ?as. \<not> connects a \<and> a \<noteq> Api_close" by simp
  from tls_is_never_bypassed [OF 1 this w(2), unfolded w(1)] 1 w(1) show ?thesis by blast
qed

lemma plain_build_never_calls_tls_witness:
  "\<exists>rs s. api_run (stream_sys\<lparr>sys_build := linux\<lparr>using_openssl := False\<rparr>\<rparr>)
       [Api_connectSSL (Some ''h'') 443, Api_connect (Some ''h'') 80, Api_startSSL] (socket_new (start [])) = Some (rs, s)
    \<and> emits plain_call (start []) (so_world s)"
proof -
  let ?S = "stream_sys\<lparr>sys_build := linux\<lparr>using_openssl := False\<rparr>\<rparr>"
  let ?as = "[Api_connectSSL (Some ''h'') 443, Api_connect (Some ''h'') 80, Api_startSSL]"
  have "api_run ?S ?as (socket_new (start [])) \<noteq> None"
    by (simp add: run cong: bind_weak_cong)
  then obtain rs s where 1: "api_run ?S ?as (socket_new (start [])) = Some (rs, s)" by auto
  have "\<not> using_openssl (sys_build ?S)" by simp
  from plain_build_never_calls_tls [OF this 1] 1 show ?thesis by blast
qed

end
