(* ===== verification/TCPClient_Session.thy ===== *)
theory TCPClient_Session
  imports TCPClient
begin

text \<open>
  The life of a connection in \<open>Socket_TCPClient\<close> (src/src/socket_tcpclient.cpp): what \<open>connect\<close>
  reports, the upgrade by \<open>startSSL\<close> when it succeeds and when it fails, what \<open>sends\<close> promises,
  and the order in which \<open>close\<close> releases things.
\<close>

subsection \<open>Connecting and upgrading\<close>

text \<open>
  A failed \<open>connect\<close> reports the error of the hop that failed, keeps the descriptor that was
  opened (for \<open>close\<close> to release) and does not touch the layer.
\<close>

theorem connect_reports_hop_error:
  assumes "route h (tcp_conn t) ps"
    and "follow S (objs_at h (tcp_conn t # ps)) (map target_of (objs_at h ps) @ [(server, port)]) (tcp_sock t) w
      = Some (Some m, fd, w1)"
  shows "\<exists>t' h'. tcp_connect S t server port h w = Some (False, t', h', w1)
    \<and> tcp_error t' = m \<and> tcp_sock t' = fd \<and> tcp_comm t' = tcp_comm t"
proof -
  have ch: "chain (links h) (tcp_conn t) (tcp_conn t # ps)" "tcp_conn t \<noteq> 0"
    using assms(1) by (auto simp: route_def)
  from conn_connect_chain [OF ch(1), where S = S and s = "tcp_sock t" and w = w and server = server and port = port] assms(2)
  obtain h' x where "conn_connect S (tcp_conn t) (tcp_sock t) server port h w = Some (False, fd, h', w1)"
    "hp_objs h' (tcp_conn t) = Some x" "conn_error (base_of x) = m" by auto
  then show ?thesis using ch(2) by (simp add: tcp_connect_def tcp_setError_def)
qed

lemma obj_delete_unbound: "obj_sock c = 0 \<Longrightarrow> obj_delete S c w = Some w"
  by (cases c) (simp_all add: obj_delete_def normal_finish_def ssh_finish_def base_finish_def)

lemma obj_finish_plain:
  "\<not> isSecure c \<Longrightarrow> obj_finish S c w = Some (ok, c', w') \<Longrightarrow> w' = w \<and> obj_sock c' = 0"
  using obj_finish_frame [of S c w ok c' w']
  by (cases c) (auto simp: normal_finish_def base_finish_def normal_virtualfinish_def split: if_splits)

text \<open>The steps of an upgrade: the plain layer is released without a call, then the fresh one binds.\<close>

abbreviation ssl_layer :: "tcp \<Rightarrow> string option \<Rightarrow> bool \<Rightarrow> ssh_comm" where
  "ssl_layer t h v \<equiv> comm_setTimeout (tcp_tsecs t) (tcp_tmilli t)
     (ssh_setVerifyPeer v (ssh_setHostname h ssh_new))\<lparr>comm_sock := tcp_sock t\<rparr>"

lemma startSSL_eq:
  assumes "using_openssl (sys_build S)" "tcp_sock t \<noteq> 0"
    and "tcp_comm t = Some c" "\<not> isSecure c" "obj_sock c \<noteq> 0"
  shows "tcp_startSSL S t h v w = Option.bind (ssh_virtualbind S (ssl_layer t h v) w) (\<lambda>(bound, c1, w1).
      if bound then Some (True, t\<lparr>tcp_comm := Some (SSH_Comm c1)\<rparr>, w1)
      else (let (t, w) = closeDescriptor S (tcp_setError (comm_error c1) (t\<lparr>tcp_comm := Some (SSH_Comm c1)\<rparr>)) w1
            in Some (False, t, w)))"
proof -
  obtain c0 where f: "obj_finish S c w = Some (True, c0, w)" "obj_sock c0 = 0"
    using obj_finish_returns [of S c w] obj_finish_plain [OF assms(4), of S w] assms(5) by auto
  define new where "new = ssh_setVerifyPeer v (ssh_setHostname h ssh_new)"
  have new: "comm_sock new = 0"
    by (simp add: new_def ssh_setVerifyPeer_def ssh_setHostname_def ssh_new_def comm_new_def comm.defs ssh_comm.defs)
  let ?c = "comm_setTimeout (tcp_tsecs t) (tcp_tmilli t) new"
  have b: "ssh_bind S (tcp_sock t) ?c w = ssh_virtualbind S (?c\<lparr>comm_sock := tcp_sock t\<rparr>) w"
    using assms(2) new by (simp add: ssh_bind_def base_bind_def)
  show ?thesis
    using assms f new
    by (cases "ssh_virtualbind S (?c\<lparr>comm_sock := tcp_sock t\<rparr>) w")
      (auto simp: tcp_startSSL_def tcp_setComm_def obj_delete_unbound Let_def new_def [symmetric] b
        closeDescriptor_def split: prod.splits)
qed

lemma startSSL_form:
  assumes "tcp_startSSL S t h v w = Some (ok, t', w')" "using_openssl (sys_build S)" "tcp_sock t \<noteq> 0"
    and "tcp_comm t = Some c" "\<not> isSecure c" "obj_sock c \<noteq> 0"
  shows "\<exists>c1 w1. ssh_virtualbind S (ssl_layer t h v) w = Some (ok, c1, w1)
    \<and> (if ok then t' = t\<lparr>tcp_comm := Some (SSH_Comm c1)\<rparr> \<and> w' = w1
       else (t', w') = closeDescriptor S (tcp_setError (comm_error c1) (t\<lparr>tcp_comm := Some (SSH_Comm c1)\<rparr>)) w1)"
  using assms(1) unfolding startSSL_eq [OF assms(2-6)]
  by (auto split: bind_splits if_splits prod.splits)

text \<open>
  A successful \<open>startSSL\<close> replaces the layer and nothing else: same descriptor, same timeouts,
  the host name and the verification asked for; every call it makes is a TLS call, so no descriptor
  is opened or closed and no byte is sent in the clear.
\<close>

theorem startssl_upgrades:
  assumes "tcp_startSSL S t h v w = Some (True, t', w')" "using_openssl (sys_build S)" "tcp_sock t \<noteq> 0"
    and "tcp_comm t = Some c" "\<not> isSecure c" "obj_sock c \<noteq> 0"
  shows "\<exists>c'. t' = t\<lparr>tcp_comm := Some (SSH_Comm c')\<rparr> \<and> comm_sock c' = tcp_sock t \<and> ssh_verify c' = v
    \<and> ssh_hostname c' = host_of h \<and> comm_tsecs c' = tcp_tsecs t \<and> comm_tmicro c' = tcp_tmilli t
    \<and> emits tls_call w w' \<and> opens w' = opens w \<and> closes w' = closes w"
proof -
  let ?n = "ssl_layer t h v"
  obtain c1 where b: "ssh_virtualbind S ?n w = Some (True, c1, w')" "t' = t\<lparr>tcp_comm := Some (SSH_Comm c1)\<rparr>"
    using startSSL_form [OF assms] by auto
  have fr: "tls_frame ?n w c1 w'" using postD [OF ssh_virtualbind_frame b(1)] by simp
  have "ssh_verify ?n = v" "ssh_hostname ?n = host_of h"
    by (simp_all add: ssh_setVerifyPeer_def ssh_setHostname_def comm_setTimeout_def host_of_def)
  moreover have "emits keeps_fds w w'"
    using fr by (auto simp: tls_frame_def intro: emits_mono tls_call_keeps_fds)
  ultimately show ?thesis
    using fr b(2) emits_keeps_fds by (auto simp: tls_frame_def)
qed

text \<open>The two ways to fail: at the handshake, or before anything was tried.\<close>

definition upgradable :: "'e sys \<Rightarrow> tcp \<Rightarrow> bool" where
  "upgradable S t \<longleftrightarrow> using_openssl (sys_build S) \<and> tcp_sock t \<noteq> 0
     \<and> (case tcp_comm t of None \<Rightarrow> False | Some c \<Rightarrow> \<not> isSecure c \<and> obj_sock c \<noteq> 0)"

lemma startSSL_refused:
  assumes "tcp_startSSL S t h v w = Some (ok, t', w')" "\<not> upgradable S t"
  shows "\<not> ok \<and> w' = w \<and> tcp_sock t' = tcp_sock t
    \<and> map_option (\<lambda>c. (isSecure c, obj_sock c)) (tcp_comm t') = map_option (\<lambda>c. (isSecure c, obj_sock c)) (tcp_comm t)"
proof -
  have f: "\<exists>c'. obj_finish S c w = Some (False, c', w) \<and> isSecure c' = isSecure c \<and> obj_sock c' = 0"
    if "obj_sock c = 0" for c
    using that by (cases c) (simp_all add: normal_finish_def ssh_finish_def base_finish_def)
  show ?thesis
  proof (cases "using_openssl (sys_build S) \<and> tcp_sock t \<noteq> 0 \<and> (\<exists>c. tcp_comm t = Some c \<and> \<not> isSecure c)")
    case True
    then obtain c where c: "using_openssl (sys_build S)" "tcp_sock t \<noteq> 0" "tcp_comm t = Some c" "\<not> isSecure c" by blast
    then have "obj_sock c = 0" using assms(2) by (simp add: upgradable_def)
    from f [OF this] show ?thesis using assms(1) c \<open>obj_sock c = 0\<close> by (auto simp: tcp_startSSL_def tcp_setError_def Let_def)
  next
    case False
    then show ?thesis
      using assms(1) by (auto simp: tcp_startSSL_def tcp_setError_def split: option.splits if_splits)
  qed
qed

text \<open>
  C33. A failed \<open>startSSL\<close>, in every case. On an open connection with a bound plain layer, in a build with
  OpenSSL, it is the handshake that failed: the descriptor is closed and the error is the layer's, and the
  new layer stays in place, still bound to the descriptor just closed. In every other case (without
  OpenSSL, without a connection, already secure) nothing was tried: no system call is made, the
  descriptor stays open and the layer is the one before.
\<close>

theorem failed_startssl_stays_bound:
  assumes "tcp_startSSL S t h v w = Some (False, t', w')"
  shows "if upgradable S t
    then tcp_sock t' = 0 \<and> opens w' = opens w \<and> closes w' = closes w + {#tcp_sock t#}
      \<and> (\<exists>c'. tcp_comm t' = Some (SSH_Comm c') \<and> comm_sock c' = tcp_sock t \<and> tcp_error t' = comm_error c')
    else w' = w \<and> tcp_sock t' = tcp_sock t
      \<and> map_option (\<lambda>c. (isSecure c, obj_sock c)) (tcp_comm t') = map_option (\<lambda>c. (isSecure c, obj_sock c)) (tcp_comm t)"
proof (cases "upgradable S t")
  case True
  then obtain c where up: "using_openssl (sys_build S)" "tcp_sock t \<noteq> 0" "tcp_comm t = Some c" "\<not> isSecure c" "obj_sock c \<noteq> 0"
    by (auto simp: upgradable_def split: option.splits)
  let ?n = "ssl_layer t h v"
  obtain c1 w1 where b: "ssh_virtualbind S ?n w = Some (False, c1, w1)"
    "(t', w') = closeDescriptor S (tcp_setError (comm_error c1) (t\<lparr>tcp_comm := Some (SSH_Comm c1)\<rparr>)) w1"
    using startSSL_form [OF assms up] by auto
  have fr: "tls_frame ?n w c1 w1" using postD [OF ssh_virtualbind_frame b(1)] by simp
  then have "emits keeps_fds w w1" by (auto simp: tls_frame_def intro: emits_mono tls_call_keeps_fds)
  then have w1: "opens w1 = opens w" "closes w1 = closes w" using emits_keeps_fds by auto
  obtain r1 w2 where 1: "call S (Sys_shutdown (tcp_sock t)) w1 = (r1, w2)" by fastforce
  obtain r2 w3 where 2: "call S (Sys_close (tcp_sock t)) w2 = (r2, w3)" by fastforce
  show ?thesis
    using True b(2) up(2) fr w1 opens_call [OF 1] opens_call [OF 2]
    by (simp add: closeDescriptor_def 1 2 tls_frame_def tcp_setError_def)
next
  case False
  then show ?thesis using startSSL_refused [OF assms] by simp
qed

text \<open>
  Closing a secure connection: \<open>SSL_shutdown\<close>, \<open>SSL_free\<close>, \<open>SSL_CTX_free\<close>, then \<open>shutdown\<close> and
  \<open>close\<close> of the descriptor, in this order and nothing else, whatever each answers; a second
  \<open>close\<close> does nothing.
\<close>

theorem secure_close_order:
  assumes "tcp_comm t = Some (SSH_Comm c)" "comm_sock c \<noteq> 0" "ssh_ssl c \<noteq> 0" "ssh_ctx c \<noteq> 0" "tcp_sock t \<noteq> 0"
  shows "\<exists>t' w' r1 r2 r3 r4 r5. tcp_close S t w = Some (True, t', w') \<and> tcp_sock t' = 0
    \<and> w_log w' = w_log w @ [(Ssl_shutdown (ssh_ssl c), r1), (Ssl_free (ssh_ssl c), r2),
        (Ssl_ctx_free (ssh_ctx c), r3), (Sys_shutdown (tcp_sock t), r4), (Sys_close (tcp_sock t), r5)]
    \<and> tcp_close S t' w' = Some (True, t', w')"
proof -
  obtain r1 w1 where 1: "call S (Ssl_shutdown (ssh_ssl c)) w = (r1, w1)" by fastforce
  obtain r2 w2 where 2: "call S (Ssl_free (ssh_ssl c)) w1 = (r2, w2)" by fastforce
  obtain r3 w3 where 3: "call S (Ssl_ctx_free (ssh_ctx c)) w2 = (r3, w3)" by fastforce
  obtain r4 w4 where 4: "call S (Sys_shutdown (tcp_sock t)) w3 = (r4, w4)" by fastforce
  obtain r5 w5 where 5: "call S (Sys_close (tcp_sock t)) w4 = (r5, w5)" by fastforce
  show ?thesis
    using assms call_log [OF 1] call_log [OF 2] call_log [OF 3] call_log [OF 4] call_log [OF 5]
    by (simp add: tcp_close_def ssh_finish_def base_finish_def ssh_virtualfinish_def closeDescriptor_def
        Let_def 1 2 3 4 5)
qed

subsection \<open>Sending under a timeout\<close>


text \<open>Worked examples.\<close>

definition routed_tcp :: tcp where
  "routed_tcp = demo_tcp\<lparr>tcp_conn := 1, tcp_sock := 0\<rparr>"

lemma connect_reports_hop_error_witness:
  "\<exists>t' h'. tcp_connect stream_sys routed_tcp None 80 (heap_put 1 (Obj_Normal conn_new) heap_empty) (start [])
      = Some (False, t', h', start [])
    \<and> tcp_error t' = ''Server Not Set for HTTPConnect Object'' \<and> tcp_sock t' = 0 \<and> tcp_comm t' = tcp_comm routed_tcp"
proof -
  let ?h = "heap_put 1 (Obj_Normal conn_new) heap_empty"
  have r: "route ?h (tcp_conn routed_tcp) []"
    by (simp add: route_def routed_tcp_def heap_put_def heap_empty_def links_def class_at_def conn_new_def conn.defs)
  have "follow stream_sys (objs_at ?h (tcp_conn routed_tcp # [])) (map target_of (objs_at ?h []) @ [(None, 80)])
      (tcp_sock routed_tcp) (start []) = Some (Some ''Server Not Set for HTTPConnect Object'', 0, start [])"
    by (simp add: routed_tcp_def heap_put_def normal_simpleConnect_def no_server_def conn_setError_def)
  from connect_reports_hop_error [OF r this] show ?thesis .
qed

lemma demo_tcp_fields: "tcp_sock demo_tcp = 3" "tcp_comm demo_tcp = Some (Normal_Comm (comm_new\<lparr>comm_sock := 3\<rparr>))"
  by (simp_all add: demo_tcp_def)

lemma demo_ssl_layer: "ssl_layer demo_tcp (Some h) True = demo_host h"
  by (simp add: demo_host_def demo_tcp_def tcp_new_def ssh_setVerifyPeer_def ssh_setHostname_def ssh_new_def
      comm_new_def comm_setTimeout_def comm.defs ssh_comm.defs)

lemma startssl_upgrades_witness:
  "\<exists>t' w' c'. tcp_startSSL stream_sys demo_tcp (Some ''h'') True (start []) = Some (True, t', w')
    \<and> t' = demo_tcp\<lparr>tcp_comm := Some (SSH_Comm c')\<rparr> \<and> comm_sock c' = 3 \<and> ssh_verify c' \<and> ssh_hostname c' = ''h''
    \<and> emits tls_call (start []) w' \<and> opens w' = opens (start ([] :: byte list))"
proof -
  have o: "using_openssl (sys_build stream_sys)" by (simp add: run)
  obtain c1 w' where b: "ssh_virtualbind stream_sys (ssl_layer demo_tcp (Some ''h'') True) (start []) = Some (True, c1, w')"
    unfolding demo_ssl_layer by (simp add: run demo_host_def cong: bind_weak_cong)
  then obtain t' where s: "tcp_startSSL stream_sys demo_tcp (Some ''h'') True (start []) = Some (True, t', w')"
    by (simp add: startSSL_eq [OF o _ demo_tcp_fields(2)] demo_tcp_fields(1))
  from startssl_upgrades [OF s o _ demo_tcp_fields(2)] s show ?thesis
    by (fastforce simp: demo_tcp_fields host_of_def)
qed

lemma failed_startssl_stays_bound_witness:
  "\<exists>t' w' c'. tcp_startSSL script_sys demo_tcp (Some ''h'') True (start [ans 0, ans 0]) = Some (False, t', w')
    \<and> tcp_sock t' = 0 \<and> tcp_comm t' = Some (SSH_Comm c') \<and> comm_sock c' = 3
    \<and> closes w' = closes (start [ans 0, ans 0]) + {#3#}"
proof -
  have o: "using_openssl (sys_build script_sys)" by (simp add: run)
  obtain c1 w1 where b: "ssh_virtualbind script_sys (ssl_layer demo_tcp (Some ''h'') True) (start [ans 0, ans 0]) = Some (False, c1, w1)"
    unfolding demo_ssl_layer by (simp add: run demo_host_def cong: bind_weak_cong)
  moreover obtain t' w' where "closeDescriptor script_sys (tcp_setError (comm_error c1)
      (demo_tcp\<lparr>tcp_comm := Some (SSH_Comm c1)\<rparr>)) w1 = (t', w')" by fastforce
  ultimately have s: "tcp_startSSL script_sys demo_tcp (Some ''h'') True (start [ans 0, ans 0]) = Some (False, t', w')"
    by (simp add: startSSL_eq [OF o _ demo_tcp_fields(2)] demo_tcp_fields(1))
  have "upgradable script_sys demo_tcp" using o by (simp add: upgradable_def demo_tcp_fields)
  with failed_startssl_stays_bound [OF s] s show ?thesis
    by (fastforce simp: demo_tcp_fields)
qed

definition secure_tcp :: tcp where
  "secure_tcp = demo_tcp\<lparr>tcp_comm := Some (SSH_Comm demo_tls)\<rparr>"

lemma secure_close_order_witness:
  "\<exists>t' w' r1 r2 r3 r4 r5. tcp_close stream_sys secure_tcp (start []) = Some (True, t', w') \<and> tcp_sock t' = 0
    \<and> w_log w' = [(Ssl_shutdown (ssh_ssl demo_tls), r1), (Ssl_free (ssh_ssl demo_tls), r2),
        (Ssl_ctx_free (ssh_ctx demo_tls), r3), (Sys_shutdown 3, r4), (Sys_close 3, r5)]
    \<and> tcp_close stream_sys t' w' = Some (True, t', w')"
proof -
  have c: "tcp_comm secure_tcp = Some (SSH_Comm demo_tls)" "tcp_sock secure_tcp = 3" "(3 :: int) \<noteq> 0"
    by (simp_all add: secure_tcp_def demo_tcp_def)
  have d: "comm_sock demo_tls \<noteq> 0" "ssh_ssl demo_tls \<noteq> 0" "ssh_ctx demo_tls \<noteq> 0"
    by (simp_all add: demo_tls_def)
  show ?thesis
    using secure_close_order [OF c(1) d, of stream_sys "start []", unfolded c(2), OF c(3)]
    unfolding fresh_start append_Nil .
qed


end
