(* ===== verification/Socket_Closed.thy ===== *)
theory Socket_Closed
  imports Socket_API TCPClient_Session
begin

text \<open>
  What a \<open>Socket\<close> does between \<open>close\<close> and the next \<open>connect\<close>: every call answers at once and without a
  system call, those that need a connection with their failure.
\<close>

subsection \<open>A client that is not connected\<close>

text \<open>
  A layer that is bound to no descriptor, in a client that holds \<open>fd\<close> or, as after \<open>close\<close>, none. It
  holds one after a \<open>connect\<close> that a proxy refused, until \<open>close\<close> releases it.
\<close>

definition unbound_at :: "int \<Rightarrow> tcp \<Rightarrow> bool" where
  "unbound_at fd t \<longleftrightarrow> tcp_sock t = fd \<and> (\<forall>c. tcp_comm t = Some c \<longrightarrow> obj_sock c = 0)"

abbreviation detached :: "tcp \<Rightarrow> bool" where
  "detached t \<equiv> unbound_at 0 t"

lemma obj_unbound:
  "obj_sock c = 0 \<Longrightarrow> \<exists>c'. obj_send S c d w = Some (- 1, c', w) \<and> obj_sock c' = 0"
  "obj_sock c = 0 \<Longrightarrow> \<exists>c'. obj_read S c n w = Some (- 1, [], c', w) \<and> obj_sock c' = 0"
  by (cases c; simp add: normal_send_def ssh_send_def base_send_def normal_read_def ssh_read_def base_read_def)+

lemma unbound_fields [simp]:
  "unbound_at fd (tcp_setError e t) = unbound_at fd t" "unbound_at fd (t\<lparr>tcp_readbuffer := b\<rparr>) = unbound_at fd t"
  "unbound_at fd (t\<lparr>tcp_conn := p\<rparr>) = unbound_at fd t"
  by (simp_all add: unbound_at_def)

lemma unbound_send:
  assumes "unbound_at fd t"
  shows "\<exists>t'. tcp_send S t d w = Some (- 1, t', w) \<and> unbound_at fd t'"
proof (cases "tcp_comm t")
  case None
  then show ?thesis using assms by (auto simp: tcp_send_def)
next
  case (Some c)
  then obtain c' where "obj_send S c d w = Some (- 1, c', w)" "obj_sock c' = 0"
    using assms obj_unbound(1) [of c S d w] by (auto simp: unbound_at_def)
  then show ?thesis using Some assms by (auto simp: tcp_send_def unbound_at_def)
qed

lemma unbound_sends:
  assumes "unbound_at fd t"
  shows "\<exists>t'. tcp_sends S t b w = Some (case b of None \<Rightarrow> False | Some d \<Rightarrow> int32 (int (length d)) = 0, t', w)
    \<and> unbound_at fd t'"
proof (cases b)
  case None
  then show ?thesis using assms by (auto simp: tcp_sends_def)
next
  case (Some d)
  show ?thesis
  proof (cases "tcp_comm t")
    case None
    then show ?thesis using Some assms by (auto simp: tcp_sends_def)
  next
    case c: (Some c)
    then obtain c' where "obj_send S c (c_slice d) w = Some (- 1, c', w)" "obj_sock c' = 0"
      using assms obj_unbound(1) [of c S "c_slice d" w] by (auto simp: unbound_at_def)
    then show ?thesis using Some c assms by (auto simp: tcp_sends_def unbound_at_def)
  qed
qed

lemma unbound_read:
  "unbound_at fd t \<Longrightarrow> \<exists>t'. tcp_read S t n w = Some (- 1, [], t', w) \<and> unbound_at fd t'"
  using obj_unbound(2) [of _ S n w]
  by (cases "tcp_comm t") (fastforce simp: tcp_read_def unbound_at_def)+

lemma unbound_loops:
  assumes "unbound_at fd t"
  shows "\<exists>t'. tcp_reads S t w = Some (None, t', w) \<and> unbound_at fd t'"
    "\<exists>t'. tcp_readline S t w = Some (None, t', w) \<and> unbound_at fd t'"
proof -
  obtain t' where t': "tcp_read S (t\<lparr>tcp_readbuffer := []\<rparr>) 1 w = Some (- 1, [], t', w)" "unbound_at fd t'"
    using unbound_read [of fd "t\<lparr>tcp_readbuffer := []\<rparr>" S 1 w] assms by auto
  then have "reads_turn (tcp_read_one S) ([], t\<lparr>tcp_readbuffer := []\<rparr>, w) = Some (Inl (None, [], t', w))"
    "readline_turn (tcp_read_one S) ([], 0, t\<lparr>tcp_readbuffer := []\<rparr>, w) = Some (Inl (None, [], t', w))"
    by (simp_all add: reads_turn_def readline_turn_def tcp_read_one_def)
  then show "\<exists>t'. tcp_reads S t w = Some (None, t', w) \<and> unbound_at fd t'"
    "\<exists>t'. tcp_readline S t w = Some (None, t', w) \<and> unbound_at fd t'"
    using t'(2) by (auto simp: tcp_reads_def tcp_readline_def forever_unfold)
qed

lemma detached_close: "detached t \<Longrightarrow> tcp_close S t w = Some (True, t, w)"
  by (simp add: tcp_close_def unbound_at_def)

lemma detached_startSSL: "detached t \<Longrightarrow> \<exists>t'. tcp_startSSL S t h v w = Some (False, t', w) \<and> detached t'"
  by (cases "tcp_comm t") (auto simp: tcp_startSSL_def unbound_at_def)

lemma detached_setTimeout:
  "tcp_setTimeout n m t h = Some (t', h') \<Longrightarrow> detached t \<Longrightarrow> detached t'"
  by (auto simp: tcp_setTimeout_def Let_def unbound_at_def split: bind_splits)

lemma close_detaches:
  assumes "tcp_close S t w = Some (ok, t', w')" "tcp_sock t \<noteq> 0"
  shows "detached t'"
proof (cases "tcp_comm t")
  case None
  then show ?thesis
    using assms by (auto simp: tcp_close_def closeDescriptor_def unbound_at_def split: prod.splits if_splits)
next
  case (Some c)
  obtain ok1 c1 w1 where f: "obj_finish S c w = Some (ok1, c1, w1)" using obj_finish_returns by blast
  then show ?thesis
    using assms Some obj_finish_frame [OF f]
    by (auto simp: tcp_close_def closeDescriptor_def unbound_at_def tcp_setError_def Let_def split: prod.splits if_splits)
qed

subsection \<open>Calls on a closed socket\<close>

text \<open>The result of each call but the connects on a socket that is not connected.\<close>

fun refuses :: "api \<Rightarrow> api_result \<Rightarrow> bool" where
  "refuses (Api_send d) r = (r = Ret_int (- 1))"
| "refuses (Api_read n) r = (r = Ret_data (- 1) [])"
| "refuses Api_reads r = (r = Ret_text None)"
| "refuses Api_readline r = (r = Ret_text None)"
| "refuses (Api_sends b) r = (r = Ret_bool (case b of None \<Rightarrow> False | Some d \<Rightarrow> int32 (int (length d)) = 0))"
| "refuses Api_startSSL r = (r = Ret_bool False)"
| "refuses Api_close r = (r = Ret_bool True)"
| "refuses (Api_setTimeout n m) r = (r = Ret_void)"
| "refuses (Api_setSSLVerify v) r = (r = Ret_void)"
| "refuses (Api_insertTunnel sv p) r = (r = Ret_bool True)"
| "refuses (Api_insertProxy sv p) r = (r = Ret_bool True)"
| "refuses (Api_insertSocks4 sv p u) r = (r = Ret_bool True)"
| "refuses (Api_insertSocks5 sv p u pw) r = (r = Ret_bool True)"
| "refuses Api_getError r = (case r of Ret_error e \<Rightarrow> True | _ \<Rightarrow> False)"
| "refuses a r = True"

lemma detached_step:
  assumes st: "api_step S a s = Some (r, s')" and d: "detached (im_tcp (so_impl s))" and a: "\<not> connects a"
  shows "so_world s' = so_world s \<and> detached (im_tcp (so_impl s')) \<and> refuses a r"
proof (cases a)
  case Api_startSSL
  then show ?thesis
    using st detached_startSSL [OF d, of S "Some (im_lastserver (so_impl s))" "im_sslverify (so_impl s)" "so_world s"] d
    by (auto simp: ret_iw_def impl_startSSL_def Let_def split: if_splits bind_splits)
next
  case (Api_setTimeout n m)
  then show ?thesis
    using st detached_setTimeout d by (auto simp: impl_setTimeout_def split: bind_splits)
next
  case (Api_insertTunnel sv p)
  then show ?thesis using st d
    by (auto simp: ret_ih_def impl_insertTunnel_def impl_insert_def Let_def split: bind_splits prod.splits if_splits)
next
  case (Api_insertProxy sv p)
  then show ?thesis using st d
    by (auto simp: ret_ih_def impl_insertProxy_def impl_insert_def Let_def split: bind_splits prod.splits if_splits)
next
  case (Api_insertSocks4 sv p u)
  then show ?thesis using st d
    by (auto simp: ret_ih_def impl_insertSocks4_def impl_insert_def Let_def split: bind_splits prod.splits if_splits)
next
  case (Api_insertSocks5 sv p u pw)
  then show ?thesis using st d
    by (auto simp: ret_ih_def impl_insertSocks5_def impl_insert_def Let_def split: bind_splits prod.splits if_splits)
next
  case (Api_send b)
  then show ?thesis using st unbound_send [OF d, of S b "so_world s"] by (auto simp: ret_iw_def impl_send_def)
next
  case (Api_sends b)
  then show ?thesis using st unbound_sends [OF d, of S b "so_world s"] by (auto simp: ret_iw_def impl_sends_def)
next
  case (Api_read n)
  then show ?thesis using st unbound_read [OF d, of S n "so_world s"] by (auto simp: impl_read_def)
next
  case Api_reads
  then show ?thesis using st unbound_loops(1) [OF d, of S "so_world s"] by (auto simp: ret_iw_def impl_reads_def)
next
  case Api_readline
  then show ?thesis using st unbound_loops(2) [OF d, of S "so_world s"] by (auto simp: ret_iw_def impl_readline_def)
next
  case Api_close
  then show ?thesis using st detached_close [OF d, of S "so_world s"] d by (auto simp: ret_iw_def impl_close_def)
next
  case (Api_setSSLVerify v)
  then show ?thesis using st d by (auto simp: impl_setSSLVerify_def)
qed (use st d a in auto)

lemma detached_run:
  "api_run S as s = Some (rs, s') \<Longrightarrow> detached (im_tcp (so_impl s)) \<Longrightarrow> \<forall>a \<in> set as. \<not> connects a \<Longrightarrow>
   so_world s' = so_world s \<and> list_all2 refuses as rs"
proof (induction as arbitrary: s rs)
  case (Cons a as)
  then obtain r s1 rs1 where 1: "api_step S a s = Some (r, s1)" "api_run S as s1 = Some (rs1, s')" "rs = r # rs1"
    by (auto split: bind_splits)
  from detached_step [OF 1(1) Cons.prems(2)] Cons.IH [OF 1(2)] Cons.prems(3) 1(3) show ?case by simp
qed simp

text \<open>
  C34. A closed socket is silent: after \<open>close\<close> of a connected socket, any calls other than the two
  \<open>connect\<close>s make no system call at all until the program connects again, and each has a fixed answer:
  \<open>send\<close> -1, \<open>read\<close> -1 and no bytes, \<open>reads\<close> and \<open>readline\<close> null, \<open>startSSL\<close> false, \<open>close\<close> true; the
  settings and the inserts, which need no connection, succeed, and \<open>getError\<close> returns a text, maybe the empty one. \<open>sends\<close> answers false, except for a text whose length is 0 as an \<open>int\<close>: it answers true, though
  the documentation asks for a connection.
\<close>

theorem closed_socket_is_silent:
  assumes "api_step S Api_close s = Some (r, s1)" "tcp_sock (im_tcp (so_impl s)) \<noteq> 0"
    and "api_run S as s1 = Some (rs, s2)" "\<forall>a \<in> set as. \<not> connects a"
  shows "so_world s2 = so_world s1 \<and> list_all2 refuses as rs"
proof -
  obtain ok t w where "tcp_close S (im_tcp (so_impl s)) (so_world s) = Some (ok, t, w)" "im_tcp (so_impl s1) = t"
    using assms(1) by (auto simp: ret_iw_def impl_close_def split: bind_splits)
  from close_detaches [OF this(1) assms(2)] this(2) detached_run [OF assms(3) _ assms(4)] show ?thesis by simp
qed

text \<open>Worked examples.\<close>

lemma closed_socket_is_silent_witness:
  "\<exists>s1 rs s2. api_step stream_sys Api_close (demo_socket [7]) = Some (Ret_bool True, s1)
    \<and> api_run stream_sys [Api_read 4, Api_send [1], Api_sends (Some [1]), Api_sends (Some []), Api_startSSL, Api_close] s1
        = Some (rs, s2)
    \<and> so_world s2 = so_world s1
    \<and> rs = [Ret_data (- 1) [], Ret_int (- 1), Ret_bool False, Ret_bool True, Ret_bool False, Ret_bool True]"
proof -
  let ?as = "[Api_read 4, Api_send [1], Api_sends (Some [1]), Api_sends (Some []), Api_startSSL, Api_close]"
  have "api_run stream_sys (Api_close # ?as) (demo_socket [7]) \<noteq> None"
    by (simp add: run demo_socket_def demo_tcp_def cong: bind_weak_cong)
  then obtain r s1 rs s2 where 1: "api_step stream_sys Api_close (demo_socket [7]) = Some (r, s1)"
    and 2: "api_run stream_sys ?as s1 = Some (rs, s2)"
    by (auto simp del: api_step.simps simp: api_run.simps(2) [of _ Api_close] split: bind_splits)
  have r: "r = Ret_bool True"
    using 1 by (auto simp: run demo_socket_def demo_tcp_def cong: bind_weak_cong)
  have n: "tcp_sock (im_tcp (so_impl (demo_socket [7]))) \<noteq> 0" by (simp add: demo_socket_def demo_tcp_def)
  have "\<forall>a \<in> set ?as. \<not> connects a" by simp
  from closed_socket_is_silent [OF 1 n 2 this] 1 2 r show ?thesis
    by (auto simp: list_all2_Cons1 int32_def simp del: api_run.simps api_step.simps)
qed

end
