(* ===== verification/Socket_Phases.thy ===== *)
theory Socket_Phases
  imports Socket_Calls Socket_Closed
begin

text \<open>
  The connection as a state machine. A program sees a \<open>Socket\<close> in one of four phases
  (\<open>Half_open\<close>: there is a descriptor, but no layer is bound to it), and
  \<open>phase_step\<close> says what each call may do to it, depending on the answer it gives. The detailed
  model refines this specification: every run of the class is a run of the machine.
\<close>

subsection \<open>The machine\<close>

datatype phase =
    Closed
  | Half_open
  | Plain
  | Secure

text \<open>\<open>ssl\<close>: OpenSSL is built in.\<close>

inductive phase_step :: "bool \<Rightarrow> api \<Rightarrow> api_result \<Rightarrow> phase \<Rightarrow> phase \<Rightarrow> bool" for ssl where
  quiet_stays: "same_layer a \<Longrightarrow> phase_step ssl a r p p"
| close_ends: "ok \<or> p = Half_open \<Longrightarrow> phase_step ssl Api_close (Ret_bool ok) p Closed"
| connect_opens: "phase_step ssl (Api_connect sv pt) (Ret_bool True) p Plain"
| connect_fails: "q = Closed \<or> q = Half_open \<Longrightarrow> phase_step ssl (Api_connect sv pt) (Ret_bool False) p q"
| connectSSL_opens: "ssl \<Longrightarrow> phase_step ssl (Api_connectSSL sv pt) (Ret_bool True) p Secure"
| connectSSL_fails: "ssl \<Longrightarrow> q \<noteq> Plain \<Longrightarrow> phase_step ssl (Api_connectSSL sv pt) (Ret_bool False) p q"
| connectSSL_absent: "\<not> ssl \<Longrightarrow> phase_step ssl (Api_connectSSL sv pt) (Ret_bool False) p p"
| startSSL_upgrades: "ssl \<Longrightarrow> phase_step ssl Api_startSSL (Ret_bool True) Plain Secure"
| startSSL_breaks: "ssl \<Longrightarrow> phase_step ssl Api_startSSL (Ret_bool False) Plain Closed"
| startSSL_refuses: "\<not> ssl \<or> p \<noteq> Plain \<Longrightarrow> phase_step ssl Api_startSSL (Ret_bool False) p p"

inductive_cases phase_close: "phase_step ssl Api_close r p q"
inductive_cases phase_startSSL: "phase_step ssl Api_startSSL r p q"
inductive_simps phase_step_simps: "phase_step ssl a r p q"

inductive phase_run :: "bool \<Rightarrow> api list \<Rightarrow> api_result list \<Rightarrow> phase \<Rightarrow> phase \<Rightarrow> bool" for ssl where
  phase_end: "phase_run ssl [] [] p p"
| phase_more: "phase_step ssl a r p p' \<Longrightarrow> phase_run ssl as rs p' q \<Longrightarrow> phase_run ssl (a # as) (r # rs) p q"

text \<open>What the machine promises: a secure connection stays one until the program ends it.\<close>

lemma secure_stays:
  "phase_step ssl a r Secure q \<Longrightarrow> \<not> connects a \<Longrightarrow> a \<noteq> Api_close \<Longrightarrow> q = Secure"
  by (erule phase_step.cases) auto

lemma secure_stays_run:
  "phase_run ssl as rs p q \<Longrightarrow> p = Secure \<Longrightarrow> \<forall>a \<in> set as. \<not> connects a \<and> a \<noteq> Api_close \<Longrightarrow> q = Secure"
  by (induction rule: phase_run.induct) (auto dest: secure_stays)

subsection \<open>The phase of a socket\<close>

definition tcp_phase :: "tcp \<Rightarrow> phase" where
  "tcp_phase t = (if tcp_sock t = 0 then Closed
     else case tcp_comm t of
       None \<Rightarrow> Half_open
     | Some c \<Rightarrow> if obj_sock c \<noteq> tcp_sock t then Half_open else if isSecure c then Secure else Plain)"

definition phase_of :: "'e socket \<Rightarrow> phase" where
  "phase_of s = tcp_phase (im_tcp (so_impl s))"

text \<open>The layer of an open connection is unbound or bound to the connection's own descriptor.\<close>

definition own_layer :: "tcp \<Rightarrow> bool" where
  "own_layer t \<longleftrightarrow> tcp_sock t = 0 \<or> (\<forall>c. tcp_comm t = Some c \<longrightarrow> obj_sock c = 0 \<or> obj_sock c = tcp_sock t)"

text \<open>Both depend on no more than this, which the \<open>same_layer\<close> calls keep.\<close>

definition tcp_view :: "tcp \<Rightarrow> int \<times> (int \<times> bool) option" where
  "tcp_view t = (tcp_sock t, map_option (\<lambda>c. (obj_sock c, isSecure c)) (tcp_comm t))"

lemma tcp_view_phase:
  "tcp_view t' = tcp_view t \<Longrightarrow> tcp_phase t' = tcp_phase t \<and> own_layer t' = own_layer t"
  by (cases "tcp_comm t"; cases "tcp_comm t'") (auto simp: tcp_view_def tcp_phase_def own_layer_def)

lemma tcp_view_fields [simp]:
  "tcp_view (tcp_setError e t) = tcp_view t" "tcp_view (t\<lparr>tcp_readbuffer := b\<rparr>) = tcp_view t"
  by (simp_all add: tcp_view_def)

lemma view_ops:
  "tcp_send S t d w = Some (rc, t', w') \<Longrightarrow> tcp_view t' = tcp_view t"
  "tcp_sends S t b w = Some (ok, t', w') \<Longrightarrow> tcp_view t' = tcp_view t"
  "tcp_read S t n w = Some (rc', bs, t', w') \<Longrightarrow> tcp_view t' = tcp_view t"
  by (auto simp: tcp_send_def tcp_sends_def tcp_read_def Let_def tcp_view_def
      split: bind_splits option.splits if_splits dest!: obj_send_frame obj_read_frame)

lemma view_texts:
  "tcp_reads S t w = Some (res, t', w') \<Longrightarrow> tcp_view t' = tcp_view t"
  "tcp_readline S t w = Some (res, t', w') \<Longrightarrow> tcp_view t' = tcp_view t"
  by (erule tcp_loops_inv [where I = "\<lambda>t' w'. tcp_view t' = tcp_view t", rotated -1];
      simp add: view_ops)+

lemma obj_setTimeout_view [simp]:
  "obj_sock (obj_setTimeout n m c) = obj_sock c" "isSecure (obj_setTimeout n m c) = isSecure c"
  by (cases c; simp)+

lemma view_setTimeout: "tcp_setTimeout n m t h = Some (t', h') \<Longrightarrow> tcp_view t' = tcp_view t"
  by (auto simp: tcp_setTimeout_def Let_def tcp_view_def option.map_comp o_def split: bind_splits)

lemma view_quiet:
  assumes st: "api_step S a s = Some (r, s')" and q: "same_layer a"
  shows "tcp_view (im_tcp (so_impl s')) = tcp_view (im_tcp (so_impl s))"
proof (cases "inserted a")
  case None
  then show ?thesis
    using st q
    by (cases a) (auto simp: ret_iw_def impl_send_def impl_sends_def impl_read_def impl_reads_def
        impl_readline_def impl_setSSLVerify_def impl_setTimeout_def Let_def split: bind_splits
        dest: view_ops view_texts view_setTimeout)
qed (use insert_no_io [OF _ st] in simp)

lemma finish_result:
  "obj_finish S c w = Some (ok, c', w') \<Longrightarrow> ok = (obj_sock c \<noteq> 0) \<and> obj_sock c' = 0 \<and> isSecure c' = isSecure c"
  using obj_finish_returns [of S c w] obj_finish_frame [of S c w ok c' w'] by auto

lemma phase_closes:
  assumes "tcp_close S t w = Some (ok, t', w')"
  shows "own_layer t' \<and> tcp_phase t' = Closed \<and> (ok \<or> tcp_phase t = Half_open)"
  using assms
  by (auto simp: tcp_close_def closeDescriptor_def tcp_phase_def own_layer_def Let_def split: if_splits prod.splits
      option.splits bind_splits dest!: finish_result)

lemma bind_result:
  assumes "obj_bind S s c w = Some (ok, c', w')" "obj_sock c = 0"
  shows "isSecure c' = isSecure c \<and> (if s = 0 then \<not> ok else obj_sock c' = s \<and> (ok \<or> isSecure c))"
  using assms obj_bind_frame [OF assms(1)]
  by (cases c) (auto simp: normal_bind_def ssh_bind_def base_bind_def normal_virtualbind_def split: bind_splits if_splits)

text \<open>The phases a call that connects may lead to.\<close>

definition dialled :: "bool \<Rightarrow> bool \<Rightarrow> tcp \<Rightarrow> bool" where
  "dialled secure ok t \<longleftrightarrow> own_layer t
     \<and> (if ok then tcp_phase t = (if secure then Secure else Plain)
        else tcp_phase t \<in> (if secure then {Closed, Half_open, Secure} else {Closed, Half_open}))"

lemma phase_connects:
  assumes c: "tcp_connect S t sv pt h w = Some (ok, t', h', w')" "tcp_comm t = Some c" "obj_sock c = 0"
  shows "dialled (isSecure c) ok t'"
  using c by (cases "tcp_conn t = 0")
    (auto simp: tcp_connect_def tcp_phase_def own_layer_def dialled_def tcp_setError_def Let_def
      split: bind_splits option.splits if_splits dest!: bind_result)

lemma phase_dials:
  assumes "impl_connect_with S comm i sv pt h w = Some (ok, i', h', w')" "obj_sock comm = 0"
  shows "dialled (isSecure comm) ok (im_tcp i')"
proof -
  obtain t1 h1 t2 w2 t3 where 2: "tcp_setComm S comm t1 w = Some (t2, w2)"
    and 3: "tcp_connect S t2 sv pt h1 w2 = Some (ok, t3, h', w')" "im_tcp i' = t3"
    using assms(1) by (auto simp: impl_connect_with_def split: bind_splits)
  have "tcp_comm t2 = Some (obj_setTimeout (tcp_tsecs t1) (tcp_tmilli t1) comm)"
    using 2 by (auto simp: tcp_setComm_def split: bind_splits)
  from phase_connects [OF 3(1) this] show ?thesis using assms(2) 3(2) by simp
qed

lemma phase_startSSL_step:
  assumes st: "tcp_startSSL S t hn v w = Some (ok, t', w')" and own: "own_layer t"
  shows "own_layer t'
    \<and> phase_step (using_openssl (sys_build S)) Api_startSSL (Ret_bool ok) (tcp_phase t) (tcp_phase t')"
proof (cases "using_openssl (sys_build S) \<and> tcp_phase t = Plain")
  case True
  then obtain c where c: "tcp_sock t \<noteq> 0" "tcp_comm t = Some c" "\<not> isSecure c" "obj_sock c \<noteq> 0"
    by (auto simp: tcp_phase_def split: if_splits option.splits)
  obtain c1 w1 where 1: "ssh_virtualbind S (ssl_layer t hn v) w = Some (ok, c1, w1)"
    "if ok then t' = t\<lparr>tcp_comm := Some (SSH_Comm c1)\<rparr> \<and> w' = w1
     else (t', w') = closeDescriptor S (tcp_setError (comm_error c1) (t\<lparr>tcp_comm := Some (SSH_Comm c1)\<rparr>)) w1"
    using startSSL_form [OF st conjunct1 [OF True] c] by blast
  have "comm_sock c1 = tcp_sock t" using postD [OF ssh_virtualbind_frame 1(1)] by (simp add: tls_frame_def)
  then show ?thesis
    using 1(2) c(1) True
    by (auto simp: tcp_phase_def closeDescriptor_def own_layer_def split: if_splits prod.splits
        intro: phase_step.intros)
next
  case False
  have "tcp_view t' = tcp_view t \<and> \<not> ok"
    using st False own
    by (auto simp: tcp_startSSL_def tcp_phase_def tcp_view_def own_layer_def Let_def
        split: if_splits option.splits bind_splits prod.splits dest!: finish_result)
  then show ?thesis using False own tcp_view_phase [of t' t] by (auto intro: phase_step.intros)
qed

subsection \<open>The class refines the machine\<close>

lemma phase_refines:
  assumes st: "api_step S a s = Some (r, s')" and own: "own_layer (im_tcp (so_impl s))"
  shows "own_layer (im_tcp (so_impl s'))
    \<and> phase_step (using_openssl (sys_build S)) a r (phase_of s) (phase_of s')"
proof (cases "same_layer a")
  case True
  then show ?thesis using tcp_view_phase [OF view_quiet [OF st True]] own by (simp add: quiet_stays phase_of_def)
next
  case False
  show ?thesis
  proof (cases a)
    case Api_close
    then show ?thesis
      using st by (auto simp: ret_iw_def impl_close_def phase_of_def split: bind_splits
          dest!: phase_closes intro: close_ends)
  next
    case Api_startSSL
    then show ?thesis
      using st own by (cases "using_openssl (sys_build S)")
        (auto simp: ret_iw_def impl_startSSL_def phase_of_def Let_def startSSL_refuses split: bind_splits
          dest!: phase_startSSL_step)
  next
    case (Api_connect sv pt)
    obtain i' h' w' ok where c: "impl_connect_with S (Normal_Comm comm_new)
        ((so_impl s)\<lparr>im_sslerror := [], im_lastserver := host_of sv\<rparr>) sv pt (so_heap s) (so_world s)
        = Some (ok, i', h', w')" "r = Ret_bool ok" "so_impl s' = i'"
      using st Api_connect by (auto simp: ret_ihw_def impl_connect_def split: bind_splits)
    have "obj_sock (Normal_Comm comm_new) = 0" by (simp add: comm_new_def)
    from phase_dials [OF c(1) this] show ?thesis
      using c(2,3) Api_connect by (cases ok; cases "phase_of s'")
        (auto simp: phase_of_def dialled_def intro: phase_step.intros)
  next
    case (Api_connectSSL sv pt)
    show ?thesis
    proof (cases "using_openssl (sys_build S)")
      case True
      let ?c = "SSH_Comm (ssh_setVerifyPeer (im_sslverify (so_impl s)) (ssh_setHostname sv ssh_new))"
      obtain i' h' w' ok where c: "impl_connect_with S ?c
          ((so_impl s)\<lparr>im_sslerror := [], im_lastserver := host_of sv\<rparr>) sv pt (so_heap s) (so_world s)
          = Some (ok, i', h', w')" "r = Ret_bool ok" "so_impl s' = i'"
        using st Api_connectSSL True by (auto simp: ret_ihw_def impl_connectSSL_def split: bind_splits)
      have "obj_sock ?c = 0"
        by (simp add: ssh_setVerifyPeer_def ssh_setHostname_def ssh_new_def comm_new_def comm.defs ssh_comm.defs)
      from phase_dials [OF c(1) this] show ?thesis
        using c(2,3) Api_connectSSL True by (cases ok; cases "phase_of s'")
          (auto simp: phase_of_def dialled_def intro: phase_step.intros)
    next
      case False
      then show ?thesis using st Api_connectSSL own
        by (auto simp: ret_ihw_def impl_connectSSL_def phase_of_def Let_def connectSSL_absent)
    qed
  qed (use False in simp_all)
qed

lemma phase_refines_run:
  "api_run S as s = Some (rs, s') \<Longrightarrow> own_layer (im_tcp (so_impl s)) \<Longrightarrow>
   own_layer (im_tcp (so_impl s')) \<and> phase_run (using_openssl (sys_build S)) as rs (phase_of s) (phase_of s')"
proof (induction as arbitrary: s rs)
  case Nil
  then show ?case by (auto intro: phase_end)
next
  case (Cons a as)
  then obtain r s1 rs1 where 1: "api_step S a s = Some (r, s1)" "api_run S as s1 = Some (rs1, s')" "rs = r # rs1"
    by (auto split: bind_splits)
  from phase_refines [OF 1(1) Cons.prems(2)] Cons.IH [OF 1(2)] 1(3) show ?case by (auto intro: phase_more)
qed

lemma phase_new: "own_layer (im_tcp (so_impl (socket_new w)))" "phase_of (socket_new w) = Closed"
  by (simp_all add: phase_of_def tcp_phase_def own_layer_def socket_new_def impl_new_def tcp_new_def)

text \<open>
  C11. Every run of the class is a run of the state machine: from the closed phase, the phases the
  socket goes through are those its calls and their answers allow (\<open>connect\<close> leads to \<open>Plain\<close> or
  fails, \<open>startSSL\<close> leads only from \<open>Plain\<close> to \<open>Secure\<close>, or to \<open>Closed\<close> when it fails, \<open>close\<close>
  always to \<open>Closed\<close>, and no other call changes the phase).
\<close>

theorem runs_follow_the_machine:
  assumes "api_run S as (socket_new (start e)) = Some (rs, s)"
  shows "phase_run (using_openssl (sys_build S)) as rs Closed (phase_of s)"
  using phase_refines_run [OF assms] by (simp add: phase_new)

text \<open>
  C12. A secure connection stays secure: once \<open>startSSL\<close> or \<open>connectSSL\<close> has returned true, whatever
  is called afterwards, the layer is a TLS session bound to the connection's own descriptor until the
  program itself calls \<open>close\<close> or connects again.
\<close>

theorem secure_until_closed:
  assumes "api_run S as (socket_new (start e)) = Some (rs, s0)"
    and "api_step S a s0 = Some (Ret_bool True, s1)" "a = Api_startSSL \<or> a = Api_connectSSL sv pt"
    and "api_run S bs s1 = Some (qs, s)" "\<forall>b \<in> set bs. \<not> connects b \<and> b \<noteq> Api_close"
  shows "\<exists>c. tcp_comm (im_tcp (so_impl s)) = Some (SSH_Comm c)
    \<and> comm_sock c = tcp_sock (im_tcp (so_impl s)) \<and> comm_sock c \<noteq> 0"
proof -
  have own: "own_layer (im_tcp (so_impl s0))" using phase_refines_run [OF assms(1)] by (simp add: phase_new)
  note st = phase_refines [OF assms(2) own]
  have "phase_of s1 = Secure"
    using conjunct2 [OF st] assms(3) by (auto simp: phase_step_simps)
  with phase_refines_run [OF assms(4)] st have "phase_of s = Secure"
    using secure_stays_run [OF _ _ assms(5)] by metis
  then show ?thesis
    by (auto simp: phase_of_def tcp_phase_def split: if_splits option.splits comm_obj.splits)
      (metis isSecure.elims(2) obj_sock.simps(2))+
qed


text \<open>Worked examples.\<close>

lemma runs_follow_the_machine_witness:
  "\<exists>s. api_run stream_sys [Api_connect (Some ''h'') 80, Api_close] (socket_new (start []))
      = Some ([Ret_bool True, Ret_bool True], s)
    \<and> phase_run True [Api_connect (Some ''h'') 80, Api_close] [Ret_bool True, Ret_bool True] Closed (phase_of s)"
proof -
  obtain s where s: "api_run stream_sys [Api_connect (Some ''h'') 80, Api_close] (socket_new (start []))
      = Some ([Ret_bool True, Ret_bool True], s)"
    by (simp add: run cong: bind_weak_cong)
  have "using_openssl (sys_build stream_sys)" by (simp add: run)
  with runs_follow_the_machine [OF s] s show ?thesis by simp
qed

lemma secure_until_closed_witness:
  "\<exists>s1 qs s c. api_step stream_sys (Api_connectSSL (Some ''h'') 443) (socket_new (start [])) = Some (Ret_bool True, s1)
    \<and> api_run stream_sys [Api_send [1], Api_getError] s1 = Some (qs, s)
    \<and> tcp_comm (im_tcp (so_impl s)) = Some (SSH_Comm c)
    \<and> comm_sock c = tcp_sock (im_tcp (so_impl s)) \<and> comm_sock c \<noteq> 0"
proof -
  let ?a = "Api_connectSSL (Some ''h'') 443" and ?bs = "[Api_send [1], Api_getError]"
  have "api_run stream_sys (?a # ?bs) (socket_new (start [])) \<noteq> None"
    by (simp add: run cong: bind_weak_cong)
  then obtain r s1 qs s where 1: "api_step stream_sys ?a (socket_new (start [])) = Some (r, s1)"
    and 2: "api_run stream_sys ?bs s1 = Some (qs, s)"
    by (auto simp del: api_step.simps simp: api_run.simps(2) [of _ ?a] split: bind_splits)
  have r: "r = Ret_bool True"
    using 1 by (auto simp: run cong: bind_weak_cong)
  have 0: "api_run stream_sys [] (socket_new (start [])) = Some ([], socket_new (start []))" by simp
  have b: "?a = Api_startSSL \<or> ?a = Api_connectSSL (Some ''h'') 443" "\<forall>b \<in> set ?bs. \<not> connects b \<and> b \<noteq> Api_close"
    by simp_all
  from secure_until_closed [OF 0 1 [unfolded r] b(1) 2 b(2)] 1 2 r show ?thesis by blast
qed

end
