(* ===== verification/Socket_Process.thy ===== *)
theory Socket_Process
  imports Socket_Phases
begin

text \<open>
  A process with any number of \<open>Socket\<close>s whose calls interleave. The sockets share the world and
  nothing else: each has its implementation and its connectors, reached from it alone. Steps are an
  inductive relation, the reachable processes are those of programs that close a socket before they
  connect it again, and the books of the whole process are an invariant.
\<close>

subsection \<open>Processes\<close>

text \<open>The sockets by the order of their construction; one that was destroyed is \<open>None\<close>.\<close>

record 'e process =
  pr_socks :: "(impl \<times> heap) option list"
  pr_world :: "'e world"

datatype process_call = New_socket | Call_on nat api | Delete_socket nat

definition the_socket :: "impl \<times> heap \<Rightarrow> 'e world \<Rightarrow> 'e socket" where
  "the_socket x w = \<lparr>so_impl = fst x, so_heap = snd x, so_world = w\<rparr>"

definition put_socket :: "nat \<Rightarrow> 'e socket \<Rightarrow> 'e process \<Rightarrow> 'e process" where
  "put_socket i s p = \<lparr>pr_socks = (pr_socks p)[i := Some (so_impl s, so_heap s)], pr_world = so_world s\<rparr>"

definition live :: "'e process \<Rightarrow> nat \<Rightarrow> impl \<times> heap \<Rightarrow> bool" where
  "live p i x \<longleftrightarrow> i < length (pr_socks p) \<and> pr_socks p ! i = Some x"

inductive process_step :: "'e sys \<Rightarrow> process_call \<Rightarrow> 'e process \<Rightarrow> 'e process \<Rightarrow> bool" for S where
  new_step: "process_step S New_socket p
     (p\<lparr>pr_socks := pr_socks p @ [Some (so_impl (socket_new (pr_world p)), so_heap (socket_new (pr_world p)))]\<rparr>)"
| call_step: "live p i x \<Longrightarrow> api_step S a (the_socket x (pr_world p)) = Some (r, s) \<Longrightarrow>
     process_step S (Call_on i a) p (put_socket i s p)"
| delete_step: "live p i x \<Longrightarrow> socket_delete S (the_socket x (pr_world p)) = Some (h, w) \<Longrightarrow>
     process_step S (Delete_socket i) p \<lparr>pr_socks = (pr_socks p)[i := None], pr_world = w\<rparr>"

inductive_cases process_callE: "process_step S (Call_on i a) p p'"
inductive_cases process_newE: "process_step S New_socket p p'"
inductive_cases process_deleteE: "process_step S (Delete_socket i) p p'"

text \<open>A call that does not connect a socket over its open descriptor.\<close>

fun polite :: "process_call \<Rightarrow> 'e process \<Rightarrow> bool" where
  "polite (Call_on i a) p = (connects a \<longrightarrow> (\<forall>x. live p i x \<longrightarrow> tcp_sock (im_tcp (fst x)) = 0))"
| "polite _ p = True"

inductive reachable :: "'e sys \<Rightarrow> 'e \<Rightarrow> 'e process \<Rightarrow> bool" for S e where
  process_start: "reachable S e \<lparr>pr_socks = [], pr_world = start e\<rparr>"
| process_more: "reachable S e p \<Longrightarrow> process_step S c p p' \<Longrightarrow> polite c p \<Longrightarrow> reachable S e p'"

subsection \<open>What the sockets of a process hold\<close>

definition fd_held :: "tcp \<Rightarrow> int multiset" where
  "fd_held t = held (tcp_sock t)"

definition ctx_held :: "tcp \<Rightarrow> int multiset" where
  "ctx_held t = (case tcp_comm t of Some (SSH_Comm c) \<Rightarrow> held (ssh_ctx c) | _ \<Rightarrow> {#})"

definition ssl_held :: "tcp \<Rightarrow> int multiset" where
  "ssl_held t = (case tcp_comm t of Some (SSH_Comm c) \<Rightarrow> held (ssh_ssl c) | _ \<Rightarrow> {#})"

definition handles_ok :: "tcp \<Rightarrow> bool" where
  "handles_ok t \<longleftrightarrow> (\<forall>c. tcp_comm t = Some (SSH_Comm c) \<longrightarrow> comm_sock c = 0 \<longrightarrow> ssh_ctx c = 0 \<and> ssh_ssl c = 0)"

lemma socket_inv_parts:
  "socket_inv (A, B) lost s \<longleftrightarrow> impl_ok (so_impl s) (so_heap s) \<and> handles_ok (im_tcp (so_impl s))
     \<and> opens (so_world s) = closes (so_world s) + lost + fd_held (im_tcp (so_impl s)) \<and> owned_closes (so_world s)
     \<and> ledger ctx_made (so_world s) = ledger ctx_freed (so_world s) + A + ctx_held (im_tcp (so_impl s))
     \<and> ledger ssl_made (so_world s) = ledger ssl_freed (so_world s) + B + ssl_held (im_tcp (so_impl s))"
  by (auto simp: socket_inv_def tcp_books_def fd_books_def handles_ok_def fd_held_def ctx_held_def ssl_held_def
      ssh_books_def tls_books_def held_def split: option.splits comm_obj.splits)

text \<open>The sum of what each socket holds, and the sum over all but one.\<close>

definition sum_held :: "(tcp \<Rightarrow> int multiset) \<Rightarrow> (impl \<times> heap) option list \<Rightarrow> int multiset" where
  "sum_held f xs = sum_list (map (\<lambda>x. case x of None \<Rightarrow> {#} | Some (i, h) \<Rightarrow> f (im_tcp i)) xs)"

definition sum_others :: "(tcp \<Rightarrow> int multiset) \<Rightarrow> nat \<Rightarrow> (impl \<times> heap) option list \<Rightarrow> int multiset" where
  "sum_others f i xs = sum_held f (xs[i := None])"

lemma sum_held_upd:
  assumes "i < length xs"
  shows "sum_held f (xs[i := x]) = sum_others f i xs + (case x of None \<Rightarrow> {#} | Some (i, h) \<Rightarrow> f (im_tcp i))"
  using assms by (simp add: sum_held_def sum_others_def upd_conv_take_nth_drop)

lemma sum_held_live:
  assumes "live p i x"
  shows "sum_held f (pr_socks p) = sum_others f i (pr_socks p) + f (im_tcp (fst x))"
  using assms sum_held_upd [of i "pr_socks p" f "Some x"] list_update_id [of "pr_socks p" i]
  by (auto simp: live_def split: prod.splits)

lemma sum_held_two:
  assumes "live p i x" "live p j y" "i \<noteq> j"
  shows "count (f (im_tcp (fst x))) a + count (f (im_tcp (fst y))) a \<le> count (sum_held f (pr_socks p)) a"
proof -
  let ?xs = "pr_socks p"
  have "sum_held f ?xs = sum_others f i ?xs + f (im_tcp (fst x))" by (rule sum_held_live [OF assms(1)])
  moreover have "sum_others f i ?xs = sum_held f (?xs[i := None])"
    using sum_held_upd [of i ?xs f None] assms(1) by (simp add: live_def)
  moreover have "live (p\<lparr>pr_socks := ?xs[i := None]\<rparr>) j y" using assms(2,3) by (simp add: live_def)
  from sum_held_live [OF this, of f]
  have "sum_held f (?xs[i := None]) = sum_others f j (?xs[i := None]) + f (im_tcp (fst y))" by simp
  ultimately show ?thesis by simp
qed

definition process_inv :: "'e process \<Rightarrow> bool" where
  "process_inv p \<longleftrightarrow>
     (\<forall>x. Some x \<in> set (pr_socks p) \<longrightarrow> impl_ok (fst x) (snd x) \<and> handles_ok (im_tcp (fst x)))
     \<and> opens (pr_world p) = closes (pr_world p) + sum_held fd_held (pr_socks p) \<and> owned_closes (pr_world p)
     \<and> ledger ctx_made (pr_world p) = ledger ctx_freed (pr_world p) + sum_held ctx_held (pr_socks p)
     \<and> ledger ssl_made (pr_world p) = ledger ssl_freed (pr_world p) + sum_held ssl_held (pr_socks p)"

lemma process_inv_socket:
  assumes "process_inv p" "live p i x"
  shows "socket_inv (sum_others ctx_held i (pr_socks p), sum_others ssl_held i (pr_socks p))
    (sum_others fd_held i (pr_socks p)) (the_socket x (pr_world p))"
proof -
  have "Some x \<in> set (pr_socks p)" using assms(2) by (metis live_def nth_mem)
  then have "impl_ok (fst x) (snd x) \<and> handles_ok (im_tcp (fst x))"
    using assms(1) unfolding process_inv_def by blast
  then show ?thesis
    using assms(1) sum_held_live [OF assms(2)] by (simp add: process_inv_def socket_inv_parts the_socket_def add.assoc)
qed

lemma set_update_other: "Some y \<in> set (xs[i := x]) \<Longrightarrow> x = Some y \<or> Some y \<in> set xs"
  using set_update_subset_insert [of xs i x] by auto

lemma process_call_inv:
  assumes inv: "process_inv p" and l: "live p i x" and st: "api_step S a (the_socket x (pr_world p)) = Some (r, s)"
    and pol: "polite (Call_on i a) p" and nz: "socket_nonzero S"
  shows "process_inv (put_socket i s p)"
proof -
  have "\<not> connects a \<or> tcp_sock (im_tcp (so_impl (the_socket x (pr_world p)))) = 0 \<and> socket_nonzero S"
    using pol l nz by (cases x) (auto simp: the_socket_def)
  with api_step_inv [OF st process_inv_socket [OF inv l]]
  have s: "socket_inv (sum_others ctx_held i (pr_socks p), sum_others ssl_held i (pr_socks p))
    (sum_others fd_held i (pr_socks p)) s" by blast
  have i: "i < length (pr_socks p)" using l by (simp add: live_def)
  show ?thesis
    using s inv i unfolding process_inv_def put_socket_def socket_inv_parts
    by (auto simp: sum_held_upd dest!: set_update_other)
qed

lemma process_delete_inv:
  assumes inv: "process_inv p" and l: "live p i x"
    and del: "socket_delete S (the_socket x (pr_world p)) = Some (h, w)"
  shows "process_inv \<lparr>pr_socks = (pr_socks p)[i := None], pr_world = w\<rparr>"
proof -
  have "opens w = closes w + sum_others fd_held i (pr_socks p) \<and> owned_closes w
    \<and> tls_books (sum_others ctx_held i (pr_socks p), sum_others ssl_held i (pr_socks p)) {#} {#} w"
    using socket_delete_inv [OF process_inv_socket [OF inv l], of S] del by auto
  then show ?thesis
    using inv l by (auto simp: process_inv_def tls_books_def sum_held_upd live_def dest!: set_update_other)
qed

lemma process_new_inv:
  "process_inv p \<Longrightarrow> process_inv (p\<lparr>pr_socks := pr_socks p
     @ [Some (so_impl (socket_new (pr_world p)), so_heap (socket_new (pr_world p)))]\<rparr>)"
  using impl_ok_new
  by (auto simp: process_inv_def sum_held_def socket_new_def fd_held_def ctx_held_def ssl_held_def handles_ok_def
      impl_new_def tcp_new_def)

lemma process_reachable_inv:
  assumes "reachable S e p" "socket_nonzero S"
  shows "process_inv p"
  using assms(1)
proof (induction rule: reachable.induct)
  case process_start
  show ?case by (simp add: process_inv_def sum_held_def start_def opens_def closes_def ledger_def owned_closes_def)
next
  case (process_more p c p')
  from process_more(2) show ?case
  proof cases
    case new_step
    then show ?thesis using process_new_inv process_more.IH by simp
  next
    case (call_step i x a r s)
    then show ?thesis using process_call_inv process_more.IH process_more(3) assms(2) by blast
  next
    case (delete_step i x h w)
    then show ?thesis using process_delete_inv process_more.IH by blast
  qed
qed

text \<open>
  C1. The books of a process: however the calls on any number of sockets interleave, as long as each
  is closed before it connects again and \<open>socket\<close> never answers 0, at every moment what was opened and
  not yet closed are the descriptors of the live sockets, each once, and the OpenSSL contexts and
  sessions not yet freed are those their layers hold; so nothing is left once all are destroyed.
\<close>

theorem process_books_balance:
  assumes "reachable S e p" "socket_nonzero S"
  shows "opens (pr_world p) = closes (pr_world p) + sum_held fd_held (pr_socks p)
    \<and> ledger ctx_made (pr_world p) = ledger ctx_freed (pr_world p) + sum_held ctx_held (pr_socks p)
    \<and> ledger ssl_made (pr_world p) = ledger ssl_freed (pr_world p) + sum_held ssl_held (pr_socks p)"
  using process_reachable_inv [OF assms] by (simp add: process_inv_def)


text \<open>
  C4. Sockets do not get in each other's way: as long as each is closed before it connects again and \<open>socket\<close>
  answers neither 0 nor a descriptor in use, in every interleaving of the calls on any number of sockets
  every \<open>close\<close> so far was of a descriptor that was open, and any two sockets that are alive, the first of
  them holding a descriptor, hold different ones.
\<close>

theorem sockets_hold_distinct_descriptors:
  assumes "reachable S e p" "socket_nonzero S" "fresh_opens {#} (w_log (pr_world p))"
  shows "closes_open {#} (w_log (pr_world p))
    \<and> (\<forall>i j x y. live p i x \<and> live p j y \<and> i \<noteq> j \<and> tcp_sock (im_tcp (fst x)) \<noteq> 0
          \<longrightarrow> tcp_sock (im_tcp (fst x)) \<noteq> tcp_sock (im_tcp (fst y)))"
proof -
  have inv: "opens (pr_world p) = closes (pr_world p) + sum_held fd_held (pr_socks p)" "owned_closes (pr_world p)"
    using process_reachable_inv [OF assms(1,2)] by (simp_all add: process_inv_def)
  then have "in_use {#} (w_log (pr_world p)) = sum_held fd_held (pr_socks p)"
    using in_use_opens [OF inv(2)] by simp
  then have once: "count (sum_held fd_held (pr_socks p)) fd \<le> 1" for fd
    using in_use_once [OF assms(3), of fd] by simp
  have "tcp_sock (im_tcp (fst y)) \<noteq> tcp_sock (im_tcp (fst x))"
    if "live p i x" "live p j y" "i \<noteq> j" "tcp_sock (im_tcp (fst x)) \<noteq> 0" for i j x y
    using once [of "tcp_sock (im_tcp (fst x))"] sum_held_two [OF that(1-3), of fd_held "tcp_sock (im_tcp (fst x))"] that(4)
    by (auto simp: fd_held_def)
  then show ?thesis using inv(2) unfolding owned_closes_def by metis
qed

text \<open>Two sockets of one process, connected in turn.\<close>

lemma two_sockets_reachable:
  fixes s0 s1 :: "'e socket"
  assumes "api_step S a (the_socket (impl_new, heap_empty) (start e)) = Some (r0, s0)"
    and "api_step S b (the_socket (impl_new, heap_empty) (so_world s0)) = Some (r1, s1)"
  shows "\<exists>p. reachable S e p \<and> pr_socks p = [Some (so_impl s0, so_heap s0), Some (so_impl s1, so_heap s1)]
    \<and> pr_world p = so_world s1"
proof -
  let ?x = "(impl_new, heap_empty)"
  define p0 :: "'e process" where "p0 = \<lparr>pr_socks = [], pr_world = start e\<rparr>"
  define p1 where "p1 = p0\<lparr>pr_socks := [Some ?x]\<rparr>"
  define p2 where "p2 = p0\<lparr>pr_socks := [Some ?x, Some ?x]\<rparr>"
  define p3 where "p3 = put_socket 0 s0 p2"
  define p4 where "p4 = put_socket 1 s1 p3"
  note ps = p0_def p1_def p2_def p3_def p4_def put_socket_def
  have "reachable S e p0" unfolding p0_def by (rule process_start)
  moreover have "process_step S New_socket p0 p1"
    using new_step [of S p0] by (simp add: ps socket_new_def)
  ultimately have "reachable S e p1" by (rule process_more) simp
  moreover have "process_step S New_socket p1 p2"
    using new_step [of S p1] by (simp add: ps socket_new_def)
  ultimately have "reachable S e p2" by (rule process_more) simp
  moreover have "process_step S (Call_on 0 a) p2 p3"
    unfolding p3_def by (rule call_step [of p2 0 ?x]) (use assms(1) in \<open>simp_all add: live_def ps\<close>)
  ultimately have "reachable S e p3"
    by (rule process_more) (simp add: live_def ps impl_new_def tcp_new_def)
  moreover have "process_step S (Call_on 1 b) p3 p4"
    unfolding p4_def by (rule call_step [of p3 1 ?x]) (use assms(2) in \<open>simp_all add: live_def ps\<close>)
  ultimately have "reachable S e p4"
    by (rule process_more) (auto simp: live_def ps impl_new_def tcp_new_def)
  then show ?thesis by (intro exI [of _ p4]) (simp add: ps)
qed

lemma process_books_balance_witness:
  "\<exists>p (s0 :: byte list socket) (s1 :: byte list socket). reachable stream_sys [] p
    \<and> pr_socks p = [Some (so_impl s0, so_heap s0), Some (so_impl s1, so_heap s1)]
    \<and> tcp_sock (im_tcp (so_impl s0)) = 3 \<and> tcp_sock (im_tcp (so_impl s1)) = 3
    \<and> opens (pr_world p) = closes (pr_world p) + {#3, 3#}"
proof -
  let ?x = "(impl_new, heap_empty)" and ?S = stream_sys
  obtain r0 s0 r1 s1 where c: "api_step ?S (Api_connect (Some ''h'') 80) (the_socket ?x (start [])) = Some (r0, s0)"
      "api_step ?S (Api_connectSSL (Some ''h'') 443) (the_socket ?x (so_world s0)) = Some (r1, s1)"
      "tcp_sock (im_tcp (so_impl s0)) = 3" "tcp_sock (im_tcp (so_impl s1)) = 3"
    by (simp add: run the_socket_def cong: bind_weak_cong)
  from two_sockets_reachable [OF c(1,2)] obtain p where p: "reachable ?S [] p"
    "pr_socks p = [Some (so_impl s0, so_heap s0), Some (so_impl s1, so_heap s1)]" by blast
  then have "opens (pr_world p) = closes (pr_world p) + {#3, 3#}"
    using process_books_balance [OF p(1) stream_nonzero] c(3,4) by (simp add: sum_held_def fd_held_def)
  with p c(3,4) show ?thesis by blast
qed

text \<open>A machine that gives out the next number as a descriptor; every other call succeeds.\<close>

definition counting_sys :: "nat sys" where
  "counting_sys = \<lparr>sys_step = (\<lambda>k n. if k = Sys_socket then (ans (3 + int n), Suc n) else ((ans 0)\<lparr>sr_val := 1\<rparr>, n)),
                   sys_strerror = (\<lambda>n. ''error '' @ dec_int n), sys_build = linux\<rparr>"

lemma sockets_hold_distinct_descriptors_witness:
  "\<exists>p (s0 :: nat socket) (s1 :: nat socket). reachable counting_sys 0 p
    \<and> pr_socks p = [Some (so_impl s0, so_heap s0), Some (so_impl s1, so_heap s1)]
    \<and> tcp_sock (im_tcp (so_impl s0)) \<noteq> 0 \<and> tcp_sock (im_tcp (so_impl s0)) \<noteq> tcp_sock (im_tcp (so_impl s1))
    \<and> closes_open {#} (w_log (pr_world p))"
proof -
  let ?x = "(impl_new, heap_empty)" and ?S = counting_sys
  obtain r0 s0 r1 s1 where c: "api_step ?S (Api_connect (Some ''h'') 80) (the_socket ?x (start 0)) = Some (r0, s0)"
      "api_step ?S (Api_connect (Some ''g'') 25) (the_socket ?x (so_world s0)) = Some (r1, s1)"
      "tcp_sock (im_tcp (so_impl s0)) = 3" "fresh_opens {#} (w_log (so_world s1))"
    by (simp add: run counting_sys_def the_socket_def cong: bind_weak_cong)
  from two_sockets_reachable [OF c(1,2)] obtain p where p: "reachable ?S 0 p"
    "pr_socks p = [Some (so_impl s0, so_heap s0), Some (so_impl s1, so_heap s1)]" "pr_world p = so_world s1" by blast
  have l: "live p 0 (so_impl s0, so_heap s0)" "live p 1 (so_impl s1, so_heap s1)" by (simp_all add: live_def p(2))
  have nz: "socket_nonzero ?S" by (simp add: socket_nonzero_def counting_sys_def ans_def)
  have "tcp_sock (im_tcp (so_impl s0)) \<noteq> tcp_sock (im_tcp (so_impl s1))"
    using sockets_hold_distinct_descriptors [OF p(1) nz] l p(3) c(3,4) by (metis fst_conv zero_neq_one zero_neq_numeral)
  moreover have "closes_open {#} (w_log (pr_world p))"
    using sockets_hold_distinct_descriptors [OF p(1) nz] p(3) c(4) by simp
  ultimately show ?thesis
    by (intro exI [of _ p] exI [of _ s0] exI [of _ s1]) (use p c(3) in simp)
qed

end
