(* ===== verification/Connect_Session.thy ===== *)
theory Connect_Session
  imports Connect_Chain
begin

text \<open>
  \<open>connect\<close> over a chain of proxies that answer (src/src/socket_connect.cpp and the connectors): what one
  hop says and hears as a relation between byte strings, and the whole chain's conversation as their
  concatenation in the order of the chain.
\<close>

subsection \<open>Opening the connection\<close>

text \<open>
  A host that accepts: \<open>socket\<close> gives the free descriptor \<open>fd\<close>, the name resolves, and \<open>connect\<close> succeeds,
  at once or, on the non-blocking descriptor of a timed connect, after a wait. \<open>rx\<close>, the bytes the peer
  will deliver, is not touched by these calls.
\<close>

fun welcomes :: "int \<Rightarrow> string \<Rightarrow> bool \<Rightarrow> syscall \<Rightarrow> sysret \<Rightarrow> bool" where
  "welcomes fd host waits Sys_socket r = (sr_ret r = fd)"
| "welcomes fd host waits (Sys_getaddrinfo h) r = (sr_ret r = 0 \<and> sr_val r \<noteq> 0)"
| "welcomes fd host waits (Sys_getfl s) r = (sr_ret r \<noteq> - 1)"
| "welcomes fd host waits (Sys_setfl s fl) r = (sr_ret r \<noteq> - 1)"
| "welcomes fd host waits (Sys_connect s a p) r =
     (sr_ret r = 0 \<or> waits \<and> sr_errno r = Some EINPROGRESS)"
| "welcomes fd host waits (Sys_select s rd wr ex tv) r = (0 < sr_ret r \<and> fd_isset_write r)"
| "welcomes fd host waits (Sys_so_error s) r = (sr_ret r = 0 \<and> sr_val r = 0)"
| "welcomes fd host waits _ r = True"

definition setup_calls :: "int \<Rightarrow> string \<Rightarrow> syscall set" where
  "setup_calls fd host =
     {Sys_socket, Sys_set_nosigpipe fd, Sys_getaddrinfo host, Sys_getfl fd, Sys_so_error fd, Sys_shutdown fd,
      Sys_close fd}
     \<union> range (Sys_setfl fd) \<union> {Sys_connect fd a p |a p. True} \<union> range (Sys_select fd False True True)"

definition accepting :: "'e sys \<Rightarrow> int \<Rightarrow> ('e \<Rightarrow> byte list) \<Rightarrow> string \<Rightarrow> bool \<Rightarrow> bool" where
  "accepting S fd rx host waits \<longleftrightarrow>
     (\<forall>k \<in> setup_calls fd host. \<forall>e r e'. sys_step S k e = (r, e') \<longrightarrow>
        welcomes fd host waits k r \<and> rx e' = rx e)"

text \<open>Nothing was taken from the stream or put on the wire of \<open>fd\<close>.\<close>

definition quiet :: "('e \<Rightarrow> byte list) \<Rightarrow> int \<Rightarrow> 'e world \<Rightarrow> 'e world \<Rightarrow> bool" where
  "quiet rx fd w w' \<longleftrightarrow> rx (w_env w') = rx (w_env w) \<and> wire fd w' = wire fd w"

lemma quiet_trans [trans]: "quiet rx fd w w' \<Longrightarrow> quiet rx fd w' w'' \<Longrightarrow> quiet rx fd w w''"
  by (simp add: quiet_def)

lemma quiet_errno [simp]: "quiet rx fd w (w'\<lparr>w_errno := n\<rparr>) = quiet rx fd w w'"
  by (simp add: quiet_def)

lemma quiet_call: "call S k w = (r, w') \<Longrightarrow> no_send k \<Longrightarrow> rx (w_env w') = rx (w_env w) \<Longrightarrow> quiet rx fd w w'"
  by (simp add: quiet_def wire_call no_send_wire_of)

lemma quiet_refl [simp]: "quiet rx fd w w"
  by (simp add: quiet_def)

lemma setup_calls_simps [simp]:
  "Sys_socket \<in> setup_calls fd host" "Sys_set_nosigpipe fd \<in> setup_calls fd host"
  "Sys_getaddrinfo host \<in> setup_calls fd host" "Sys_getfl fd \<in> setup_calls fd host"
  "Sys_so_error fd \<in> setup_calls fd host" "Sys_shutdown fd \<in> setup_calls fd host"
  "Sys_close fd \<in> setup_calls fd host" "Sys_setfl fd fl \<in> setup_calls fd host"
  "Sys_connect fd a p \<in> setup_calls fd host" "Sys_select fd False True True tv \<in> setup_calls fd host"
  by (auto simp: setup_calls_def)

lemma setup_no_send: "k \<in> setup_calls fd host \<Longrightarrow> no_send k"
  by (auto simp: setup_calls_def)

lemma accepting_call:
  assumes "accepting S fd rx host waits" "call S k w = (r, w')" "k \<in> setup_calls fd host"
  shows "welcomes fd host waits k r \<and> quiet rx fd w w'"
proof -
  have "welcomes fd host waits k r \<and> rx (w_env w') = rx (w_env w)"
    using assms(1,3) call_env [OF assms(2)] unfolding accepting_def by blast
  then show ?thesis using quiet_call [OF assms(2) setup_no_send [OF assms(3)]] by blast
qed

lemma setNonBlocking_accepting:
  assumes "accepting S fd rx host waits"
  shows "\<exists>w'. setNonBlocking S fd b w = (True, w') \<and> quiet rx fd w w'"
proof -
  obtain f w1 where 1: "call S (Sys_getfl fd) w = (f, w1)" by fastforce
  let ?fl = "if b then sr_ret f OR O_NONBLOCK else sr_ret f AND NOT O_NONBLOCK"
  obtain q w2 where 2: "call S (Sys_setfl fd ?fl) w1 = (q, w2)" by fastforce
  show ?thesis
    using accepting_call [OF assms 1] accepting_call [OF assms 2] 1 2
    by (simp add: setNonBlocking_def Let_def quiet_def)
qed

lemma await_connect_accepting:
  assumes "accepting S fd rx host waits"
  shows "\<exists>w'. await_connect S fd a p msec w = (0, w') \<and> quiet rx fd w w'"
proof -
  obtain cn w1 where 1: "call S (Sys_connect fd a p) w = (cn, w1)" by fastforce
  have c1: "sr_ret cn = 0 \<or> waits \<and> sr_errno cn = Some EINPROGRESS" "quiet rx fd w w1"
    using accepting_call [OF assms 1] by simp_all
  show ?thesis
  proof (cases "sr_ret cn = 0")
    case True
    then show ?thesis using 1 c1(2) by (simp add: await_connect_def)
  next
    case False
    let ?tv = "Some (msec sdiv 1000, 1000 * (msec smod 1000))"
    obtain sl w2 where 2: "call S (Sys_select fd False True True ?tv) w1 = (sl, w2)" by fastforce
    obtain so w3 where 3: "call S (Sys_so_error fd) w2 = (so, w3)" by fastforce
    have "connectInProgress w1" using False c1 call_errno [OF 1] by (simp add: connectInProgress_def)
    then show ?thesis
      using False 1 2 3 c1(2) accepting_call [OF assms 2] accepting_call [OF assms 3]
      by (simp add: await_connect_def quiet_def)
  qed
qed

lemma connecttimeout_accepting:
  assumes "accepting S fd rx host waits"
  shows "\<exists>w'. connecttimeout S fd a p msec w = (0, w') \<and> quiet rx fd w w'"
proof -
  obtain w1 where 1: "setNonBlocking S fd True w = (True, w1)" "quiet rx fd w w1"
    using setNonBlocking_accepting [OF assms] by blast
  obtain w2 where 2: "await_connect S fd a p msec w1 = (0, w2)" "quiet rx fd w1 w2"
    using await_connect_accepting [OF assms] by blast
  obtain w3 where 3: "setNonBlocking S fd False w2 = (True, w3)" "quiet rx fd w2 w3"
    using setNonBlocking_accepting [OF assms] by blast
  from 1 2 3 show ?thesis by (simp add: connecttimeout_def setSocketError_def quiet_def)
qed

lemma normal_dial:
  assumes a: "accepting S fd rx (host_of server) (timeout_ms c \<noteq> 0)" and fd: "fd \<noteq> 0"
    and sv: "\<not> no_server server" "0 < port"
  shows "\<exists>w'. normal_simpleConnect S c s server port w = (True, c, fd, w') \<and> quiet rx fd w w'"
proof -
  obtain r1 w1 where 1: "call S Sys_socket w = (r1, w1)" by fastforce
  define w2 where "w2 = (if has_so_nosigpipe (sys_build S) then snd (call S (Sys_set_nosigpipe (sr_ret r1)) w1) else w1)"
  obtain ad w3 where 3: "call S (Sys_getaddrinfo (host_of server)) w2 = (ad, w3)" by fastforce
  have "sr_ret r1 = fd" using accepting_call [OF a 1] by simp
  then have 2: "quiet rx fd w1 w2"
    using accepting_call [OF a, of "Sys_set_nosigpipe fd" w1]
    by (cases "call S (Sys_set_nosigpipe fd) w1") (simp add: w2_def)
  have f: "sr_ret r1 = fd" "sr_ret ad = 0" "sr_val ad \<noteq> 0" "quiet rx fd w w1" "quiet rx fd w2 w3"
    using accepting_call [OF a 1] accepting_call [OF a 3] by simp_all
  have eq: "normal_simpleConnect S c s server port w = connect_resolved S c fd (sr_bytes ad) port w3"
    using sv fd f(1-3) by (simp add: normal_simpleConnect_def 1 w2_def [symmetric] 3 Let_def)
  show ?thesis
  proof (cases "timeout_ms c = 0")
    case True
    obtain cn w4 where 4: "call S (Sys_connect fd (sr_bytes ad) (htons port)) w3 = (cn, w4)" by fastforce
    show ?thesis using True f(4,5) 2 4 accepting_call [OF a 4] by (simp add: eq connect_resolved_def quiet_def)
  next
    case False
    obtain w4 where "connecttimeout S fd (sr_bytes ad) (htons port) (timeout_ms c) w3 = (0, w4)"
      "quiet rx fd w3 w4" using connecttimeout_accepting [OF a] by blast
    then show ?thesis using False f(4,5) 2 by (simp add: eq connect_resolved_def quiet_def)
  qed
qed

subsection \<open>What a hop says and hears\<close>

text \<open>A connector as its constructor leaves it: its communication object is bound to nothing.\<close>

fun fresh_hop :: "conn_obj \<Rightarrow> bool" where
  "fresh_hop (Obj_Normal c) = False"
| "fresh_hop (Obj_Tunnel c) = True"
| "fresh_hop (Obj_Proxy c) = (comm_sock (px_comm c) = 0)"
| "fresh_hop (Obj_Socks4 c) = (comm_sock (s4_comm c) = 0 \<and> length (s4_buffer c) = 10)"
| "fresh_hop (Obj_Socks5 c) = (comm_sock (s5_comm c) = 0 \<and> length (s5_buffer c) = 200)"

text \<open>
  \<open>hop_talk ip x t sent got\<close>: asked to reach \<open>t\<close>, the connector \<open>x\<close> sends \<open>sent\<close>, and a server that
  grants the request answers \<open>got\<close>. \<open>ip\<close> is what the client's resolver knows, for SOCKS4.
\<close>

inductive hop_talk ::
  "(string \<Rightarrow> byte list) \<Rightarrow> conn_obj \<Rightarrow> string option \<times> int \<Rightarrow> byte list \<Rightarrow> byte list \<Rightarrow> bool" for ip where
  talk_tunnel: "hop_talk ip (Obj_Tunnel c) t [] []"
| talk_http: "host_ok server \<Longrightarrow> 0 < port \<Longrightarrow> port < 2 ^ 31 \<Longrightarrow> length status = 12 \<Longrightarrow> status ! 9 = 0x32 \<Longrightarrow>
     crlf_lines (h @ [CR, LF, CR, LF]) \<Longrightarrow> \<not> sublist [CR, LF, CR, LF] (h @ [CR, LF, CR]) \<Longrightarrow>
     hop_talk ip (Obj_Proxy c) (server, port) (bytes_of (connect_text (host_of server) port))
       (status @ h @ [CR, LF, CR, LF])"
| talk_socks4: "\<not> no_server server \<Longrightarrow> 0 < port \<Longrightarrow> length (ip (host_of server)) = 4 \<Longrightarrow> length more6 = 6 \<Longrightarrow>
     hop_talk ip (Obj_Socks4 c) (server, port) ([0x04, 0x01, 0, 0x50] @ ip (host_of server) @ [0])
       ([0, 90] @ more6)"
| talk_socks5: "\<not> no_server server \<Longrightarrow> 0 < port \<Longrightarrow> fits_buffer c server \<Longrightarrow> m \<noteq> 0xFF \<Longrightarrow> s5_address atyp addr \<Longrightarrow>
     hop_talk ip (Obj_Socks5 c) (server, port)
       (socks5_greeting @ (if m = 2 then socks5_auth (s5_username c) (s5_password c) else [])
         @ socks5_request (host_of server) port)
       ([5, m] @ (if m = 2 then [v, 0] else []) @ [x, 0, y, atyp] @ addr)"

definition resolver :: "'e sys \<Rightarrow> ('e \<Rightarrow> byte list) \<Rightarrow> (string \<Rightarrow> byte list) \<Rightarrow> bool" where
  "resolver S rx ip \<longleftrightarrow> (\<forall>h. length (ip h) = 4 \<longrightarrow> resolves S rx h (ip h))"

lemma hop_talks:
  assumes t: "hop_talk ip x (server, port) sent got" and x: "fresh_hop x"
    and S: "prompt_peer S fd rx" "fd \<noteq> 0" "resolver S rx ip" and rx: "rx (w_env w) = got @ rest"
  shows "\<exists>x' w'. simpleConnect S x fd server port w = Some (True, x', fd, w')
    \<and> rx (w_env w') = rest \<and> wire fd w' = wire fd w @ sent"
  using t
proof cases
  case (talk_tunnel c)
  then show ?thesis using rx by (simp add: tunnel_simpleConnect_def)
next
  case (talk_http status h c)
  have r: "proxy_ready S rx fd c server port" using talk_http x S by (simp add: proxy_ready_def)
  have "rx (w_env w) = status @ (h @ CR # LF # CR # LF # rest)" using rx talk_http by simp
  from proxy_two_hundred [OF r _ _ this scan_headers_blank_line] talk_http show ?thesis by fastforce
next
  case (talk_socks4 more6 c)
  have r: "socks4_ready S rx fd c server port" using talk_socks4 x S by (simp add: socks4_ready_def)
  obtain a b d e where ip: "ip (host_of server) = [a, b, d, e]"
    using talk_socks4(6) by (auto simp: numeral_eq_Suc length_Suc_conv)
  then have "resolves S rx (host_of server) [a, b, d, e]"
    using S(3) unfolding resolver_def by (metis talk_socks4(6))
  from socks4_negotiates [OF r this, of w 90 more6 rest] show ?thesis
    using rx talk_socks4 ip by auto
next
  case (talk_socks5 c m atyp addr v z y)
  have "length (s5_username c) + length (s5_password c) < 2 ^ 31 - 3" "length (host_of server) < 2 ^ 31 - 7"
    using talk_socks5(6) by (auto simp: fits_buffer_def)
  then have r: "socks5_ready S rx fd c server port"
    using talk_socks5 x S by (simp add: socks5_ready_def)
  have "rx (w_env w) = [5, m] @ (if m = 2 then [v, 0] else []) @ [z, 0, y, atyp] @ addr @ rest"
    using rx talk_socks5 by simp
  from socks5_negotiates [OF r talk_socks5(6-8) this] talk_socks5 show ?thesis
    by (auto simp: socks5_reply_def)
qed

subsection \<open>The conversation of a chain\<close>

inductive chain_talk ::
  "(string \<Rightarrow> byte list) \<Rightarrow> conn_obj list \<Rightarrow> (string option \<times> int) list \<Rightarrow> byte list \<Rightarrow> byte list \<Rightarrow> bool" for ip where
  talk_end: "chain_talk ip [] [] [] []"
| talk_hop: "hop_talk ip x t sent got \<Longrightarrow> chain_talk ip xs ts sents gots \<Longrightarrow>
     chain_talk ip (x # xs) (t # ts) (sent @ sents) (got @ gots)"

lemma chain_talks:
  assumes "chain_talk ip xs ts sent got" "\<forall>x \<in> set xs. fresh_hop x"
    and S: "prompt_peer S fd rx" "fd \<noteq> 0" "resolver S rx ip" and "rx (w_env w) = got @ rest"
  shows "\<exists>w'. follow S xs ts fd w = Some (None, fd, w') \<and> rx (w_env w') = rest \<and> wire fd w' = wire fd w @ sent"
  using assms(1,2,6)
proof (induction arbitrary: w rule: chain_talk.induct)
  case (talk_hop x t sent got xs ts sents gots)
  obtain server port where t: "t = (server, port)" by fastforce
  from hop_talks [OF talk_hop(1) [unfolded t] _ S, of w "gots @ rest"] talk_hop(4,5) obtain x' w1 where
    1: "simpleConnect S x fd server port w = Some (True, x', fd, w1)" "rx (w_env w1) = gots @ rest"
      "wire fd w1 = wire fd w @ sent" by auto
  from talk_hop.IH [OF _ 1(2)] talk_hop(4) 1 show ?case by (auto simp: t)
qed simp

text \<open>Hops that differ only in their child and their timeouts hold the same conversation.\<close>

definition hop_like :: "conn_obj \<Rightarrow> conn_obj \<Rightarrow> bool" where
  "hop_like x y \<longleftrightarrow> (\<exists>f. y = map_base f x \<and> (\<forall>b. conn_server (f b) = conn_server b \<and> conn_port (f b) = conn_port b))"

lemma more_extend: "conn.more (conn.extend b m) = m"
  by (simp add: conn.defs)

lemma map_base_comp: "map_base f (map_base g x) = map_base (f \<circ> g) x"
  by (cases x) (simp_all add: more_extend)

lemma hop_like_trans: "hop_like x y \<Longrightarrow> hop_like y z \<Longrightarrow> hop_like x z"
  unfolding hop_like_def by (elim exE conjE, rule exI [of _ "_ \<circ> _"]) (auto simp: map_base_comp)

lemma extend_fields:
  "px_comm (conn.extend b (conn.more c)) = px_comm c"
  "s4_comm (conn.extend b (conn.more c4)) = s4_comm c4" "s4_buffer (conn.extend b (conn.more c4)) = s4_buffer c4"
  "s5_comm (conn.extend b (conn.more c5)) = s5_comm c5" "s5_buffer (conn.extend b (conn.more c5)) = s5_buffer c5"
  "s5_username (conn.extend b (conn.more c5)) = s5_username c5"
  "s5_password (conn.extend b (conn.more c5)) = s5_password c5"
  by (cases c, simp add: conn.defs) (cases c4, simp add: conn.defs, cases c4, simp add: conn.defs,
    cases c5, simp add: conn.defs, cases c5, simp add: conn.defs, cases c5, simp add: conn.defs,
    cases c5, simp add: conn.defs)

lemma hop_like_facts:
  assumes "hop_like x y"
  shows "class_of y = class_of x" "target_of y = target_of x" "fresh_hop y = fresh_hop x"
    "hop_talk ip x t sent got \<Longrightarrow> hop_talk ip y t sent got"
proof -
  obtain f where f: "y = map_base f x" "\<And>b. conn_server (f b) = conn_server b \<and> conn_port (f b) = conn_port b"
    using assms unfolding hop_like_def by blast
  show "class_of y = class_of x" "target_of y = target_of x" by (simp_all add: f target_of_def)
  show "fresh_hop y = fresh_hop x" by (cases x) (simp_all add: f extend_fields)
  show "hop_talk ip y t sent got" if "hop_talk ip x t sent got"
    using that
  proof cases
    case (talk_socks5 server port c m atyp addr v z w)
    let ?c = "conn.extend (f (conn.truncate c)) (conn.more c)"
    have "fits_buffer ?c server" using talk_socks5 by (simp add: fits_buffer_def extend_fields)
    from hop_talk.talk_socks5 [OF talk_socks5(5,6) this talk_socks5(8,9), of ip v z w]
    show ?thesis using talk_socks5 by (cases "m = 2") (simp_all add: f extend_fields)
  next
    case (talk_socks4 server port more6 c)
    from hop_talk.talk_socks4 [of server port ip more6, OF talk_socks4(5-8)] show ?thesis using talk_socks4 by (simp add: f)
  qed (auto simp: f intro: hop_talk.intros)
qed

lemma chain_talk_like:
  "chain_talk ip xs ts sent got \<Longrightarrow> list_all2 hop_like xs ys \<Longrightarrow> chain_talk ip ys ts sent got"
  by (induction arbitrary: ys rule: chain_talk.induct)
    (auto simp: list_all2_Cons1 intro: chain_talk.intros hop_like_facts(4))

subsection \<open>A whole chain connects\<close>

text \<open>The addresses the hops of a chain are told to reach: each the next one's, the last the destination.\<close>

definition itinerary :: "conn_obj list \<Rightarrow> string option \<Rightarrow> int \<Rightarrow> (string option \<times> int) list" where
  "itinerary xs server port = map target_of xs @ [(server, port)]"

lemma chain_connects:
  assumes r: "route h p ps" and head: "hp_objs h p = Some (Obj_Normal c)"
    and t: "itinerary (objs_at h ps) server port = (sv, pt) # ts" "\<not> no_server sv" "0 < pt"
    and acc: "accepting S fd rx (host_of sv) (timeout_ms c \<noteq> 0)"
    and S: "prompt_peer S fd rx" "fd \<noteq> 0" "resolver S rx ip"
    and talk: "chain_talk ip (objs_at h ps) ts sent got" "\<forall>x \<in> set (objs_at h ps). fresh_hop x"
    and rx: "rx (w_env w) = got @ rest"
  shows "\<exists>h' w'. conn_connect S p s server port h w = Some (True, fd, h', w')
    \<and> rx (w_env w') = rest \<and> wire fd w' = wire fd w @ sent
    \<and> opens w' = opens w + {#fd#} \<and> closes w' = closes w"
proof -
  obtain w1 where 1: "normal_simpleConnect S c s sv pt w = (True, c, fd, w1)" "quiet rx fd w w1"
    using normal_dial [OF acc S(2) t(2,3)] by blast
  from chain_talks [OF talk S, of w1 rest] 1(2) rx obtain w2 where
    2: "follow S (objs_at h ps) ts fd w1 = Some (None, fd, w2)" "rx (w_env w2) = rest"
      "wire fd w2 = wire fd w1 @ sent" by (auto simp: quiet_def)
  have ch: "chain (links h) p (p # ps)" using r by (simp add: route_def)
  have live: "hp_objs h q \<noteq> None" if "q \<in> set ps" for q
    using chain_bound [OF ch, of q] that by (simp add: links_None)
  have "\<forall>x \<in> set (objs_at h ps). class_of x \<noteq> Class_Normal"
    using r live by (auto simp: objs_at_def route_def class_at_def)
  from follow_rest [OF 2(1) this] emits_keeps_fds [OF emits_plain_io(2)]
  have k: "opens w2 = opens w1" "closes w2 = closes w1" by auto
  have "follow S (objs_at h (p # ps)) (map target_of (objs_at h ps) @ [(server, port)]) s w = Some (None, fd, w2)"
    using 1(1) 2(1) head t(1) by (simp add: itinerary_def)
  moreover have "map target_of (objs_at h (tl (p # ps))) = map target_of (objs_at h ps)" by simp
  ultimately obtain h' where "conn_connect S p s server port h w = Some (True, fd, h', w2)"
    using conn_connect_chain [OF ch, where S = S and s = s and w = w and server = server and port = port]
    by auto
  then show ?thesis
    using 1(2) 2(2,3) k normal_simpleConnect_fds [OF 1(1)] t(2,3) by (auto simp: quiet_def)
qed

end
