(* ===== verification/Socket_Session.thy ===== *)
theory Socket_Session
  imports Socket_API Connect_Session
begin

text \<open>
  A whole session of a \<open>Socket\<close> (src/src/socket.cpp down to the connectors and the plain layer): timeout,
  proxies, \<open>connect\<close>, lines out, lines in, \<open>close\<close>, against proxies and a destination that answer.
\<close>

subsection \<open>The chain that \<open>connect\<close> dials\<close>

lemma conn_setTimeout_objs:
  "chain (links h) p ps \<Longrightarrow> p \<noteq> 0 \<Longrightarrow> conn_setTimeout s u p h = Some h' \<Longrightarrow>
   hp_objs h' q = (if q \<in> set ps then map_option (map_base (\<lambda>b. b\<lparr>conn_tsecs := s, conn_tmicro := u\<rparr>)) (hp_objs h q)
                   else hp_objs h q)"
proof (induction ps arbitrary: p h)
  case (Cons r rs)
  then obtain x where x: "hp_objs h p = Some x" "chain (links h) (conn_child (base_of x)) rs" and r: "r = p"
    by (auto simp: links_Some split: option.splits)
  define h1 where "h1 = heap_put p (map_base (\<lambda>b. b\<lparr>conn_tsecs := s, conn_tmicro := u\<rparr>) x) h"
  have h1: "links h1 = links h" using setTimeout_step [OF x(1), of u s] by (simp add: h1_def)
  have eq: "conn_setTimeout s u p h = (if conn_child (base_of x) \<noteq> 0
      then conn_setTimeout s u (conn_child (base_of x)) h1 else Some h1)"
    using x(1) by (subst conn_setTimeout.simps) (simp add: h1_def Let_def)
  have p: "p \<notin> set rs" using chain_below Cons.prems(1) r by blast
  show ?case
  proof (cases "conn_child (base_of x) = 0")
    case True
    then show ?thesis using Cons.prems(3) eq x r by (auto simp: h1_def)
  next
    case False
    then have "conn_setTimeout s u (conn_child (base_of x)) h1 = Some h'" using Cons.prems(3) eq by simp
    moreover have "chain (links h1) (conn_child (base_of x)) rs" using x(2) h1 by simp
    ultimately have "hp_objs h' q = (if q \<in> set rs
        then map_option (map_base (\<lambda>b. b\<lparr>conn_tsecs := s, conn_tmicro := u\<rparr>)) (hp_objs h1 q) else hp_objs h1 q)"
      using Cons.IH False by blast
    moreover have "hp_objs h1 q = (if q = p then Some (map_base (\<lambda>b. b\<lparr>conn_tsecs := s, conn_tmicro := u\<rparr>) x)
        else hp_objs h q)" by (simp add: h1_def)
    ultimately show ?thesis using x(1) r p by auto
  qed
qed simp

text \<open>
  \<open>connect\<close> gives the client's timeouts to the proxies as they were inserted, if the connector of an earlier
  connection does not own them.
\<close>

lemma impl_prepare_objs:
  assumes ok: "impl_ok i h" and fs: "connected i h fs" and qs: "proxies h (im_lastconnect i) qs"
    and disj: "set qs \<inter> set fs = {}"
  shows "\<exists>h'. impl_prepare i h = Some ((im_tcp i)\<lparr>tcp_conn := hp_next h\<rparr>, h') \<and> route h' (hp_next h) qs
    \<and> hp_objs h' (hp_next h) = Some (Obj_Normal (conn_new\<lparr>conn_child := im_lastconnect i,
        conn_tsecs := tcp_tsecs (im_tcp i), conn_tmicro := tcp_tmilli (im_tcp i)\<rparr>))
    \<and> list_all2 hop_like (objs_at h qs) (objs_at h' qs)"
proof -
  let ?p = "hp_next h" and ?t = "im_tcp i"
  let ?n = "Obj_Normal (conn_new\<lparr>conn_child := im_lastconnect i\<rparr>)"
  obtain t' h' where p: "impl_prepare i h = Some (t', h')" using impl_prepare_returns [OF ok qs fs disj] by auto
  note pr = impl_prepare_ok [OF ok qs fs p]
  obtain h1 where new: "heap_new (Obj_Normal conn_new) h = (?p, h1)" by (simp add: heap_new_def)
  have h1: "hp_objs h1 = (hp_objs h)(?p \<mapsto> Obj_Normal conn_new)" using new by (auto simp: heap_new_def)
  define h2 where "h2 = heap_put ?p ?n h1"
  have c2: "conn_setChild ?p (im_lastconnect i) h1 = Some h2"
    using conn_setChild_fresh [of h1 ?p "Obj_Normal conn_new" "im_lastconnect i"] by (simp add: h1 h2_def)
  have h2: "hp_objs h2 = (hp_objs h)(?p \<mapsto> ?n)" by (simp add: h2_def h1)
  have l2: "links h2 = (links h)(?p \<mapsto> im_lastconnect i)" by (auto simp: links_def h2 fun_eq_iff)
  have hok: "heap_ok h" "0 < ?p" using ok by (auto simp: impl_ok_def heap_ok_def)
  have ch: "chain (links h) (im_lastconnect i) qs" using qs by (simp add: proxies_def)
  have np: "?p \<notin> set qs" "?p \<notin> set fs"
    using chain_live [OF hok(1) ch] chain_live [OF hok(1) connected_chain [OF fs]] by blast+
  define h3 where "h3 = h2\<lparr>hp_objs := hp_objs h2 |` (- set fs)\<rparr>"
  have "chain (links h2) (tcp_conn ?t) fs" using connected_chain [OF fs] np(2) by (simp add: l2 chain_upd)
  then have del: "(if tcp_conn ?t \<noteq> 0 then conn_delete (tcp_conn ?t) h2 else Some h2) = Some h3"
    using conn_delete_chain [of h2] conn_delete.simps [of 0 h2] by (auto simp: h3_def)
  have st: "conn_setTimeout (tcp_tsecs ?t) (tcp_tmilli ?t) ?p h3 = Some h'" and t': "t' = ?t\<lparr>tcp_conn := ?p\<rparr>"
    using p del by (auto simp: impl_prepare_def new c2 tcp_setConnection_def split: bind_splits)
  have l3: "links h3 q = links h2 q" if "q \<notin> set fs" for q
    using that by (simp add: h3_def links_def)
  have L: "im_lastconnect i < ?p"
    using qs chain_live [OF hok(1), of "im_lastconnect i" qs "im_lastconnect i"] hok(2)
    by (cases qs) (auto simp: proxies_def)
  have "chain (links h2) ?p (?p # qs)" using ch np hok(2) L by (simp add: chain_upd l2)
  moreover have "links h3 q = links h2 q" if "q \<in> set (?p # qs)" for q
    using l3 [of q] np(2) disj that by auto
  ultimately have "chain (links h3) ?p (?p # qs)" using chain_cong by blast
  note objs = conn_setTimeout_objs [OF this _ st]
  have "hop_like (the (hp_objs h q)) (the (hp_objs h' q))" if q: "q \<in> set qs" for q
  proof -
    obtain x where "hp_objs h q = Some x" using chain_bound [OF ch q] links_None [of h q] by auto
    moreover have "q \<notin> set fs" using disj q by blast
    ultimately show ?thesis
      using objs [of q] q np hok(2) unfolding hop_like_def
      by (intro exI [of _ "\<lambda>b. b\<lparr>conn_tsecs := tcp_tsecs ?t, conn_tmicro := tcp_tmilli ?t\<rparr>"]) (auto simp: h2 h3_def)
  qed
  then have "list_all2 hop_like (objs_at h qs) (objs_at h' qs)"
    by (simp add: objs_at_def list_all2_map1 list_all2_map2 list_all2_same)
  then show ?thesis using p t' pr objs [of ?p] hok(2) np(2) by (simp add: h2 h3_def)
qed

text \<open>Inserting: every call works, makes no system call, and puts its connector before the others.\<close>

definition made_hop :: "api \<Rightarrow> conn_obj" where
  "made_hop a = the (insert_obj a)"

lemma insert_run:
  assumes "\<forall>a \<in> set ins. inserted a \<noteq> None" "socket_inv oth lost s"
    and "proxies (so_heap s) (im_lastconnect (so_impl s)) qs" "list_all2 hop_like xs (objs_at (so_heap s) qs)"
  shows "\<exists>s' qs'. api_run S ins s = Some (map (\<lambda>a. Ret_bool True) ins, s') \<and> so_world s' = so_world s
    \<and> im_tcp (so_impl s') = im_tcp (so_impl s) \<and> socket_inv oth lost s'
    \<and> proxies (so_heap s') (im_lastconnect (so_impl s')) qs'
    \<and> list_all2 hop_like (rev (map made_hop ins) @ xs) (objs_at (so_heap s') qs')"
  using assms
proof (induction ins arbitrary: s qs xs)
  case Nil
  then show ?case by auto
next
  case (Cons a ins)
  then obtain x where x: "insert_obj a = Some x" using insert_obj_None [of a] by auto
  note ob = insert_obj_step [OF x, of S s]
  have ok: "impl_ok (so_impl s) (so_heap s)" using Cons.prems(2) by (simp add: socket_inv_def)
  let ?p = "hp_next (so_heap s)" and ?y = "map_base (\<lambda>b. b\<lparr>conn_child := im_lastconnect (so_impl s)\<rparr>) x"
  have c: "conn_child (base_of x) = 0" "class_of x \<noteq> Class_Normal" using ob by simp_all
  from impl_insert_ok [OF ok c Cons.prems(3)] obtain h' where h': "impl_insert x (so_impl s) (so_heap s)
      = Some (True, (so_impl s)\<lparr>im_lastconnect := ?p\<rparr>, h')"
    "impl_ok ((so_impl s)\<lparr>im_lastconnect := ?p\<rparr>) h'" "proxies h' ?p (?p # qs)"
    "hp_objs h' ?p = Some ?y" "\<forall>q < ?p. hp_objs h' q = hp_objs (so_heap s) q"
    by blast
  let ?s = "s\<lparr>so_impl := (so_impl s)\<lparr>im_lastconnect := ?p\<rparr>, so_heap := h'\<rparr>"
  have st: "api_step S a s = Some (Ret_bool True, ?s)" using ob h'(1) by (simp add: ret_ih_def)
  have inv: "socket_inv oth lost ?s" using Cons.prems(2) h'(2) by (simp add: socket_inv_def)
  have "q < ?p" if "q \<in> set qs" for q
    using chain_live [of "so_heap s" _ qs q] ok Cons.prems(3) that by (auto simp: impl_ok_def proxies_def)
  then have "objs_at h' qs = objs_at (so_heap s) qs" using h'(5) by (simp add: objs_at_def)
  moreover have "hop_like x ?y" unfolding hop_like_def by (intro exI conjI) (rule refl, simp)
  ultimately have "list_all2 hop_like (made_hop a # xs) (objs_at (so_heap ?s) (?p # qs))"
    using Cons.prems(4) x h'(4) by (simp add: made_hop_def)
  from Cons.IH [OF _ inv _ this] Cons.prems(1) h'(3) obtain s' qs' where
    "api_run S ins ?s = Some (map (\<lambda>a. Ret_bool True) ins, s')" "so_world s' = so_world s"
    "im_tcp (so_impl s') = im_tcp (so_impl s)" "socket_inv oth lost s'"
    "proxies (so_heap s') (im_lastconnect (so_impl s')) qs'"
    "list_all2 hop_like (rev (map made_hop ins) @ made_hop a # xs) (objs_at (so_heap s') qs')"
    by auto
  then show ?case using st by (auto intro!: exI [of _ s'] exI [of _ qs'])
qed

lemma made_hop_fresh: "inserted a \<noteq> None \<Longrightarrow> fresh_hop (made_hop a)"
  by (cases a) (simp_all add: made_hop_def conn_setPort_def conn_setServer_def socks4_setUsername_def
    socks5_setUsername_def socks5_setPassword_def proxy_new_def socks4_new_def socks5_new_def comm_new_def
    conn.defs proxy_conn.defs socks4_conn.defs socks5_conn.defs conn_new_def)

subsection \<open>The first connection\<close>

lemma hop_like_all:
  assumes "list_all2 hop_like xs ys"
  shows "itinerary ys server port = itinerary xs server port"
    "(\<forall>x \<in> set ys. fresh_hop x) = (\<forall>x \<in> set xs. fresh_hop x)"
  using assms by (induction rule: list_all2_induct) (simp_all add: itinerary_def hop_like_facts)

text \<open>What is asked of the world: a descriptor whose peer answers, a resolver, and a host that accepts.\<close>

definition reachable_host ::
  "'e sys \<Rightarrow> int \<Rightarrow> ('e \<Rightarrow> byte list) \<Rightarrow> (string \<Rightarrow> byte list) \<Rightarrow> string option \<times> int \<Rightarrow> int \<Rightarrow> int \<Rightarrow> bool" where
  "reachable_host S fd rx ip t secs us \<longleftrightarrow> prompt_peer S fd rx \<and> fd \<noteq> 0 \<and> resolver S rx ip
     \<and> \<not> no_server (fst t) \<and> 0 < snd t
     \<and> accepting S fd rx (host_of (fst t)) (timeout_ms (conn_new\<lparr>conn_tsecs := secs, conn_tmicro := us\<rparr>) \<noteq> 0)"

lemma accepting_nonzero: "accepting S fd rx host waits \<Longrightarrow> fd \<noteq> 0 \<Longrightarrow> socket_nonzero S"
  unfolding socket_nonzero_def accepting_def
  by (metis setup_calls_simps(1) prod.collapse welcomes.simps(1))

text \<open>A layer that can be replaced without a system call.\<close>

definition released :: "tcp \<Rightarrow> bool" where
  "released t \<longleftrightarrow> (\<forall>c. tcp_comm t = Some (SSH_Comm c) \<longrightarrow> comm_sock c = 0)"

lemma released_setComm:
  assumes "released t"
  shows "tcp_setComm S c t w = Some (t\<lparr>tcp_comm := Some (obj_setTimeout (tcp_tsecs t) (tcp_tmilli t) c)\<rparr>, w)"
proof (cases "tcp_comm t")
  case None
  then show ?thesis by (simp add: tcp_setComm_def)
next
  case (Some old)
  have "obj_delete S old w = Some w"
    using assms Some
    by (cases old) (auto simp: released_def obj_delete_def normal_finish_def ssh_finish_def base_finish_def
        normal_virtualfinish_def)
  then show ?thesis using Some by (simp add: tcp_setComm_def)
qed

text \<open>A socket that holds no descriptor and may dial \<open>xs\<close>, its proxies, the newest first.\<close>

definition ready :: "'e socket \<Rightarrow> conn_obj list \<Rightarrow> bool" where
  "ready s xs \<longleftrightarrow> socket_inv no_others {#} s \<and> tcp_sock (im_tcp (so_impl s)) = 0 \<and> released (im_tcp (so_impl s))
     \<and> (\<exists>qs fs. connected (so_impl s) (so_heap s) fs \<and> proxies (so_heap s) (im_lastconnect (so_impl s)) qs
          \<and> set qs \<inter> set fs = {} \<and> list_all2 hop_like xs (objs_at (so_heap s) qs))
     \<and> (\<forall>x \<in> set xs. fresh_hop x)"

text \<open>Dialling such a socket: the chain that is walked, whatever comes of it.\<close>

lemma ready_route:
  assumes ready: "ready s xs" and t: "itinerary xs server port = t # ts"
  defines "i \<equiv> (so_impl s)\<lparr>im_sslerror := [], im_lastserver := host_of server\<rparr>"
  defines "p \<equiv> hp_next (so_heap s)"
  shows "\<exists>h1 qs c. impl_prepare i (so_heap s) = Some ((im_tcp i)\<lparr>tcp_conn := p\<rparr>, h1) \<and> route h1 p qs
    \<and> hp_objs h1 p = Some (Obj_Normal c) \<and> itinerary (objs_at h1 qs) server port = t # ts
    \<and> timeout_ms c = timeout_ms (conn_new\<lparr>conn_tsecs := tcp_tsecs (im_tcp i), conn_tmicro := tcp_tmilli (im_tcp i)\<rparr>)
    \<and> list_all2 hop_like xs (objs_at h1 qs) \<and> (\<forall>x \<in> set (objs_at h1 qs). fresh_hop x)"
proof -
  let ?h = "so_heap s" and ?t = "im_tcp (so_impl s)"
  have ci: "connected i ?h fs = connected (so_impl s) ?h fs" for fs by (simp add: i_def connected_def)
  have it: "im_tcp i = ?t" "im_lastconnect i = im_lastconnect (so_impl s)" by (simp_all add: i_def)
  obtain qs fs where rd: "socket_inv no_others {#} s" "connected i ?h fs"
    "proxies ?h (im_lastconnect i) qs" "set qs \<inter> set fs = {}" "list_all2 hop_like xs (objs_at ?h qs)"
    "\<forall>x \<in> set xs. fresh_hop x"
    using ready by (auto simp: ready_def ci it)
  have ok: "impl_ok i ?h" using rd(1) impl_ok_same [of i "so_impl s" ?h] it by (simp add: socket_inv_def)
  let ?c = "conn_new\<lparr>conn_child := im_lastconnect i, conn_tsecs := tcp_tsecs ?t, conn_tmicro := tcp_tmilli ?t\<rparr>"
  from impl_prepare_objs [OF ok rd(2-4)] obtain h1 where
    h1: "impl_prepare i ?h = Some ((im_tcp i)\<lparr>tcp_conn := p\<rparr>, h1)" "route h1 p qs" "hp_objs h1 p = Some (Obj_Normal ?c)" and
    like: "list_all2 hop_like (objs_at ?h qs) (objs_at h1 qs)"
    by (auto simp: it p_def)
  have like: "list_all2 hop_like xs (objs_at h1 qs)"
    by (rule list_all2_trans [OF hop_like_trans rd(5) like])
  have "timeout_ms ?c = timeout_ms (conn_new\<lparr>conn_tsecs := tcp_tsecs (im_tcp i), conn_tmicro := tcp_tmilli (im_tcp i)\<rparr>)"
    by (simp add: timeout_ms_def it)
  moreover have "itinerary (objs_at h1 qs) server port = t # ts" using hop_like_all(1) [OF like] t by simp
  moreover have "\<forall>x \<in> set (objs_at h1 qs). fresh_hop x" using hop_like_all(2) [OF like] rd(6) by simp
  ultimately show ?thesis using h1 like by blast
qed

text \<open>What is left after the walk is to bind the layer, or to keep the message of the hop.\<close>

lemma dial_walked:
  assumes ready: "ready s xs" and i: "im_tcp i = im_tcp (so_impl s)"
    and p: "impl_prepare i (so_heap s) = Some ((im_tcp i)\<lparr>tcp_conn := p\<rparr>, h1)" and r: "route h1 p qs"
    and c: "conn_connect S p (tcp_sock (im_tcp i)) server port h1 (so_world s) = Some (ok, fd, h2, w2)"
    and m: "\<not> ok \<longrightarrow> map_option (conn_error \<circ> base_of) (hp_objs h2 p) = Some m"
  shows "emits plain_call (so_world s) w2"
    "ok \<Longrightarrow> impl_connect_with S comm i server port (so_heap s) (so_world s)
      = Option.bind (obj_bind S fd (obj_setTimeout (tcp_tsecs (im_tcp i)) (tcp_tmilli (im_tcp i)) comm) w2)
          (\<lambda>(bound, c, w). let t = (im_tcp i)\<lparr>tcp_conn := p, tcp_sock := fd, tcp_comm := Some c\<rparr>
             in Some (bound, i\<lparr>im_tcp := if bound then t else tcp_setError (obj_getError c) t\<rparr>, h2, w))"
    "\<not> ok \<Longrightarrow> impl_connect_with S comm i server port (so_heap s) (so_world s)
      = Some (False, i\<lparr>im_tcp := (im_tcp i)\<lparr>tcp_conn := p, tcp_sock := fd, tcp_error := m, tcp_comm :=
          Some (obj_setTimeout (tcp_tsecs (im_tcp i)) (tcp_tmilli (im_tcp i)) comm)\<rparr>\<rparr>, h2, w2)"
proof -
  have "fd_books {#} (tcp_sock (im_tcp i)) (so_world s)"
    using ready by (auto simp: i ready_def socket_inv_def tcp_books_def)
  from conn_connect_books [OF c r this] show "emits plain_call (so_world s) w2" by blast
  have "released ((im_tcp i)\<lparr>tcp_conn := p\<rparr>)" using ready by (simp add: i ready_def released_def)
  note sc = released_setComm [OF this, of S _ "so_world s"]
  have "p \<noteq> 0" using r by (simp add: route_def)
  then show "ok \<Longrightarrow> impl_connect_with S comm i server port (so_heap s) (so_world s)
      = Option.bind (obj_bind S fd (obj_setTimeout (tcp_tsecs (im_tcp i)) (tcp_tmilli (im_tcp i)) comm) w2)
          (\<lambda>(bound, c, w). let t = (im_tcp i)\<lparr>tcp_conn := p, tcp_sock := fd, tcp_comm := Some c\<rparr>
             in Some (bound, i\<lparr>im_tcp := if bound then t else tcp_setError (obj_getError c) t\<rparr>, h2, w))"
    using p sc c
    by (cases "obj_bind S fd (obj_setTimeout (tcp_tsecs (im_tcp i)) (tcp_tmilli (im_tcp i)) comm) w2")
      (simp_all add: impl_connect_with_def tcp_connect_def Let_def split: prod.split)
  show "\<not> ok \<Longrightarrow> impl_connect_with S comm i server port (so_heap s) (so_world s)
      = Some (False, i\<lparr>im_tcp := (im_tcp i)\<lparr>tcp_conn := p, tcp_sock := fd, tcp_error := m, tcp_comm :=
          Some (obj_setTimeout (tcp_tsecs (im_tcp i)) (tcp_tmilli (im_tcp i)) comm)\<rparr>\<rparr>, h2, w2)"
    using p sc c m \<open>p \<noteq> 0\<close>
    by (auto simp: impl_connect_with_def tcp_connect_def tcp_setError_def Let_def)
qed

text \<open>Dialling: the chain connects, and what is left is to bind the layer to the descriptor.\<close>

lemma ready_dials:
  assumes ready: "ready s xs" and t: "itinerary xs server port = t # ts"
    and host: "reachable_host S fd rx ip t (tcp_tsecs (im_tcp (so_impl s))) (tcp_tmilli (im_tcp (so_impl s)))"
    and talk: "chain_talk ip xs ts sent got" and rx: "rx (w_env (so_world s)) = got @ rest"
  defines "i \<equiv> (so_impl s)\<lparr>im_sslerror := [], im_lastserver := host_of server\<rparr>"
  shows "\<exists>t0 h w. (\<forall>comm. impl_connect_with S comm i server port (so_heap s) (so_world s)
        = Option.bind (obj_bind S fd (obj_setTimeout (tcp_tsecs (im_tcp i)) (tcp_tmilli (im_tcp i)) comm) w)
            (\<lambda>(bound, c, w). let t = t0\<lparr>tcp_comm := Some c\<rparr>
               in Some (bound, i\<lparr>im_tcp := if bound then t else tcp_setError (obj_getError c) t\<rparr>, h, w)))
    \<and> tcp_sock t0 = fd \<and> tcp_tsecs t0 = tcp_tsecs (im_tcp i) \<and> tcp_tmilli t0 = tcp_tmilli (im_tcp i)
    \<and> rx (w_env w) = rest \<and> wire fd w = wire fd (so_world s) @ sent \<and> emits plain_call (so_world s) w"
proof -
  let ?h = "so_heap s"
  obtain h1 qs c where r: "impl_prepare i ?h = Some ((im_tcp i)\<lparr>tcp_conn := hp_next ?h\<rparr>, h1)" "route h1 (hp_next ?h) qs"
    "hp_objs h1 (hp_next ?h) = Some (Obj_Normal c)" and t1: "itinerary (objs_at h1 qs) server port = (fst t, snd t) # ts"
    and ms: "timeout_ms c = timeout_ms (conn_new\<lparr>conn_tsecs := tcp_tsecs (im_tcp i), conn_tmicro := tcp_tmilli (im_tcp i)\<rparr>)"
    and like: "list_all2 hop_like xs (objs_at h1 qs)" and fr: "\<forall>x \<in> set (objs_at h1 qs). fresh_hop x"
    using ready_route [OF ready t] unfolding i_def by auto
  have acc: "accepting S fd rx (host_of (fst t)) (timeout_ms c \<noteq> 0)"
    using host unfolding ms by (simp add: reachable_host_def i_def)
  have h: "\<not> no_server (fst t)" "0 < snd t" "prompt_peer S fd rx" "fd \<noteq> 0" "resolver S rx ip"
    using host by (auto simp: reachable_host_def)
  from chain_connects [OF r(2,3) t1 h(1,2) acc h(3-5) chain_talk_like [OF talk like] fr rx, of "tcp_sock (im_tcp i)"]
  obtain h2 w2 where
    c: "conn_connect S (hp_next ?h) (tcp_sock (im_tcp i)) server port h1 (so_world s) = Some (True, fd, h2, w2)"
      "rx (w_env w2) = rest" "wire fd w2 = wire fd (so_world s) @ sent" by blast
  have i: "im_tcp i = im_tcp (so_impl s)" by (simp add: i_def)
  note w = dial_walked(1,2) [OF ready i r(1,2) c(1), simplified]
  show ?thesis
    using w c(2,3)
    by (intro exI [of _ "(im_tcp i)\<lparr>tcp_conn := hp_next ?h, tcp_sock := fd\<rparr>"] exI [of _ h2] exI [of _ w2]) simp
qed

lemma ready_connects:
  assumes ready: "ready s xs" and t: "itinerary xs server port = t # ts"
    and host: "reachable_host S fd rx ip t (tcp_tsecs (im_tcp (so_impl s))) (tcp_tmilli (im_tcp (so_impl s)))"
    and talk: "chain_talk ip xs ts sent got" and rx: "rx (w_env (so_world s)) = got @ rest"
  shows "\<exists>s'. api_step S (Api_connect server port) s = Some (Ret_bool True, s') \<and> socket_linked S rx fd s'
    \<and> tcp_sock (im_tcp (so_impl s')) = fd \<and> im_lastconnect (so_impl s') = im_lastconnect (so_impl s)
    \<and> tcp_tsecs (im_tcp (so_impl s')) = tcp_tsecs (im_tcp (so_impl s))
    \<and> tcp_tmilli (im_tcp (so_impl s')) = tcp_tmilli (im_tcp (so_impl s))
    \<and> rx (w_env (so_world s')) = rest \<and> wire fd (so_world s') = wire fd (so_world s) @ sent
    \<and> emits plain_call (so_world s) (so_world s')"
proof -
  from ready_dials [OF assms] obtain t0 h w where
    d: "impl_connect_with S comm ((so_impl s)\<lparr>im_sslerror := [], im_lastserver := host_of server\<rparr>) server port (so_heap s) (so_world s)
      = Option.bind (obj_bind S fd (obj_setTimeout (tcp_tsecs (im_tcp (so_impl s))) (tcp_tmilli (im_tcp (so_impl s))) comm) w)
          (\<lambda>(bound, c, w). let t = t0\<lparr>tcp_comm := Some c\<rparr>
             in Some (bound, (so_impl s)\<lparr>im_sslerror := [], im_lastserver := host_of server,
                  im_tcp := if bound then t else tcp_setError (obj_getError c) t\<rparr>, h, w))"
      "tcp_sock t0 = fd" "tcp_tsecs t0 = tcp_tsecs (im_tcp (so_impl s))" "tcp_tmilli t0 = tcp_tmilli (im_tcp (so_impl s))"
      "rx (w_env w) = rest" "wire fd w = wire fd (so_world s) @ sent" "emits plain_call (so_world s) w" for comm
    by auto
  let ?c = "comm_setTimeout (tcp_tsecs (im_tcp (so_impl s))) (tcp_tmilli (im_tcp (so_impl s))) comm_new"
  have h: "prompt_peer S fd rx" "fd \<noteq> 0" using host by (auto simp: reachable_host_def)
  have b: "normal_bind S fd ?c w = Some (True, ?c\<lparr>comm_sock := fd\<rparr>, w)"
    by (rule normal_bind_fresh) (simp_all add: h comm_new_def)
  show ?thesis
    using d(2-) b h by (simp add: ret_ihw_def impl_connect_def d(1) socket_linked_def tcp_linked_def linked_def Let_def)
qed

subsection \<open>From \<open>connect\<close> to \<open>close\<close>\<close>

lemma api_run_chain:
  "api_run S as s = Some (rs, s1) \<Longrightarrow> api_run S bs s1 = Some (qs, s2) \<Longrightarrow> api_run S (as @ bs) s = Some (rs @ qs, s2)"
  by (induction as arbitrary: s rs) (auto split: bind_splits)

lemma api_run_one: "api_step S a s = Some (r, s') \<Longrightarrow> api_run S [a] s = Some ([r], s')"
  by simp

text \<open>Reading and sending lines leave the connectors alone.\<close>

lemma talk_run_keeps:
  assumes "api_run S as s = Some (rs, s')" "socket_inv no_others {#} s"
    and "\<forall>a \<in> set as. a \<in> {Api_readline, Api_close} \<union> range Api_sends"
  shows "socket_inv no_others {#} s' \<and> im_lastconnect (so_impl s') = im_lastconnect (so_impl s)"
proof (rule api_run_keeps [where I = "\<lambda>s'. socket_inv no_others {#} s' \<and> im_lastconnect (so_impl s') = im_lastconnect (so_impl s)",
    OF assms(1)])
  fix a s1 r s2
  assume a: "a \<in> set as" and st: "api_step S a s1 = Some (r, s2)"
    and i: "socket_inv no_others {#} s1 \<and> im_lastconnect (so_impl s1) = im_lastconnect (so_impl s)"
  have "\<not> dials S a" "inserted a = None" "\<not> connects a" using assms(3) a by (auto simp: dials_def)
  then show "socket_inv no_others {#} s2 \<and> im_lastconnect (so_impl s2) = im_lastconnect (so_impl s)"
    using api_step_inv [OF st] api_step_same_store [OF st] i by (fastforce simp: same_store_def)
qed (simp add: assms(2))

definition same_client :: "tcp \<Rightarrow> tcp \<Rightarrow> bool" where
  "same_client t t' \<longleftrightarrow> tcp_sock t' = tcp_sock t \<and> tcp_tsecs t' = tcp_tsecs t \<and> tcp_tmilli t' = tcp_tmilli t"

lemma talk_same_client:
  assumes "api_run S as s = Some (rs, s')" "socket_inv no_others {#} s"
    and "\<forall>a \<in> set as. a \<in> {Api_readline} \<union> range Api_sends"
  shows "same_client (im_tcp (so_impl s)) (im_tcp (so_impl s'))"
proof -
  have "socket_inv no_others {#} s' \<and> same_client (im_tcp (so_impl s)) (im_tcp (so_impl s'))"
  proof (rule api_run_keeps [where I = "\<lambda>s'. socket_inv no_others {#} s' \<and> same_client (im_tcp (so_impl s)) (im_tcp (so_impl s'))",
      OF assms(1)])
    fix a s1 r s2
    assume a: "a \<in> set as" and st: "api_step S a s1 = Some (r, s2)"
      and i: "socket_inv no_others {#} s1 \<and> same_client (im_tcp (so_impl s)) (im_tcp (so_impl s1))"
    have b: "tcp_books no_others {#} (im_tcp (so_impl s1)) (so_world s1)" using i by (simp add: socket_inv_def)
    consider "a = Api_readline" | d where "a = Api_sends d" using assms(3) a by auto
    then have "same_client (im_tcp (so_impl s1)) (im_tcp (so_impl s2))"
      using st tcp_readline_step [OF _ b] tcp_sends_step [OF _ b]
      by cases (fastforce simp: ret_iw_def impl_readline_def impl_sends_def tcp_step_def same_client_def split: bind_splits)+
    moreover have "\<not> connects a" using assms(3) a by auto
    ultimately show "socket_inv no_others {#} s2 \<and> same_client (im_tcp (so_impl s)) (im_tcp (so_impl s2))"
      using api_step_inv [OF st] i by (fastforce simp: same_client_def)
  qed (simp add: assms(2) same_client_def)
  then show ?thesis by simp
qed

lemma close_linked:
  assumes "socket_linked S rx fd s" "tcp_sock (im_tcp (so_impl s)) = fd" "accepting S fd rx host waits"
  shows "\<exists>s'. api_step S Api_close s = Some (Ret_bool True, s') \<and> tcp_sock (im_tcp (so_impl s')) = 0
    \<and> released (im_tcp (so_impl s')) \<and> quiet rx fd (so_world s) (so_world s')"
proof -
  let ?t = "im_tcp (so_impl s)"
  obtain c where c: "tcp_comm ?t = Some (Normal_Comm c)" "comm_sock c \<noteq> 0" "fd \<noteq> 0"
    using assms(1) by (auto simp: socket_linked_def tcp_linked_def linked_def)
  obtain r1 w1 where 1: "call S (Sys_shutdown fd) (so_world s) = (r1, w1)" by fastforce
  obtain r2 w2 where 2: "call S (Sys_close fd) w1 = (r2, w2)" by fastforce
  show ?thesis
    using c assms(2) accepting_call [OF assms(3) 1] accepting_call [OF assms(3) 2]
    by (auto simp: ret_iw_def impl_close_def tcp_close_def normal_finish_def base_finish_def
        normal_virtualfinish_def closeDescriptor_def 1 2 released_def intro: quiet_trans)
qed

definition session_calls :: "string option \<Rightarrow> int \<Rightarrow> turn list \<Rightarrow> api list" where
  "session_calls server port talk = [Api_connect server port] @ map turn_call talk @ [Api_close]"

definition session_results :: "turn list \<Rightarrow> api_result list" where
  "session_results talk = [Ret_bool True] @ map turn_result talk @ [Ret_bool True]"

lemma turn_calls_talk: "a \<in> set (map turn_call ts) \<Longrightarrow> a \<in> {Api_readline} \<union> range Api_sends"
proof -
  have "turn_call t \<in> {Api_readline} \<union> range Api_sends" for t by (cases t) auto
  then show "a \<in> set (map turn_call ts) \<Longrightarrow> a \<in> {Api_readline} \<union> range Api_sends" by auto
qed

lemma session_from_ready:
  assumes ready: "ready s xs" and t: "itinerary xs server port = t # ts"
    and host: "reachable_host S fd rx ip t (tcp_tsecs (im_tcp (so_impl s))) (tcp_tmilli (im_tcp (so_impl s)))"
    and hops: "chain_talk ip xs ts sent got" and talk: "\<forall>u \<in> set talk. turn_ok u"
    and rx: "rx (w_env (so_world s)) = got @ heard talk @ rest"
  shows "\<exists>s'. api_run S (session_calls server port talk) s = Some (session_results talk, s')
    \<and> wire fd (so_world s') = wire fd (so_world s) @ sent @ said talk
    \<and> rx (w_env (so_world s')) = rest \<and> socket_inv no_others {#} s' \<and> tcp_sock (im_tcp (so_impl s')) = 0
    \<and> released (im_tcp (so_impl s')) \<and> im_lastconnect (so_impl s') = im_lastconnect (so_impl s)"
proof -
  have inv: "socket_inv no_others {#} s" "tcp_sock (im_tcp (so_impl s)) = 0" using ready by (simp_all add: ready_def)
  have acc: "accepting S fd rx (host_of (fst t)) (timeout_ms (conn_new\<lparr>conn_tsecs := tcp_tsecs (im_tcp (so_impl s)),
      conn_tmicro := tcp_tmilli (im_tcp (so_impl s))\<rparr>) \<noteq> 0)" and fd: "fd \<noteq> 0"
    using host by (auto simp: reachable_host_def)
  from ready_connects [OF ready t host hops rx] obtain s3 where
    3: "api_step S (Api_connect server port) s = Some (Ret_bool True, s3)" "socket_linked S rx fd s3"
      "tcp_sock (im_tcp (so_impl s3)) = fd" "im_lastconnect (so_impl s3) = im_lastconnect (so_impl s)"
      "rx (w_env (so_world s3)) = heard talk @ rest"
      "wire fd (so_world s3) = wire fd (so_world s) @ sent" by blast
  have inv3: "socket_inv no_others {#} s3"
    using api_step_inv [OF 3(1) inv(1)] inv(2) accepting_nonzero [OF acc fd] by blast
  obtain s5 where 5: "api_run S (map turn_call talk) s3 = Some (map turn_result talk, s5)"
      "socket_linked S rx fd s5" "rx (w_env (so_world s5)) = rest" "wire fd (so_world s5) = wire fd (so_world s3) @ said talk"
    using plain_lines.dialogue [OF 3(2) talk 3(5)] by blast
  have k5: "socket_inv no_others {#} s5" "im_lastconnect (so_impl s5) = im_lastconnect (so_impl s3)"
    using talk_run_keeps [OF 5(1) inv3] turn_calls_talk by blast+
  have sock5: "tcp_sock (im_tcp (so_impl s5)) = fd"
    using talk_same_client [OF 5(1) inv3] 3(3) turn_calls_talk by (fastforce simp: same_client_def)
  obtain s6 where 6: "api_step S Api_close s5 = Some (Ret_bool True, s6)" "tcp_sock (im_tcp (so_impl s6)) = 0"
      "released (im_tcp (so_impl s6))" "quiet rx fd (so_world s5) (so_world s6)"
    using close_linked [OF 5(2) sock5 acc] by blast
  have k6: "socket_inv no_others {#} s6 \<and> im_lastconnect (so_impl s6) = im_lastconnect (so_impl s5)"
    using talk_run_keeps [OF api_run_one [OF 6(1)] k5(1)] by simp
  have "api_run S (session_calls server port talk) s = Some (session_results talk, s6)"
    unfolding session_calls_def session_results_def
    using api_run_chain [OF api_run_one [OF 3(1)] api_run_chain [OF 5(1) api_run_one [OF 6(1)]]] by simp
  then show ?thesis using 3(4,6) 5(3,4) 6(2-4) k5 k6 by (auto simp: quiet_def)
qed

subsection \<open>Sessions over proxies\<close>

lemma prepared:
  assumes ins: "\<forall>a \<in> set ins. inserted a \<noteq> None"
  shows "\<exists>s. api_run S (Api_setTimeout secs us # ins) (socket_new (start e)) = Some (Ret_void # map (\<lambda>a. Ret_bool True) ins, s)
    \<and> ready s (rev (map made_hop ins)) \<and> so_world s = start e
    \<and> tcp_tsecs (im_tcp (so_impl s)) = secs \<and> tcp_tmilli (im_tcp (so_impl s)) = us"
proof -
  let ?s0 = "socket_new (start e)"
  let ?s1 = "?s0\<lparr>so_impl := impl_new\<lparr>im_tcp := tcp_new\<lparr>tcp_tsecs := secs, tcp_tmilli := us\<rparr>\<rparr>\<rparr>"
  have 1: "api_step S (Api_setTimeout secs us) ?s0 = Some (Ret_void, ?s1)"
    by (simp add: socket_new_def impl_setTimeout_def tcp_setTimeout_def impl_new_def tcp_new_def)
  have inv1: "socket_inv no_others {#} ?s1" using api_step_inv [OF 1 socket_inv_new] by simp
  have "proxies (so_heap ?s1) (im_lastconnect (so_impl ?s1)) []"
    by (simp add: socket_new_def impl_new_def proxies_def)
  from insert_run [OF ins inv1 this, where xs = "[]" and S = S] obtain s2 qs where
    2: "api_run S ins ?s1 = Some (map (\<lambda>a. Ret_bool True) ins, s2)" "so_world s2 = start e"
      "im_tcp (so_impl s2) = tcp_new\<lparr>tcp_tsecs := secs, tcp_tmilli := us\<rparr>" "socket_inv no_others {#} s2"
      "proxies (so_heap s2) (im_lastconnect (so_impl s2)) qs"
      "list_all2 hop_like (rev (map made_hop ins)) (objs_at (so_heap s2) qs)"
    by (auto simp: socket_new_def)
  have "connected (so_impl s2) (so_heap s2) []" by (simp add: connected_def 2(3) tcp_new_def)
  moreover have "\<forall>x \<in> set (rev (map made_hop ins)). fresh_hop x" using ins made_hop_fresh by auto
  moreover from calculation(1) 2(5,6) have "\<exists>qs fs. connected (so_impl s2) (so_heap s2) fs
      \<and> proxies (so_heap s2) (im_lastconnect (so_impl s2)) qs \<and> set qs \<inter> set fs = {}
      \<and> list_all2 hop_like (rev (map made_hop ins)) (objs_at (so_heap s2) qs)"
    by (intro exI [of _ qs] exI [of _ "[]"]) simp
  ultimately have "ready s2 (rev (map made_hop ins))"
    unfolding ready_def using 2(4) by (simp add: released_def 2(3) tcp_new_def)
  then show ?thesis using api_run_chain [OF api_run_one [OF 1] 2(1)] 2(2,3) by simp
qed

text \<open>
  C5. A whole session over any chain of proxies works: a program sets a timeout, inserts tunnels, HTTP,
  SOCKS4 and SOCKS5 proxies in any number and order, connects, sends and reads lines in any order, and
  closes. Suppose that the host of the first hop accepts, and that the proxies, from the newest to the oldest,
  are asked for the next one's address or, the last, for the destination's, and grant it (\<open>hop_talk\<close>). Then every
  call succeeds and \<open>readline\<close> returns the destination's lines; what went out is exactly the proxies'
  requests in this order and then the program's lines; the stream is read up to the last line and no
  further; and every descriptor that was opened is closed. What \<open>hop_talk\<close> takes for a request is what the
  connectors send: an HTTP or SOCKS5 request names the host and the port it is asked for, a SOCKS4 request the
  address the host resolves to, but always port 80. It covers HTTP answers whose
  status has a 2 at offset 9 and whose header lines all end in CR LF, SOCKS5 requests that fit the client's buffer (user name and password of at most 197 characters
  together, a host of at most 193) and SOCKS5 replies whose address the client reads in full (a domain
  name of fewer than 128 bytes).
\<close>

theorem session_over_proxies:
  assumes ins: "\<forall>a \<in> set ins. inserted a \<noteq> None"
    and t: "itinerary (rev (map made_hop ins)) server port = t # ts"
    and host: "reachable_host S fd rx ip t secs us"
    and hops: "chain_talk ip (rev (map made_hop ins)) ts sent got" and talk: "\<forall>u \<in> set talk. turn_ok u"
    and rx: "rx e = got @ heard talk @ rest"
  shows "\<exists>s. api_run S (Api_setTimeout secs us # ins @ session_calls server port talk) (socket_new (start e))
        = Some (Ret_void # map (\<lambda>a. Ret_bool True) ins @ session_results talk, s)
    \<and> wire fd (so_world s) = sent @ said talk \<and> rx (w_env (so_world s)) = rest
    \<and> opens (so_world s) = closes (so_world s)"
proof -
  obtain s2 where 2: "api_run S (Api_setTimeout secs us # ins) (socket_new (start e)) = Some (Ret_void # map (\<lambda>a. Ret_bool True) ins, s2)"
      "so_world s2 = start e" "tcp_tsecs (im_tcp (so_impl s2)) = secs" "tcp_tmilli (im_tcp (so_impl s2)) = us"
    and ready: "ready s2 (rev (map made_hop ins))" using prepared [OF ins, where S = S and secs = secs and us = us and e = e] by blast
  have host2: "reachable_host S fd rx ip t (tcp_tsecs (im_tcp (so_impl s2))) (tcp_tmilli (im_tcp (so_impl s2)))"
    using host by (simp add: 2(3,4))
  have rx2: "rx (w_env (so_world s2)) = got @ heard talk @ rest" by (simp add: 2(2) start_def rx)
  from session_from_ready [OF ready t host2 hops talk rx2] obtain s3 where
    3: "api_run S (session_calls server port talk) s2 = Some (session_results talk, s3)"
      "wire fd (so_world s3) = sent @ said talk" "rx (w_env (so_world s3)) = rest"
      "socket_inv no_others {#} s3" "tcp_sock (im_tcp (so_impl s3)) = 0"
    by (auto simp: 2(2) start_def wire_def)
  then have "opens (so_world s3) = closes (so_world s3)"
    by (simp add: socket_inv_def tcp_books_def fd_books_def)
  then show ?thesis
    using api_run_chain [OF 2(1) 3(1)] 3(2,3) by simp
qed

text \<open>A worked example: a SOCKS5 proxy that asks for credentials, reached through an HTTP proxy.\<close>

definition demo_inserts :: "api list" where
  "demo_inserts = [Api_insertSocks5 (Some ''s'') 1080 (Some ''me'') (Some ''pw''), Api_insertProxy (Some ''p'') 8080]"

definition demo_replies :: "byte list" where
  "demo_replies = (bytes_of ''HTTP/1.0 200'' @ [32, 79, 75] @ [CR, LF, CR, LF])
     @ ([5, 2] @ [1, 0] @ [5, 0, 0, 1] @ [127, 0, 0, 1, 0, 80])"

lemma accepting_stream: "accepting stream_sys 3 (\<lambda>bs. bs) host waits"
  by (auto simp: accepting_def setup_calls_def stream_sys_def ans_def fd_isset_write_def)

lemma demo_talk:
  "chain_talk ip (rev (map made_hop demo_inserts)) [(Some ''s'', 1080), (Some ''h'', 25)]
     (bytes_of (connect_text ''s'' 1080) @ socks5_greeting @ socks5_auth ''me'' ''pw'' @ socks5_request ''h'' 25)
     demo_replies"
proof -
  have c: "crlf_lines ([32, 79, 75] @ [CR, LF, CR, LF])" "\<not> sublist [CR, LF, CR, LF] ([32, 79, 75] @ [CR, LF, CR])"
    by (auto simp: crlf_lines_def Cons_eq_append_conv sublist_Cons_right)
  have s: "host_ok (Some ''s'')" "length (bytes_of ''HTTP/1.0 200'') = 12" "bytes_of ''HTTP/1.0 200'' ! 9 = 0x32"
    by (simp_all add: host_ok_def no_server_def host_of_def bytes_of_def)
  have h: "\<not> no_server (Some ''h'')" "s5_address 1 [127, 0, 0, 1, 0, 80]"
    by (simp_all add: no_server_def s5_address_def)
  let ?c = "socks5_setPassword (Some ''pw'') (socks5_setUsername (Some ''me'')
      (conn_setPort 1080 (conn_setServer (Some ''s'') socks5_new)))"
  have f: "fits_buffer ?c (Some ''h'')"
    by (simp add: fits_buffer_def socks5_setPassword_def socks5_setUsername_def host_of_def)
  have p: "hop_talk ip (made_hop (Api_insertProxy (Some ''p'') 8080)) (Some ''s'', 1080)
      (bytes_of (connect_text ''s'' 1080)) (bytes_of ''HTTP/1.0 200'' @ [32, 79, 75] @ [CR, LF, CR, LF])"
    using hop_talk.talk_http [OF s(1) _ _ s(2,3) c, of 1080 ip] by (simp add: made_hop_def host_of_def)
  have "hop_talk ip (Obj_Socks5 ?c) (Some ''h'', 25)
      (socks5_greeting @ socks5_auth ''me'' ''pw'' @ socks5_request ''h'' 25)
      ([5, 2] @ [1, 0] @ [5, 0, 0, 1] @ [127, 0, 0, 1, 0, 80])"
    using hop_talk.talk_socks5 [OF h(1) _ f _ h(2), of 25 2 ip 1 5 0]
    by (simp add: socks5_setPassword_def socks5_setUsername_def host_of_def)
  from chain_talk.talk_hop [OF p chain_talk.talk_hop [OF this chain_talk.talk_end]] show ?thesis
    by (simp add: demo_inserts_def demo_replies_def made_hop_def)
qed

lemma reachable_stream: "h \<noteq> [] \<Longrightarrow> 0 < p \<Longrightarrow> reachable_host stream_sys 3 (\<lambda>bs. bs) (\<lambda>h. []) (Some h, p) a b"
  "h \<noteq> [] \<Longrightarrow> 0 < p \<Longrightarrow> reachable_host stream_sys 3 (\<lambda>bs. bs) (\<lambda>h. [127, 0, 0, 1]) (Some h, p) a b"
  by (simp_all add: reachable_host_def prompt_stream resolver_def resolves_stream accepting_stream no_server_def)

lemma session_over_proxies_witness:
  "\<exists>s. api_run stream_sys (Api_setTimeout 5 0 # demo_inserts @ session_calls (Some ''h'') 25 [Hear [111, 107], Say [104]])
        (socket_new (start (demo_replies @ [111, 107, 13, 10, 7])))
      = Some (Ret_void # map (\<lambda>a. Ret_bool True) demo_inserts @ session_results [Hear [111, 107], Say [104]], s)
    \<and> wire 3 (so_world s) = bytes_of (connect_text ''s'' 1080) @ socks5_greeting @ socks5_auth ''me'' ''pw''
        @ socks5_request ''h'' 25 @ [104, 13, 10]
    \<and> w_env (so_world s) = [7] \<and> opens (so_world s) = closes (so_world s)"
proof -
  have i: "\<forall>a \<in> set demo_inserts. inserted a \<noteq> None" by (simp add: demo_inserts_def)
  have t: "itinerary (rev (map made_hop demo_inserts)) (Some ''h'') 25
      = (Some ''p'', 8080) # [(Some ''s'', 1080), (Some ''h'', 25)]"
    by (simp add: itinerary_def demo_inserts_def made_hop_def target_of_def conn_setPort_def conn_setServer_def
        socks5_setUsername_def socks5_setPassword_def)
  have r: "reachable_host stream_sys 3 (\<lambda>bs. bs) (\<lambda>h. [127, 0, 0, 1]) (Some ''p'', 8080) 5 0"
    by (rule reachable_stream) simp_all
  show ?thesis
    using session_over_proxies [OF i t r demo_talk, of "[Hear [111, 107], Say [104]]" "demo_replies @ [111, 107, 13, 10, 7]" "[7]"]
    by (simp add: line_bytes_def plain_line_def)
qed

end
