(* ===== verification/Socket_Reuse.thy ===== *)
theory Socket_Reuse
  imports Socket_Session
begin

text \<open>
  One \<open>Socket\<close> used for several connections (src/src/rude\_socketimpl.cpp and socket\_tcpclient.cpp, as in
  tests/test\_contract.cpp): sessions in a row, and sessions after failed attempts to connect.
\<close>

subsection \<open>One socket, many sessions\<close>

record chat =
  ch_secs :: int
  ch_us :: int
  ch_server :: "string option"
  ch_port :: int
  ch_talk :: "turn list"

definition chat_calls :: "chat \<Rightarrow> api list" where
  "chat_calls c = Api_setTimeout (ch_secs c) (ch_us c) # session_calls (ch_server c) (ch_port c) (ch_talk c)"

definition chat_results :: "chat \<Rightarrow> api_result list" where
  "chat_results c = Ret_void # session_results (ch_talk c)"

definition chat_ok :: "'e sys \<Rightarrow> int \<Rightarrow> ('e \<Rightarrow> byte list) \<Rightarrow> chat \<Rightarrow> bool" where
  "chat_ok S fd rx c \<longleftrightarrow> reachable_host S fd rx (\<lambda>h. []) (ch_server c, ch_port c) (ch_secs c) (ch_us c)
     \<and> (\<forall>u \<in> set (ch_talk c). turn_ok u)"

text \<open>A socket without proxies, connected or not in the past.\<close>

definition idle :: "'e socket \<Rightarrow> bool" where
  "idle s \<longleftrightarrow> socket_inv no_others {#} s \<and> tcp_sock (im_tcp (so_impl s)) = 0 \<and> released (im_tcp (so_impl s))
     \<and> im_lastconnect (so_impl s) = 0"

lemma idle_new: "idle (socket_new (start e))"
  using socket_inv_new [of e] by (simp add: idle_def released_def) (simp add: socket_new_def impl_new_def tcp_new_def)

lemma idle_ready: "idle s \<Longrightarrow> ready s []"
  using impl_ok_connected [of "so_impl s" "so_heap s"]
  by (auto simp: idle_def ready_def socket_inv_def proxies_def intro!: exI [of _ "[]"])

lemma idle_setTimeout:
  assumes "idle s"
  shows "\<exists>s'. api_step S (Api_setTimeout a b) s = Some (Ret_void, s') \<and> idle s' \<and> so_world s' = so_world s
    \<and> tcp_tsecs (im_tcp (so_impl s')) = a \<and> tcp_tmilli (im_tcp (so_impl s')) = b"
proof -
  let ?i = "so_impl s" and ?t = "im_tcp (so_impl s)"
  have inv: "socket_inv no_others {#} s" using assms by (simp add: idle_def)
  then obtain fs where "connected ?i (so_heap s) fs" using impl_ok_connected by (auto simp: socket_inv_def)
  note ch = connected_chain [OF this]
  obtain h where h: "(if tcp_conn ?t \<noteq> 0 then conn_setTimeout a b (tcp_conn ?t) (so_heap s) else Some (so_heap s)) = Some h"
    using conn_setTimeout_chain [OF ch, where s = a and u = b] by (cases "tcp_conn ?t = 0") auto
  let ?s = "s\<lparr>so_impl := ?i\<lparr>im_tcp := ?t\<lparr>tcp_tsecs := a, tcp_tmilli := b,
      tcp_comm := map_option (obj_setTimeout a b) (tcp_comm ?t)\<rparr>\<rparr>, so_heap := h\<rparr>"
  have st: "api_step S (Api_setTimeout a b) s = Some (Ret_void, ?s)"
    using h by (cases "tcp_conn ?t = 0") (simp_all add: impl_setTimeout_def tcp_setTimeout_def)
  have "released (im_tcp (so_impl ?s))"
  proof (cases "tcp_comm ?t")
    case (Some c)
    then show ?thesis using assms by (cases c) (auto simp: idle_def released_def)
  qed (simp add: released_def)
  then have "idle ?s" using api_step_inv [OF st inv] assms by (simp add: idle_def)
  then show ?thesis using st by auto
qed

lemma chat_from_idle:
  assumes "idle s" "chat_ok S fd rx c" "rx (w_env (so_world s)) = heard (ch_talk c) @ rest"
  shows "\<exists>s'. api_run S (chat_calls c) s = Some (chat_results c, s') \<and> idle s' \<and> rx (w_env (so_world s')) = rest
    \<and> wire fd (so_world s') = wire fd (so_world s) @ said (ch_talk c)"
proof -
  obtain s1 where 1: "api_step S (Api_setTimeout (ch_secs c) (ch_us c)) s = Some (Ret_void, s1)" "idle s1"
      "so_world s1 = so_world s" "tcp_tsecs (im_tcp (so_impl s1)) = ch_secs c" "tcp_tmilli (im_tcp (so_impl s1)) = ch_us c"
    using idle_setTimeout [OF assms(1)] by blast
  have h: "reachable_host S fd rx (\<lambda>h. []) (ch_server c, ch_port c) (tcp_tsecs (im_tcp (so_impl s1))) (tcp_tmilli (im_tcp (so_impl s1)))"
    "\<forall>u \<in> set (ch_talk c). turn_ok u"
    using assms(2) by (simp_all add: chat_ok_def 1(4,5))
  have t: "itinerary [] (ch_server c) (ch_port c) = (ch_server c, ch_port c) # []" by (simp add: itinerary_def)
  have rx1: "rx (w_env (so_world s1)) = [] @ heard (ch_talk c) @ rest" using assms(3) 1(3) by simp
  from session_from_ready [OF idle_ready [OF 1(2)] t h(1) talk_end h(2) rx1] obtain s2 where
    2: "api_run S (session_calls (ch_server c) (ch_port c) (ch_talk c)) s1 = Some (session_results (ch_talk c), s2)"
      "wire fd (so_world s2) = wire fd (so_world s1) @ said (ch_talk c)" "rx (w_env (so_world s2)) = rest"
      "socket_inv no_others {#} s2" "tcp_sock (im_tcp (so_impl s2)) = 0" "released (im_tcp (so_impl s2))"
      "im_lastconnect (so_impl s2) = im_lastconnect (so_impl s1)"
    by auto
  then show ?thesis
    using api_run_chain [OF api_run_one [OF 1(1)] 2(1)] 1(2,3) by (auto simp: idle_def chat_calls_def chat_results_def)
qed

lemma chats_from_idle:
  assumes "idle s" "\<forall>c \<in> set cs. chat_ok S fd rx c"
    and "rx (w_env (so_world s)) = concat (map (\<lambda>c. heard (ch_talk c)) cs) @ rest"
  shows "\<exists>s'. api_run S (concat (map chat_calls cs)) s = Some (concat (map chat_results cs), s') \<and> idle s'
    \<and> rx (w_env (so_world s')) = rest
    \<and> wire fd (so_world s') = wire fd (so_world s) @ concat (map (\<lambda>c. said (ch_talk c)) cs)"
  using assms
proof (induction cs arbitrary: s)
  case (Cons c cs)
  have rx: "rx (w_env (so_world s)) = heard (ch_talk c)
      @ (concat (map (\<lambda>c. heard (ch_talk c)) cs) @ rest)" using Cons.prems(3) by simp
  have ck: "chat_ok S fd rx c" using Cons.prems(2) by simp
  obtain s1 where 1: "api_run S (chat_calls c) s = Some (chat_results c, s1)" "idle s1"
      "rx (w_env (so_world s1)) = concat (map (\<lambda>c. heard (ch_talk c)) cs) @ rest"
      "wire fd (so_world s1) = wire fd (so_world s) @ said (ch_talk c)"
    using chat_from_idle [OF Cons.prems(1) ck rx] by blast
  obtain s2 where "api_run S (concat (map chat_calls cs)) s1 = Some (concat (map chat_results cs), s2)" "idle s2"
      "rx (w_env (so_world s2)) = rest"
      "wire fd (so_world s2) = wire fd (so_world s1) @ concat (map (\<lambda>c. said (ch_talk c)) cs)"
    using Cons.IH [OF 1(2) _ 1(3)] Cons.prems(2) by auto
  then show ?case using api_run_chain [OF 1(1)] 1(4) by auto
qed simp

text \<open>
  C14. The same object connects again and again: with no proxies, any number of sessions in a row on one
  \<open>Socket\<close>, each with its own timeout, host and lines, work as if each had a socket of its own, and all
  descriptors are closed at the end.
\<close>

theorem sessions_reuse_the_socket:
  assumes "\<forall>c \<in> set cs. chat_ok S fd rx c"
    and "rx e = concat (map (\<lambda>c. heard (ch_talk c)) cs) @ rest"
  shows "\<exists>s. api_run S (concat (map chat_calls cs)) (socket_new (start e)) = Some (concat (map chat_results cs), s)
    \<and> wire fd (so_world s) = concat (map (\<lambda>c. said (ch_talk c)) cs)
    \<and> rx (w_env (so_world s)) = rest \<and> opens (so_world s) = closes (so_world s)"
proof -
  from chats_from_idle [OF idle_new assms(1), of e rest] assms(2) obtain s where
    "api_run S (concat (map chat_calls cs)) (socket_new (start e)) = Some (concat (map chat_results cs), s)" "idle s"
    "rx (w_env (so_world s)) = rest"
    "wire fd (so_world s) = concat (map (\<lambda>c. said (ch_talk c)) cs)"
    by (auto simp: socket_new_def start_def wire_def)
  then show ?thesis by (auto simp: idle_def socket_inv_def tcp_books_def fd_books_def)
qed

text \<open>The two round trips of tests/test\_contract.cpp on one object.\<close>

definition ping_pong :: "chat list" where
  "ping_pong = map (\<lambda>l. \<lparr>ch_secs = 5, ch_us = 0, ch_server = Some ''127.0.0.1'', ch_port = 7,
     ch_talk = [Say (bytes_of l), Hear (bytes_of l)]\<rparr>) [''ping'', ''pong'']"

lemma sessions_reuse_the_socket_witness:
  "\<exists>s. api_run stream_sys (concat (map chat_calls ping_pong)) (socket_new (start (bytes_of ''ping'' @ [13, 10] @ bytes_of ''pong'' @ [13, 10])))
      = Some (concat (map chat_results ping_pong), s)
    \<and> wire 3 (so_world s) = bytes_of ''ping'' @ [13, 10] @ bytes_of ''pong'' @ [13, 10]
    \<and> w_env (so_world s) = [] \<and> opens (so_world s) = closes (so_world s)"
proof -
  have ok: "\<forall>c \<in> set ping_pong. chat_ok stream_sys 3 (\<lambda>bs. bs) c"
    by (simp add: ping_pong_def chat_ok_def reachable_stream line_bytes_def plain_line_def bytes_of_def)
  show ?thesis
    using sessions_reuse_the_socket [OF ok, of "bytes_of ''ping'' @ [13, 10] @ bytes_of ''pong'' @ [13, 10]" "[]"]
    by (simp add: ping_pong_def line_bytes_def)
qed

subsection \<open>After a failed connection\<close>

lemma idle_connect_fails:
  assumes idle: "idle s" and st: "api_step S (Api_connect server port) s = Some (Ret_bool False, s')" and nz: "socket_nonzero S"
  shows "idle s'"
proof -
  let ?i = "(so_impl s)\<lparr>im_sslerror := [], im_lastserver := host_of server\<rparr>" and ?h = "so_heap s"
  let ?t = "im_tcp (so_impl s)"
  have i: "socket_inv no_others {#} s" "tcp_sock ?t = 0" "released ?t" "im_lastconnect ?i = 0"
    using idle by (simp_all add: idle_def)
  have ok: "impl_ok ?i ?h" using i(1) impl_ok_same [of ?i "so_impl s" ?h] by (simp add: socket_inv_def)
  obtain fs where fs: "connected ?i ?h fs" using impl_ok_connected [OF ok] by blast
  have "proxies ?h (im_lastconnect ?i) []" by (simp add: proxies_def i(4))
  from impl_prepare_objs [OF ok fs this] obtain h1 c where
    p: "impl_prepare ?i ?h = Some (?t\<lparr>tcp_conn := hp_next ?h\<rparr>, h1)" "hp_next ?h \<noteq> 0"
      "hp_objs h1 (hp_next ?h) = Some (Obj_Normal c)" "conn_child c = 0"
    using i(4) by (auto simp: route_def)
  let ?c = "comm_setTimeout (tcp_tsecs ?t) (tcp_tmilli ?t) comm_new"
  have "released (?t\<lparr>tcp_conn := hp_next ?h\<rparr>)" using i(3) by (simp add: released_def)
  note sc = released_setComm [OF this, of S "Normal_Comm comm_new" "so_world s"]
  obtain ok c1 s1 w1 where n: "normal_simpleConnect S c 0 server port (so_world s) = (ok, c1, s1, w1)"
    using prod_cases4 by blast
  have cc: "conn_connect S (hp_next ?h) 0 server port h1 (so_world s)
      = Some (ok, s1, heap_put (hp_next ?h) (Obj_Normal c1) h1, w1)"
    by (subst conn_connect_last [OF p(3)]) (simp_all add: p(4) n)
  have s1: "s1 = 0" "\<not> ok"
  proof -
    have "\<not> ok"
    proof
      assume "ok"
      then have "s1 \<noteq> 0" using normal_simpleConnect_fds [OF n] by (auto split: if_splits)
      then have "normal_bind S s1 ?c w1 = Some (True, ?c\<lparr>comm_sock := s1\<rparr>, w1)"
        by (intro normal_bind_fresh) (simp_all add: comm_new_def)
      then show False
        using st p sc cc i(2) \<open>ok\<close> by (simp add: ret_ihw_def impl_connect_def impl_connect_with_def tcp_connect_def)
    qed
    then show "s1 = 0" "\<not> ok" using normal_simpleConnect_fds [OF n] by (auto split: if_splits)
  qed
  have "tcp_sock (im_tcp (so_impl s')) = 0 \<and> released (im_tcp (so_impl s')) \<and> im_lastconnect (so_impl s') = 0"
    using st p sc cc i(2,4) s1
    by (auto simp: ret_ihw_def impl_connect_def impl_connect_with_def tcp_connect_def released_def)
  moreover have "socket_inv no_others {#} s'" using api_step_inv [OF st i(1)] i(2) nz by blast
  ultimately show ?thesis by (simp add: idle_def)
qed

lemma idle_attempts:
  "api_run S (map (\<lambda>(sv, p). Api_connect sv p) ts) s = Some (map (\<lambda>t. Ret_bool False) ts, s') \<Longrightarrow>
   idle s \<Longrightarrow> socket_nonzero S \<Longrightarrow> idle s'"
proof (induction ts arbitrary: s)
  case (Cons t ts)
  obtain sv p where t: "t = (sv, p)" by fastforce
  obtain s1 where "api_step S (Api_connect sv p) s = Some (Ret_bool False, s1)"
    "api_run S (map (\<lambda>(sv, p). Api_connect sv p) ts) s1 = Some (map (\<lambda>t. Ret_bool False) ts, s')"
    using Cons.prems(1) by (auto simp: t simp del: api_step.simps split: bind_splits)
  with Cons idle_connect_fails show ?case by blast
qed simp

text \<open>
  C15. Without proxies, a failed \<open>connect\<close> does no harm: on a new object into which no proxy was inserted, after any
  number of failed calls of \<open>connect\<close> (in the clear) to any hosts and for any reasons, nothing is left open,
  and the sessions in the clear and without proxies that follow on the same object work as on a fresh one.
\<close>

theorem failed_connects_can_be_retried:
  assumes "api_run S (map (\<lambda>(sv, p). Api_connect sv p) ts) (socket_new (start e)) = Some (map (\<lambda>t. Ret_bool False) ts, s)"
    and "\<forall>c \<in> set cs. chat_ok S fd rx c" "socket_nonzero S"
    and "rx (w_env (so_world s)) = concat (map (\<lambda>c. heard (ch_talk c)) cs) @ rest"
  shows "opens (so_world s) = closes (so_world s)
    \<and> (\<exists>s'. api_run S (concat (map chat_calls cs)) s = Some (concat (map chat_results cs), s')
         \<and> wire fd (so_world s') = wire fd (so_world s) @ concat (map (\<lambda>c. said (ch_talk c)) cs)
         \<and> opens (so_world s') = closes (so_world s'))"
proof -
  have "idle s" by (rule idle_attempts [OF assms(1) idle_new assms(3)])
  moreover from chats_from_idle [OF this assms(2,4)] obtain s' where
    "api_run S (concat (map chat_calls cs)) s = Some (concat (map chat_results cs), s')" "idle s'"
    "wire fd (so_world s') = wire fd (so_world s) @ concat (map (\<lambda>c. said (ch_talk c)) cs)"
    by blast
  moreover have "opens (so_world u) = closes (so_world u)" if "idle u" for u :: "'a socket"
    using that by (simp add: idle_def socket_inv_def tcp_books_def fd_books_def)
  ultimately show ?thesis by blast
qed
text \<open>The failures of tests/test\_contract.cpp, a name that does not resolve and a null host, and then a session.\<close>

definition picky_sys :: "byte list sys" where
  "picky_sys = stream_sys\<lparr>sys_step := (\<lambda>k bs. if k = Sys_getaddrinfo ''no-such-host.invalid'' then (ans (- 2), bs)
     else stream_step k bs)\<rparr>"

lemma picky_prompt: "prompt_peer picky_sys fd (\<lambda>bs. bs)"
  using prompt_stream [of fd] by (simp add: prompt_peer_def stream_sys_def picky_sys_def)

lemma picky_accepting: "host \<noteq> ''no-such-host.invalid'' \<Longrightarrow> accepting picky_sys 3 (\<lambda>bs. bs) host waits"
  using accepting_stream [of host waits]
  by (auto simp: accepting_def setup_calls_def stream_sys_def picky_sys_def)

lemma failed_connects_can_be_retried_witness:
  "\<exists>s s'. api_run picky_sys (map (\<lambda>(sv, p). Api_connect sv p) [(Some ''no-such-host.invalid'', 80), (None, 80)])
        (socket_new (start (bytes_of ''ping'' @ [13, 10] @ bytes_of ''pong'' @ [13, 10])))
      = Some (map (\<lambda>t. Ret_bool False) [(Some ''no-such-host.invalid'', 80 :: int), (None, 80)], s)
    \<and> opens (so_world s) = closes (so_world s)
    \<and> api_run picky_sys (concat (map chat_calls ping_pong)) s = Some (concat (map chat_results ping_pong), s')
    \<and> opens (so_world s') = closes (so_world s')"
proof -
  let ?ts = "[(Some ''no-such-host.invalid'', 80 :: int), (None, 80)]"
  let ?e = "bytes_of ''ping'' @ [13, 10] @ bytes_of ''pong'' @ [13, 10]"
  obtain s where s: "api_run picky_sys (map (\<lambda>(sv, p). Api_connect sv p) ?ts) (socket_new (start ?e))
      = Some (map (\<lambda>t. Ret_bool False) ?ts, s)" "w_env (so_world s) = ?e"
    by (simp add: run picky_sys_def cong: bind_weak_cong)
  have nz: "socket_nonzero picky_sys" by (simp add: socket_nonzero_def picky_sys_def ans_def)
  have "resolver picky_sys (\<lambda>bs. bs) (\<lambda>h. [])" by (simp add: resolver_def)
  then have ok: "\<forall>c \<in> set ping_pong. chat_ok picky_sys 3 (\<lambda>bs. bs) c"
    by (simp add: ping_pong_def chat_ok_def reachable_host_def picky_prompt picky_accepting no_server_def host_of_def
        line_bytes_def plain_line_def bytes_of_def)
  have "w_env (so_world s) = concat (map (\<lambda>c. heard (ch_talk c)) ping_pong) @ []"
    using s(2) by (simp add: ping_pong_def line_bytes_def)
  from failed_connects_can_be_retried [OF s(1) ok nz this] s(1) show ?thesis by blast
qed

end
