(* ===== verification/Comm_SSH_Peer.thy ===== *)
theory Comm_SSH_Peer
  imports Comm_SSH
begin

text \<open>
  The TLS layer (src/src/socket\_comm\_ssh.cpp) with a peer that answers: the handshake succeeds, a send
  hands over all its bytes, a read of one byte returns the next byte or the end, with or without a timeout.
\<close>

subsection \<open>The peer\<close>

text \<open>What was handed to a session for encryption, in order.\<close>

fun sealed_of :: "int \<Rightarrow> syscall \<times> sysret \<Rightarrow> byte list" where
  "sealed_of ssl (Ssl_write ssl' bs, r) = (if ssl' = ssl then take (nat (sr_ret r)) bs else [])"
| "sealed_of ssl _ = []"

definition sealed :: "int \<Rightarrow> 'e world \<Rightarrow> byte list" where
  "sealed ssl w = concat (map (sealed_of ssl) (w_log w))"

lemma sealed_call: "call S k w = (r, w') \<Longrightarrow> sealed ssl w' = sealed ssl w @ sealed_of ssl (k, r)"
  by (simp add: sealed_def call_log)

lemma sealed_emits: 
  assumes "emits plain_call w w'"
  shows "sealed ssl w' = sealed ssl w"
proof -
  obtain l where l: "w_log w' = w_log w @ l" "\<forall>x \<in> set l. plain_call (fst x)"
    using assms by (auto simp: emits_def)
  have "sealed_of ssl x = []" if "x \<in> set l" for x
    proof (cases x)
    case (Pair k r)
    then show ?thesis using l(2) that by (cases k) auto
  qed
  then have "concat (map (sealed_of ssl) l) = []" by simp
  then show ?thesis using l(1) by (simp add: sealed_def)
qed

text \<open>
  A peer whose handshake succeeds (so, when it is verified, one with a certificate that passes): OpenSSL
  makes a context and a session, takes what is written, delivers the next byte of the peer's stream
  \<open>rx\<close> to a read of one byte, and at the end of the stream reports the close notification; the waits
  report the descriptor ready. \<open>tls_answer\<close> relates an answer to the stream before and after.
\<close>

fun tls_answer :: "int \<Rightarrow> int \<Rightarrow> syscall \<Rightarrow> sysret \<Rightarrow> byte list \<Rightarrow> byte list \<Rightarrow> bool" where
  "tls_answer ctx ssl Ssl_ctx_new r bs bs' = (sr_ret r = ctx \<and> bs' = bs)"
| "tls_answer ctx ssl (Ssl_ctx_default_verify_paths c) r bs bs' = (sr_ret r \<noteq> 0 \<and> bs' = bs)"
| "tls_answer ctx ssl (Ssl_new c) r bs bs' = (sr_ret r = ssl \<and> bs' = bs)"
| "tls_answer ctx ssl (Ssl_connect s) r bs bs' = (sr_ret r = 1 \<and> bs' = bs)"
| "tls_answer ctx ssl (Sys_select fd rd wr ex tv) r bs bs' = (0 < sr_ret r \<and> bs' = bs)"
| "tls_answer ctx ssl (Ssl_write s d) r bs bs' = (sr_ret r = int (length d) \<and> bs' = bs)"
| "tls_answer ctx ssl (Ssl_read s n) r bs bs' =
     (n = 1 \<longrightarrow> (case bs of [] \<Rightarrow> sr_ret r \<le> 0 \<and> bs' = []
       | b # cs \<Rightarrow> sr_ret r = 1 \<and> sr_bytes r = [b] \<and> bs' = cs))"
| "tls_answer ctx ssl (Ssl_get_error s rc) r bs bs' = ((bs = [] \<longrightarrow> sr_ret r = SSL_ERROR_ZERO_RETURN) \<and> bs' = bs)"
| "tls_answer ctx ssl k r bs bs' = (bs' = bs)"

definition tls_peer :: "'e sys \<Rightarrow> ('e \<Rightarrow> byte list) \<Rightarrow> int \<Rightarrow> int \<Rightarrow> bool" where
  "tls_peer S rx ctx ssl \<longleftrightarrow> ctx \<noteq> 0 \<and> ssl \<noteq> 0
     \<and> (\<forall>k e r e'. tls_call k \<longrightarrow> sys_step S k e = (r, e') \<longrightarrow> tls_answer ctx ssl k r (rx e) (rx e'))"

text \<open>
  A machine that spends at most \<open>tick\<close> nanoseconds in a call, and a timeout that leaves room for the
  two calls between the start of an operation and its look at the clock.
\<close>

definition brisk :: "'e sys \<Rightarrow> int \<Rightarrow> bool" where
  "brisk S tick \<longleftrightarrow> (\<exists>now. \<forall>k e r e'. tls_io k \<longrightarrow> sys_step S k e = (r, e') \<longrightarrow>
     now e \<le> now e' \<and> now e' \<le> now e + tick \<and> (k = Sys_clock \<longrightarrow> sr_val r = now e'))"

definition patient :: "int \<Rightarrow> int \<Rightarrow> int \<Rightarrow> bool" where
  "patient tick secs us \<longleftrightarrow> (0 < secs \<or> 0 < us \<longrightarrow> 2 * tick < secs * 1000000000 + us * 1000)"

text \<open>Nothing came in or went out, neither in the clear nor through the session.\<close>

definition hushed :: "('e \<Rightarrow> byte list) \<Rightarrow> int \<Rightarrow> int \<Rightarrow> 'e world \<Rightarrow> 'e world \<Rightarrow> bool" where
  "hushed rx fd ssl w w' \<longleftrightarrow> rx (w_env w') = rx (w_env w) \<and> wire fd w' = wire fd w \<and> sealed ssl w' = sealed ssl w"

lemma hushed_refl [simp]: "hushed rx fd ssl w w"
  by (simp add: hushed_def)

lemma hushed_trans [trans]: "hushed rx fd ssl w w' \<Longrightarrow> hushed rx fd ssl w' w'' \<Longrightarrow> hushed rx fd ssl w w''"
  by (simp add: hushed_def)

lemma tls_call_no_send: "tls_call k \<Longrightarrow> no_send k"
  by (cases k) auto

text \<open>The calls that neither read nor write the session.\<close>

fun aside :: "syscall \<Rightarrow> bool" where
  "aside (Ssl_read s n) = False"
| "aside (Ssl_write s d) = False"
| "aside k = True"

lemma peer_call:
  assumes "tls_peer S rx ctx ssl" "call S k w = (r, w')" "tls_call k"
  shows "tls_answer ctx ssl k r (rx (w_env w)) (rx (w_env w')) \<and> wire fd w' = wire fd w"
  using assms(1,3) call_env [OF assms(2)] wire_call [OF assms(2), of fd] no_send_wire_of [OF tls_call_no_send [OF assms(3)]]
  unfolding tls_peer_def by auto

lemma aside_call:
  assumes "tls_peer S rx ctx ssl" "call S k w = (r, w')" "tls_call k" "aside k"
  shows "hushed rx fd ssl' w w'"
proof -
  have "sealed_of ssl' (k, r) = []" using assms(4) by (cases k) auto
  moreover have "tls_answer ctx ssl k r bs bs' \<Longrightarrow> bs' = bs" for bs bs' using assms(4) by (cases k) auto
  ultimately show ?thesis
    using peer_call [OF assms(1-3), of fd] sealed_call [OF assms(2), of ssl'] by (simp add: hushed_def)
qed

lemma aside_back [frame_back]:
  "call S k w' = (r, w'') \<Longrightarrow> tls_peer S rx ctx ssl \<and> tls_call k \<and> aside k \<Longrightarrow> hushed rx fd ssl' w w' \<Longrightarrow> hushed rx fd ssl' w w''"
  using aside_call by (blast intro: hushed_trans)

subsection \<open>The layer\<close>

lemma nb_enter_peer:
  assumes "tls_peer S rx ctx ssl" "nb_enter S s w = (nb, w')"
  shows "hushed rx fd ssl' w w'"
  using assms by (auto simp: nb_enter_def frame_back split: prod.splits if_splits)

lemma nb_leave_peer: "tls_peer S rx ctx ssl \<Longrightarrow> hushed rx fd ssl' w (nb_leave S nb w)"
  by (auto simp: nb_leave_def frame_back split: prod.splits)

lemma deadline_after_peer:
  "tls_peer S rx ctx ssl \<Longrightarrow> deadline_after S c w = (d, w') \<Longrightarrow> hushed rx fd ssl' w w'"
  by (auto simp: deadline_after_def frame_back split: prod.splits)

lemma configure_peer:
  assumes "tls_peer S rx ctx ssl"
  shows "hushed rx fd ssl' w (ssh_configure S c w)"
proof -
  have s: "hushed rx fd ssl' w0 w1 \<Longrightarrow> tls_call k \<and> aside k \<Longrightarrow> hushed rx fd ssl' w0 (snd (call S k w1))" for k w0 w1
    using aside_call [OF assms, of k w1 _ _ fd ssl'] by (metis hushed_trans prod.collapse)
  show ?thesis by (simp add: ssh_configure_def Let_def s)
qed

lemma handshake_peer:
  assumes p: "tls_peer S rx ctx ssl"
  shows "\<exists>w'. ssh_handshake S c w = Some (True, c, w') \<and> hushed rx fd ssl' w w'"
proof -
  obtain nb w1 where 1: "nb_enter S (if has_timeout c then comm_sock c else - 1) w = (nb, w1)" by fastforce
  obtain d w2 where 2: "deadline_after S c w1 = (d, w2)" by fastforce
  obtain r w3 where 3: "call S (Ssl_connect (ssh_ssl c)) w2 = (r, w3)" by fastforce
  have "sr_ret r = 1" using peer_call [OF p 3] by simp
  then have "forever (ssh_handshake_turn S d) (c, w2) = Some (True, c, w3)"
    by (intro forever_unfold(1)) (simp add: ssh_handshake_turn_def 3)
  moreover have "hushed rx fd ssl' w w3"
    using nb_enter_peer [OF p 1, of fd ssl'] deadline_after_peer [OF p 2, of fd ssl'] aside_call [OF p 3, of fd ssl']
    by (simp add: hushed_def)
  ultimately show ?thesis
    using hushed_trans [OF _ nb_leave_peer [OF p]] by (auto simp: ssh_handshake_def 1 2)
qed

lemma virtualbind_peer:
  assumes p: "tls_peer S rx ctx ssl"
  shows "\<exists>w'. ssh_virtualbind S c w = Some (True, c\<lparr>ssh_ctx := ctx, ssh_ssl := ssl\<rparr>, w') \<and> hushed rx fd ssl' w w'"
proof -
  have nz: "ctx \<noteq> 0" "ssl \<noteq> 0" using p by (simp_all add: tls_peer_def)
  obtain r1 w1 where 1: "call S Ssl_ctx_new w = (r1, w1)" by fastforce
  obtain r2 w2 where 2: "call S (Ssl_ctx_default_verify_paths ctx) w1 = (r2, w2)" by fastforce
  define w2' where "w2' = (if ssh_verify c then w2 else w1)"
  obtain r3 w3 where 3: "call S (Ssl_new ctx) w2' = (r3, w3)" by fastforce
  let ?c = "c\<lparr>ssh_ctx := ctx, ssh_ssl := ssl\<rparr>"
  have r: "sr_ret r1 = ctx" "sr_ret r2 \<noteq> 0" "sr_ret r3 = ssl"
    using peer_call [OF p 1] peer_call [OF p 2] peer_call [OF p 3] by simp_all
  obtain w4 where 4: "ssh_handshake S ?c (ssh_configure S ?c w3) = Some (True, ?c, w4)"
    "hushed rx fd ssl' (ssh_configure S ?c w3) w4" using handshake_peer [OF p] by blast
  have "ssh_virtualbind S c w = Some (True, ?c, w4)"
    using r nz 3 4(1) by (simp add: ssh_virtualbind_def 1 2 w2'_def split: if_splits)
  moreover have "hushed rx fd ssl' w w4"
    using aside_call [OF p 1, of fd ssl'] aside_call [OF p 2, of fd ssl'] aside_call [OF p 3, of fd ssl']
      configure_peer [OF p, of fd ssl' w3 ?c] 4(2)
    by (simp add: hushed_def w2'_def split: if_splits)
  ultimately show ?thesis by blast
qed

text \<open>A timed operation still has time after one look at the clock and one other call.\<close>

lemma remaining_brisk:
  assumes b: "brisk S tick" "patient tick (comm_tsecs c) (comm_tmicro c)" "has_timeout c" and d: "deadline_after S c w = (deadline, w1)"
    and s: "w2 = w1 \<or> tls_io k \<and> call S k w1 = (r, w2)"
  shows "\<exists>tv w3. remainingUntil S deadline w2 = (Some tv, w3)"
proof -
  obtain now where now: "\<And>k e r e'. tls_io k \<Longrightarrow> sys_step S k e = (r, e') \<Longrightarrow>
      now e \<le> now e' \<and> now e' \<le> now e + tick \<and> (k = Sys_clock \<longrightarrow> sr_val r = now e')"
    using b(1) unfolding brisk_def by blast
  obtain q where 1: "call S Sys_clock w = (q, w1)" "deadline = sr_val q + comm_tsecs c * 1000000000 + comm_tmicro c * 1000"
    using d by (auto simp: deadline_after_def split: prod.splits)
  obtain p w3 where 3: "call S Sys_clock w2 = (p, w3)" by fastforce
  have "sr_val q = now (w_env w1)" using now [OF _ call_env [OF 1(1)]] by simp
  moreover have "now (w_env w2) \<le> now (w_env w1) + tick" 
    using s now [of k "w_env w1" r "w_env w2"] call_env [of S k w1 r w2] now [OF _ call_env [OF 1(1)]] by fastforce
  moreover have "sr_val p \<le> now (w_env w2) + tick" using now [OF _ call_env [OF 3]] by simp
  ultimately have "\<not> deadline - sr_val p \<le> 0" using b(2,3) 1(2) by (auto simp: patient_def has_timeout_def)
  then show ?thesis by (simp add: remainingUntil_def 3 Let_def)
qed

lemma remaining_peer:
  "tls_peer S rx ctx ssl \<Longrightarrow> remainingUntil S d w = (tv, w') \<Longrightarrow> hushed rx fd ssl' w w'"
  by (auto simp: remainingUntil_def Let_def frame_back split: prod.splits if_splits)

lemma send_wait_peer:
  assumes p: "tls_peer S rx ctx ssl" and b: "brisk S tick" "patient tick (comm_tsecs c) (comm_tmicro c)" "has_timeout c"
    and d: "deadline_after S c w = (deadline, w1)"
  shows "\<exists>w'. ssh_send_wait S deadline wr c w1 = (False, c, w') \<and> hushed rx fd ssl' w1 w'"
proof -
  obtain tv w2 where 2: "remainingUntil S deadline w1 = (Some tv, w2)"
    using remaining_brisk [OF b d] by blast
  obtain r w3 where 3: "call S (Sys_select (comm_sock c) wr True False (Some tv)) w2 = (r, w3)" by fastforce
  show ?thesis
    using peer_call [OF p 3, of fd] remaining_peer [OF p 2, of fd ssl'] aside_call [OF p 3, of fd ssl']
    by (auto simp: ssh_send_wait_def 2 3 hushed_def)
qed

lemma read_wait_peer:
  assumes p: "tls_peer S rx ctx ssl" and b: "brisk S tick" "patient tick (comm_tsecs c) (comm_tmicro c)" "has_timeout c"
    and d: "deadline_after S c w = (deadline, w1)" and k: "call S (Ssl_pending s) w1 = (q, w2)"
  shows "\<exists>w'. ssh_read_wait S deadline wr c w2 = (False, c, w') \<and> hushed rx fd ssl' w2 w'"
proof -
  obtain tv w3 where 2: "remainingUntil S deadline w2 = (Some tv, w3)"
    using remaining_brisk [OF b d, of w2 "Ssl_pending s" q] k by auto
  obtain r w4 where 3: "call S (Sys_select (comm_sock c) True wr False (Some tv)) w3 = (r, w4)" by fastforce
  show ?thesis
    using peer_call [OF p 3, of fd] remaining_peer [OF p 2, of fd ssl'] aside_call [OF p 3, of fd ssl']
    by (auto simp: ssh_read_wait_def 2 3 hushed_def)
qed

text \<open>A layer in the middle of a session.\<close>

definition session_up :: "'e sys \<Rightarrow> ('e \<Rightarrow> byte list) \<Rightarrow> int \<Rightarrow> int \<Rightarrow> ssh_comm \<Rightarrow> bool" where
  "session_up S rx ssl fd c \<longleftrightarrow> comm_sock c = fd \<and> fd \<noteq> 0 \<and> ssh_ssl c = ssl
     \<and> (\<exists>ctx. tls_peer S rx ctx ssl) \<and> (\<exists>tick. brisk S tick \<and> patient tick (comm_tsecs c) (comm_tmicro c))"

lemma ssh_send_peer:
  assumes up: "session_up S rx ssl fd c" and d: "d \<noteq> []"
  shows "\<exists>w'. ssh_send S c d w = Some (int (length d), c, w') \<and> rx (w_env w') = rx (w_env w)
    \<and> wire fd w' = wire fd w \<and> sealed ssl w' = sealed ssl w @ d"
proof -
  obtain ctx tick where p: "tls_peer S rx ctx ssl" and b: "brisk S tick" "patient tick (comm_tsecs c) (comm_tmicro c)"
    and c: "comm_sock c = fd" "fd \<noteq> 0" "ssh_ssl c = ssl" using up by (auto simp: session_up_def)
  obtain nb w1 where 1: "nb_enter S (if has_timeout c then comm_sock c else - 1) w = (nb, w1)" by fastforce
  obtain dl w2 where 2: "deadline_after S c w1 = (dl, w2)" by fastforce
  obtain w3 where 3: "(if has_timeout c then ssh_send_wait S dl False c w2 else (False, c, w2)) = (False, c, w3)"
    "hushed rx fd ssl w2 w3" using send_wait_peer [OF p b _ 2, of False fd ssl] by (cases "has_timeout c") auto
  obtain r w4 where 4: "call S (Ssl_write ssl d) w3 = (r, w4)" by fastforce
  have r: "sr_ret r = int (length d)" "rx (w_env w4) = rx (w_env w3)" "wire fd w4 = wire fd w3"
    "sealed ssl w4 = sealed ssl w3 @ d"
    using peer_call [OF p 4, of fd] sealed_call [OF 4, of ssl] by simp_all
  have "forever (ssh_send_turn S d dl) (False, c, w2) = Some (int (length d), c, w4)"
    by (rule forever_unfold(1)) (simp add: ssh_send_turn_def 3(1) 4 c(3) r(1) d)
  moreover have "ssl \<noteq> 0" using p by (simp add: tls_peer_def)
  ultimately have "ssh_send S c d w = Some (int (length d), c, nb_leave S nb w4)"
    using c 1 2 by (simp add: ssh_send_def base_send_def ssh_virtualsend_def)
  moreover have "hushed rx fd ssl w w3"
    using nb_enter_peer [OF p 1, of fd ssl] deadline_after_peer [OF p 2, of fd ssl] 3(2) by (simp add: hushed_def)
  ultimately show ?thesis using r nb_leave_peer [OF p, of fd ssl w4 nb] by (simp add: hushed_def)
qed

lemma ssh_read_peer:
  assumes up: "session_up S rx ssl fd c"
  shows "\<exists>rc bs c' w'. ssh_read S c 1 w = Some (rc, bs, c', w') \<and> session_up S rx ssl fd c'
    \<and> wire fd w' = wire fd w \<and> sealed ssl w' = sealed ssl w
    \<and> (case rx (w_env w) of [] \<Rightarrow> rc = 0 \<and> rx (w_env w') = []
       | x # xs \<Rightarrow> rc = 1 \<and> bs = [x] \<and> rx (w_env w') = xs)"
proof -
  obtain ctx tick where p: "tls_peer S rx ctx ssl" and b: "brisk S tick" "patient tick (comm_tsecs c) (comm_tmicro c)"
    and c: "comm_sock c = fd" "fd \<noteq> 0" "ssh_ssl c = ssl" using up by (auto simp: session_up_def)
  obtain nb w1 where 1: "nb_enter S (if has_timeout c then comm_sock c else - 1) w = (nb, w1)" by fastforce
  obtain dl w2 where 2: "deadline_after S c w1 = (dl, w2)" by fastforce
  obtain q w3 where 3: "call S (Ssl_pending ssl) w2 = (q, w3)" by fastforce
  obtain w4 where 4: "(if sr_ret q \<le> 0 \<and> has_timeout c then ssh_read_wait S dl False c w3 else (False, c, w3)) = (False, c, w4)"
    "hushed rx fd ssl w3 w4" using read_wait_peer [OF p b _ 2 3, of False fd ssl] by (cases "sr_ret q \<le> 0 \<and> has_timeout c") auto
  obtain r w5 where 5: "call S (Ssl_read ssl 1) w4 = (r, w5)" by fastforce
  have h: "hushed rx fd ssl w w4"
    using nb_enter_peer [OF p 1, of fd ssl] deadline_after_peer [OF p 2, of fd ssl] aside_call [OF p 3, of fd ssl] 4(2)
    by (simp add: hushed_def)
  have e: "rx (w_env w4) = rx (w_env w)" using h by (simp add: hushed_def)
  have w5: "wire fd w5 = wire fd w4" "sealed ssl w5 = sealed ssl w4"
    "case rx (w_env w) of [] \<Rightarrow> sr_ret r \<le> 0 \<and> rx (w_env w5) = []
       | x # xs \<Rightarrow> sr_ret r = 1 \<and> sr_bytes r = [x] \<and> rx (w_env w5) = xs"
    using peer_call [OF p 5, of fd] sealed_call [OF 5, of ssl] by (simp_all add: e)
  have nz: "ssl \<noteq> 0" using p by (simp add: tls_peer_def)
  have whole: "ssh_read S c 1 w = Some (rc, bs, c', nb_leave S nb w')"
    if "ssh_read_turn S 1 dl (False, c, w2) = Some (Inl (rc, bs, c', w'))" for rc bs c' w'
    using c nz 1 2 forever_unfold(1) [of "ssh_read_turn S 1 dl", OF that] by (simp add: ssh_read_def base_read_def ssh_virtualread_def)
  have leave: "hushed rx fd ssl w' (nb_leave S nb w')" for w' by (rule nb_leave_peer [OF p])
  show ?thesis
  proof (cases "rx (w_env w)")
    case (Cons x xs)
    then have "ssh_read_turn S 1 dl (False, c, w2) = Some (Inl (1, [x], c, w5))"
      using w5(3) by (simp add: ssh_read_turn_def 3 4(1) 5 c(3))
    from whole [OF this] show ?thesis
      using Cons up h w5 leave [of w5] by (auto simp: hushed_def)
  next
    case Nil
    obtain t w6 where 6: "call S (Ssl_get_error ssl (sr_ret r)) w5 = (t, w6)" by fastforce
    have t: "sr_ret t = SSL_ERROR_ZERO_RETURN" "hushed rx fd ssl w5 w6"
      using peer_call [OF p 6, of fd] aside_call [OF p 6, of fd ssl] Nil w5(3) by simp_all
    let ?c = "comm_setError ''Socket_Comm_SSH virtualread - peer terminated'' c"
    have "ssh_read_turn S 1 dl (False, c, w2) = Some (Inl (0, [], ?c, w6))"
      using Nil w5(3) t(1) by (simp add: ssh_read_turn_def 3 4(1) 5 6 c(3) want_io_def platform_defs)
    moreover have "session_up S rx ssl fd ?c"
      using p b c unfolding session_up_def patient_def has_timeout_def comm_setError_def by auto
    ultimately show ?thesis
      using whole Nil h w5 t(2) leave [of w6] by (auto simp: hushed_def)
  qed
qed

end
