(* ===== verification/Socket_Secure.thy ===== *)
theory Socket_Secure
  imports Socket_Session Socket_Calls TCPClient_Session Comm_SSH_Peer
begin

text \<open>
  Sessions over TLS (src/src/socket\_tcpclient.cpp, rude\_socketimpl.cpp): the client and the class over a
  secure layer whose peer answers, opened by \<open>connectSSL\<close> or upgraded by \<open>startSSL\<close> as in
  tests/test\_ssl\_upgrade.cpp.
\<close>

subsection \<open>The client\<close>

definition tcp_secret :: "'e sys \<Rightarrow> ('e \<Rightarrow> byte list) \<Rightarrow> int \<Rightarrow> int \<Rightarrow> tcp \<Rightarrow> bool" where
  "tcp_secret S rx ssl fd t \<longleftrightarrow> (\<exists>c. tcp_comm t = Some (SSH_Comm c) \<and> session_up S rx ssl fd c)"

lemma tcp_secret_fields [simp]:
  "tcp_secret S rx ssl fd (t\<lparr>tcp_readbuffer := b\<rparr>) = tcp_secret S rx ssl fd t"
  "tcp_secret S rx ssl fd (tcp_setError e t) = tcp_secret S rx ssl fd t"
  by (simp_all add: tcp_secret_def tcp_setError_def)

lemma tcp_read_one_secret:
  assumes "tcp_secret S rx ssl fd t"
  shows "\<exists>c t' w'. tcp_read_one S (t, w) = Some (if rx (w_env w) = [] then 0 else 1, c, t', w')
    \<and> tcp_secret S rx ssl fd t' \<and> wire fd w' = wire fd w \<and> sealed ssl w' = sealed ssl w
    \<and> (rx (w_env w) = [] \<longrightarrow> rx (w_env w') = [])
    \<and> (\<forall>x xs. rx (w_env w) = x # xs \<longrightarrow> c = x \<and> rx (w_env w') = xs)"
proof -
  obtain c where c: "tcp_comm t = Some (SSH_Comm c)" "session_up S rx ssl fd c"
    using assms by (auto simp: tcp_secret_def)
  from ssh_read_peer [OF c(2), of w] obtain rc bs c' w' where
    "ssh_read S c 1 w = Some (rc, bs, c', w')" "session_up S rx ssl fd c'"
    "wire fd w' = wire fd w" "sealed ssl w' = sealed ssl w"
    "case rx (w_env w) of [] \<Rightarrow> rc = 0 \<and> rx (w_env w') = []
       | x # xs \<Rightarrow> rc = 1 \<and> bs = [x] \<and> rx (w_env w') = xs" by blast
  then show ?thesis
    using c(1) by (cases "rx (w_env w)")
      (auto simp: tcp_read_one_def tcp_read_def first_byte_def tcp_secret_def tcp_setError_def Let_def)
qed

interpretation secret_stream: byte_source "tcp_read_one S"
  "\<lambda>(t, w). tcp_secret S rx ssl fd t \<and> wire fd w = p \<and> sealed ssl w = q" "\<lambda>(t, w). rx (w_env w)" for S rx ssl fd p q
proof (unfold_locales, goal_cases)
  case (1 s b bs)
  then show ?case using tcp_read_one_secret [of S rx ssl fd "fst s" "snd s"] by (auto split: prod.splits)
next
  case (2 s)
  then show ?case using tcp_read_one_secret [of S rx ssl fd "fst s" "snd s"] by (auto split: prod.splits)
qed

lemma tcp_readline_secret:
  assumes "tcp_secret S rx ssl fd t" "plain_line l" "rx (w_env w) = line_bytes l @ rest"
  shows "\<exists>t' w'. tcp_readline S t w = Some (Some l, t', w') \<and> tcp_secret S rx ssl fd t' \<and> rx (w_env w') = rest
    \<and> wire fd w' = wire fd w \<and> sealed ssl w' = sealed ssl w"
proof -
  have l: "CR \<notin> set l" "LF \<notin> set l" "0 \<notin> set l" using assms(2) by (auto simp: plain_line_def)
  have "rx (w_env w) = l @ CR # LF # rest" using assms(3) by (simp add: line_bytes_def)
  moreover have "scan_line [] 0 (l @ CR # LF # rest) = (l, rest, True)"
    using scan_line_crlf [OF l(3) no_crlf_zero [OF no_crlf_text [OF l(1)]], of "[]" rest] line_text_id [OF l(1,2)] by simp
  ultimately show ?thesis
    using secret_stream.readline_loop [of S rx ssl fd "wire fd w" "sealed ssl w" "(t\<lparr>tcp_readbuffer := []\<rparr>, w)" "[]" 0]
      assms(1) l(3) by (auto simp: tcp_readline_def c_str_id)
qed

lemma tcp_sends_secret:
  assumes "tcp_secret S rx ssl fd t" "d \<noteq> []" "length d < 2 ^ 31"
  shows "\<exists>t' w'. tcp_sends S t (Some d) w = Some (True, t', w') \<and> tcp_secret S rx ssl fd t' \<and> rx (w_env w') = rx (w_env w)
    \<and> wire fd w' = wire fd w \<and> sealed ssl w' = sealed ssl w @ d"
proof -
  obtain c where c: "tcp_comm t = Some (SSH_Comm c)" "session_up S rx ssl fd c"
    using assms(1) by (auto simp: tcp_secret_def)
  from ssh_send_peer [OF c(2) assms(2), of w] show ?thesis
    using c assms(2,3) by (auto simp: tcp_sends_def c_slice_id int32_id tcp_secret_def Let_def)
qed

lemma tcp_startSSL_secret:
  assumes p: "tls_peer S rx ctx ssl" and b: "brisk S tick" "patient tick (tcp_tsecs t) (tcp_tmilli t)"
    and t: "tcp_linked S rx fd t" "tcp_sock t = fd" and o: "using_openssl (sys_build S)"
  shows "\<exists>t' w'. tcp_startSSL S t h v w = Some (True, t', w') \<and> tcp_secret S rx ssl fd t' \<and> tcp_sock t' = fd
    \<and> hushed rx fd ssl w w'"
proof -
  obtain c where c: "tcp_comm t = Some (Normal_Comm c)" "comm_sock c \<noteq> 0" "fd \<noteq> 0"
    using t(1) by (auto simp: tcp_linked_def linked_def)
  have eq: "tcp_startSSL S t h v w = Option.bind (ssh_virtualbind S (ssl_layer t h v) w) (\<lambda>(bound, c1, w1).
      if bound then Some (True, t\<lparr>tcp_comm := Some (SSH_Comm c1)\<rparr>, w1)
      else (let (t, w) = closeDescriptor S (tcp_setError (comm_error c1) (t\<lparr>tcp_comm := Some (SSH_Comm c1)\<rparr>)) w1
            in Some (False, t, w)))"
    using c t(2) by (intro startSSL_eq [OF o _ c(1)]) simp_all
  obtain w' where w': "ssh_virtualbind S (ssl_layer t h v) w = Some (True, (ssl_layer t h v)\<lparr>ssh_ctx := ctx, ssh_ssl := ssl\<rparr>, w')"
    "hushed rx fd ssl w w'" using virtualbind_peer [OF p] by blast
  have "session_up S rx ssl fd ((ssl_layer t h v)\<lparr>ssh_ctx := ctx, ssh_ssl := ssl\<rparr>)"
    using p b c(3) t(2) unfolding session_up_def by auto
  then show ?thesis using w' t(2) by (simp add: eq tcp_secret_def)
qed

lemma tcp_close_secret:
  assumes up: "tcp_secret S rx ssl fd t" "tcp_sock t = fd" and acc: "accepting S fd rx host waits"
  shows "\<exists>t' w'. tcp_close S t w = Some (True, t', w') \<and> tcp_sock t' = 0 \<and> hushed rx fd ssl w w'"
proof -
  obtain c ctx where c: "tcp_comm t = Some (SSH_Comm c)" "comm_sock c = fd" "fd \<noteq> 0" "ssh_ssl c = ssl" "tls_peer S rx ctx ssl"
    using up(1) by (auto simp: tcp_secret_def session_up_def)
  have f: "hushed rx fd ssl w0 w1" if "ssh_virtualfinish S c0 w0 = (ok, c1, w1)" for c0 w0 ok c1 w1
    using that c(5) by (auto simp: ssh_virtualfinish_def Let_def frame_back split: prod.splits if_splits)
  have "fst (ssh_virtualfinish S (c\<lparr>comm_sock := 0\<rparr>) w)"
    unfolding ssh_virtualfinish_def Let_def by (simp split: prod.split)
  then obtain c1 w1 where 1: "ssh_virtualfinish S (c\<lparr>comm_sock := 0\<rparr>) w = (True, c1, w1)"
    by (cases "ssh_virtualfinish S (c\<lparr>comm_sock := 0\<rparr>) w") auto
  obtain r2 w2 where 2: "call S (Sys_shutdown fd) w1 = (r2, w2)" by fastforce
  obtain r3 w3 where 3: "call S (Sys_close fd) w2 = (r3, w3)" by fastforce
  have "sealed ssl w3 = sealed ssl w1" using sealed_call [OF 2, of ssl] sealed_call [OF 3, of ssl] by simp
  then show ?thesis
    using c(1-3) up(2) f [OF 1] accepting_call [OF acc 2] accepting_call [OF acc 3]
    by (auto simp: tcp_close_def ssh_finish_def base_finish_def 1 2 3 closeDescriptor_def hushed_def quiet_def Let_def)
qed

subsection \<open>The class\<close>

definition socket_secret :: "'e sys \<Rightarrow> ('e \<Rightarrow> byte list) \<Rightarrow> int \<Rightarrow> int \<Rightarrow> 'e socket \<Rightarrow> bool" where
  "socket_secret S rx ssl fd s \<longleftrightarrow> tcp_secret S rx ssl fd (im_tcp (so_impl s))"

lemma secret_sends_line:
  assumes "socket_secret S rx ssl fd s \<and> wire fd (so_world s) = p" "length (line_bytes l) < 2 ^ 31"
  shows "\<exists>s'. api_step S (Api_sends (Some (line_bytes l))) s = Some (Ret_bool True, s')
    \<and> (socket_secret S rx ssl fd s' \<and> wire fd (so_world s') = p)
    \<and> rx (w_env (so_world s')) = rx (w_env (so_world s)) \<and> sealed ssl (so_world s') = sealed ssl (so_world s) @ line_bytes l"
proof -
  have "line_bytes l \<noteq> []" by (simp add: line_bytes_def)
  from tcp_sends_secret [OF _ this assms(2), of S rx ssl fd "im_tcp (so_impl s)" "so_world s"] assms(1)
  show ?thesis by (auto simp: ret_iw_def impl_sends_def socket_secret_def)
qed

lemma secret_reads_line:
  assumes "socket_secret S rx ssl fd s \<and> wire fd (so_world s) = p" "plain_line l"
    and "rx (w_env (so_world s)) = line_bytes l @ rest"
  shows "\<exists>s'. api_step S Api_readline s = Some (Ret_text (Some l), s')
    \<and> (socket_secret S rx ssl fd s' \<and> wire fd (so_world s') = p)
    \<and> rx (w_env (so_world s')) = rest \<and> sealed ssl (so_world s') = sealed ssl (so_world s)"
  using tcp_readline_secret [where rx = rx and S = S and ssl = ssl and fd = fd and t = "im_tcp (so_impl s)" and w = "so_world s", OF _ assms(2,3)] assms(1)
  by (auto simp: ret_iw_def impl_readline_def socket_secret_def)

interpretation secret_lines: line_channel S "\<lambda>s. socket_secret S rx ssl fd s \<and> wire fd (so_world s) = p"
  "\<lambda>s. rx (w_env (so_world s))" "\<lambda>s. sealed ssl (so_world s)" for S rx ssl fd p
  by (unfold_locales; rule secret_sends_line secret_reads_line; simp)

text \<open>A plain layer seals nothing.\<close>

interpretation plain_layer: io_layer "\<lambda>c. \<not> isSecure c" plain_call S for S
proof (unfold_locales, goal_cases)
  case (1 c d w rc c' w')
  then show ?case
    by (cases c) (auto split: bind_splits dest!: normal_ops_emits(3) [OF _ emits_refl] intro: emits_plain_io(1))
next
  case (2 c n w rc bs c' w')
  then show ?case
    by (cases c) (auto split: bind_splits dest!: normal_ops_emits(4) [OF _ emits_refl] intro: emits_plain_io(1))
next
  case (3 c n m)
  then show ?case by (cases c) simp_all
qed

lemma plain_dialogue_sealed:
  assumes run: "api_run S (map turn_call talk) s = Some (rs, s')" and l: "socket_linked S rx fd s"
  shows "sealed ssl (so_world s') = sealed ssl (so_world s)"
proof -
  have "plain_layer.client_frame (so_world s) (im_tcp (so_impl s')) (so_world s')"
  proof (rule api_run_keeps [where I = "\<lambda>s'. plain_layer.client_frame (so_world s) (im_tcp (so_impl s')) (so_world s')", OF run])
    fix a s1 r s2
    assume "a \<in> set (map turn_call talk)" and st: "api_step S a s1 = Some (r, s2)"
      and i: "plain_layer.client_frame (so_world s) (im_tcp (so_impl s1)) (so_world s1)"
    then have "same_layer a" using turn_calls_talk by fastforce
    then show "plain_layer.client_frame (so_world s) (im_tcp (so_impl s2)) (so_world s2)"
      using plain_layer.client_quiet [OF st _ i] by blast
  next
    show "plain_layer.client_frame (so_world s) (im_tcp (so_impl s)) (so_world s)"
      using l by (auto simp: plain_layer.client_frame_def socket_linked_def tcp_linked_def)
  qed
  then show ?thesis by (simp add: plain_layer.client_frame_def sealed_emits)
qed

lemma startSSL_step:
  assumes p: "tls_peer S rx ctx ssl" and b: "brisk S tick" "patient tick (tcp_tsecs (im_tcp (so_impl s))) (tcp_tmilli (im_tcp (so_impl s)))"
    and t: "socket_linked S rx fd s" "tcp_sock (im_tcp (so_impl s)) = fd" and o: "using_openssl (sys_build S)"
  shows "\<exists>s'. api_step S Api_startSSL s = Some (Ret_bool True, s') \<and> socket_secret S rx ssl fd s'
    \<and> tcp_sock (im_tcp (so_impl s')) = fd \<and> hushed rx fd ssl (so_world s) (so_world s')"
  using tcp_startSSL_secret [OF p b t(1) [unfolded socket_linked_def] t(2) o, of "Some (im_lastserver (so_impl s))"
      "im_sslverify (so_impl s)" "so_world s"] o
  by (auto simp: ret_iw_def impl_startSSL_def socket_secret_def Let_def)

lemma close_secret:
  assumes "socket_secret S rx ssl fd s" "tcp_sock (im_tcp (so_impl s)) = fd" "accepting S fd rx host waits"
  shows "\<exists>s'. api_step S Api_close s = Some (Ret_bool True, s') \<and> tcp_sock (im_tcp (so_impl s')) = 0
    \<and> hushed rx fd ssl (so_world s) (so_world s')"
  using tcp_close_secret [OF assms(1) [unfolded socket_secret_def] assms(2,3), of "so_world s"]
  by (auto simp: ret_iw_def impl_close_def)

text \<open>\<open>connectSSL\<close> over a chain: the proxies are spoken to in the clear, then the session is set up.\<close>

lemma ready_connectsSSL:
  assumes ready: "ready s xs" and t: "itinerary xs server port = t # ts"
    and host: "reachable_host S fd rx ip t (tcp_tsecs (im_tcp (so_impl s))) (tcp_tmilli (im_tcp (so_impl s)))"
    and talk: "chain_talk ip xs ts sent got" and rx: "rx (w_env (so_world s)) = got @ rest"
    and p: "tls_peer S rx ctx ssl" and b: "brisk S tick" "patient tick (tcp_tsecs (im_tcp (so_impl s))) (tcp_tmilli (im_tcp (so_impl s)))"
    and o: "using_openssl (sys_build S)"
  shows "\<exists>s'. api_step S (Api_connectSSL server port) s = Some (Ret_bool True, s') \<and> socket_secret S rx ssl fd s'
    \<and> tcp_sock (im_tcp (so_impl s')) = fd \<and> rx (w_env (so_world s')) = rest
    \<and> wire fd (so_world s') = wire fd (so_world s) @ sent \<and> sealed ssl (so_world s') = sealed ssl (so_world s)"
proof -
  let ?i = "so_impl s"
  from ready_dials [OF ready t host talk rx] obtain t0 h w where
    d: "impl_connect_with S comm (?i\<lparr>im_sslerror := [], im_lastserver := host_of server\<rparr>) server port (so_heap s) (so_world s)
      = Option.bind (obj_bind S fd (obj_setTimeout (tcp_tsecs (im_tcp ?i)) (tcp_tmilli (im_tcp ?i)) comm) w)
          (\<lambda>(bound, c, w). let t = t0\<lparr>tcp_comm := Some c\<rparr>
             in Some (bound, ?i\<lparr>im_sslerror := [], im_lastserver := host_of server,
                  im_tcp := if bound then t else tcp_setError (obj_getError c) t\<rparr>, h, w))"
      "tcp_sock t0 = fd" "rx (w_env w) = rest" "wire fd w = wire fd (so_world s) @ sent" "emits plain_call (so_world s) w" for comm
    by auto
  have fd: "fd \<noteq> 0" using host by (simp add: reachable_host_def)
  define c where "c = (comm_setTimeout (tcp_tsecs (im_tcp ?i)) (tcp_tmilli (im_tcp ?i))
      (ssh_setVerifyPeer (im_sslverify ?i) (ssh_setHostname server ssh_new)))\<lparr>comm_sock := fd\<rparr>"
  obtain w' where w': "ssh_virtualbind S c w = Some (True, c\<lparr>ssh_ctx := ctx, ssh_ssl := ssl\<rparr>, w')" "hushed rx fd ssl w w'"
    using virtualbind_peer [OF p] by blast
  have "comm_sock (ssh_setVerifyPeer (im_sslverify ?i) (ssh_setHostname server ssh_new)) = 0"
    by (simp add: ssh_setVerifyPeer_def ssh_setHostname_def ssh_new_def comm_new_def comm.defs ssh_comm.defs)
  then have bind: "ssh_bind S fd (comm_setTimeout (tcp_tsecs (im_tcp ?i)) (tcp_tmilli (im_tcp ?i))
      (ssh_setVerifyPeer (im_sslverify ?i) (ssh_setHostname server ssh_new))) w = Some (True, c\<lparr>ssh_ctx := ctx, ssh_ssl := ssl\<rparr>, w')"
    using fd w'(1) by (simp add: ssh_bind_def base_bind_def c_def)
  have "session_up S rx ssl fd (c\<lparr>ssh_ctx := ctx, ssh_ssl := ssl\<rparr>)"
    using p b fd unfolding session_up_def by (auto simp: c_def)
  then show ?thesis
    using d(2-4) bind w'(2) sealed_emits [OF d(5), of ssl] o
    by (simp add: ret_ihw_def impl_connectSSL_def d(1) socket_secret_def tcp_secret_def hushed_def Let_def)
qed

subsection \<open>A secure session\<close>

text \<open>
  Two ways to open it: \<open>connectSSL\<close> at once, or \<open>connect\<close>, a dialogue in the clear (the greeting and the
  STARTTLS command of a mail server, say) and \<open>startSSL\<close>.
\<close>

datatype secure_start = At_once | After "turn list"

fun start_calls :: "string option \<Rightarrow> int \<Rightarrow> secure_start \<Rightarrow> api list" where
  "start_calls server port At_once = [Api_connectSSL server port]"
| "start_calls server port (After talk) = [Api_connect server port] @ map turn_call talk @ [Api_startSSL]"

fun start_results :: "secure_start \<Rightarrow> api_result list" where
  "start_results At_once = [Ret_bool True]"
| "start_results (After talk) = [Ret_bool True] @ map turn_result talk @ [Ret_bool True]"

fun in_clear :: "secure_start \<Rightarrow> turn list" where
  "in_clear At_once = []"
| "in_clear (After talk) = talk"

lemma secret_from_ready:
  assumes ready: "ready s xs" and t: "itinerary xs server port = t # ts"
    and host: "reachable_host S fd rx ip t (tcp_tsecs (im_tcp (so_impl s))) (tcp_tmilli (im_tcp (so_impl s)))"
    and hops: "chain_talk ip xs ts sent got" and talk: "\<forall>u \<in> set (in_clear how). turn_ok u"
    and rx: "rx (w_env (so_world s)) = got @ heard (in_clear how) @ rest"
    and p: "tls_peer S rx ctx ssl" and b: "brisk S tick" "patient tick (tcp_tsecs (im_tcp (so_impl s))) (tcp_tmilli (im_tcp (so_impl s)))"
    and o: "using_openssl (sys_build S)"
  shows "\<exists>s'. api_run S (start_calls server port how) s = Some (start_results how, s')
    \<and> socket_secret S rx ssl fd s' \<and> tcp_sock (im_tcp (so_impl s')) = fd \<and> socket_inv no_others {#} s'
    \<and> rx (w_env (so_world s')) = rest \<and> wire fd (so_world s') = wire fd (so_world s) @ sent @ said (in_clear how)
    \<and> sealed ssl (so_world s') = sealed ssl (so_world s)"
proof -
  have inv: "socket_inv no_others {#} s" "tcp_sock (im_tcp (so_impl s)) = 0" using ready by (simp_all add: ready_def)
  have nz: "socket_nonzero S" using host accepting_nonzero by (auto simp: reachable_host_def)
  show ?thesis
  proof (cases how)
    case At_once
    then have rx: "rx (w_env (so_world s)) = got @ rest" using rx by simp
    from ready_connectsSSL [OF ready t host hops rx p b o] obtain s1 where
      1: "api_step S (Api_connectSSL server port) s = Some (Ret_bool True, s1)" "socket_secret S rx ssl fd s1"
        "tcp_sock (im_tcp (so_impl s1)) = fd" "rx (w_env (so_world s1)) = rest"
        "wire fd (so_world s1) = wire fd (so_world s) @ sent" "sealed ssl (so_world s1) = sealed ssl (so_world s)" by blast
    have "socket_inv no_others {#} s1" using api_step_inv [OF 1(1) inv(1)] inv(2) nz by blast
    then show ?thesis using At_once api_run_one [OF 1(1)] 1(2-) by simp
  next
    case (After talk)
    then have rx: "rx (w_env (so_world s)) = got @ heard talk @ rest" and ok: "\<forall>u \<in> set talk. turn_ok u"
      using rx talk by simp_all
    from ready_connects [OF ready t host hops rx] obtain s1 where
      1: "api_step S (Api_connect server port) s = Some (Ret_bool True, s1)" "socket_linked S rx fd s1"
        "tcp_sock (im_tcp (so_impl s1)) = fd" "tcp_tsecs (im_tcp (so_impl s1)) = tcp_tsecs (im_tcp (so_impl s))"
        "tcp_tmilli (im_tcp (so_impl s1)) = tcp_tmilli (im_tcp (so_impl s))" "rx (w_env (so_world s1)) = heard talk @ rest"
        "wire fd (so_world s1) = wire fd (so_world s) @ sent" "emits plain_call (so_world s) (so_world s1)" by blast
    have inv1: "socket_inv no_others {#} s1" using api_step_inv [OF 1(1) inv(1)] inv(2) nz by blast
    obtain s2 where 2: "api_run S (map turn_call talk) s1 = Some (map turn_result talk, s2)" "socket_linked S rx fd s2"
        "rx (w_env (so_world s2)) = rest" "wire fd (so_world s2) = wire fd (so_world s1) @ said talk"
      using plain_lines.dialogue [OF 1(2) ok 1(6)] by blast
    have inv2: "socket_inv no_others {#} s2" and tcp2: "tcp_sock (im_tcp (so_impl s2)) = fd"
        "tcp_tsecs (im_tcp (so_impl s2)) = tcp_tsecs (im_tcp (so_impl s))"
        "tcp_tmilli (im_tcp (so_impl s2)) = tcp_tmilli (im_tcp (so_impl s))"
      using talk_run_keeps [OF 2(1) inv1] talk_same_client [OF 2(1) inv1] 1(3-5) turn_calls_talk
      by (fastforce simp: same_client_def)+
    from startSSL_step [OF p b(1) _ 2(2) tcp2(1) o] b(2) obtain s3 where
      3: "api_step S Api_startSSL s2 = Some (Ret_bool True, s3)" "socket_secret S rx ssl fd s3"
        "tcp_sock (im_tcp (so_impl s3)) = fd" "hushed rx fd ssl (so_world s2) (so_world s3)" by (auto simp: tcp2)
    have "socket_inv no_others {#} s3" using api_step_inv [OF 3(1) inv2] by simp
    moreover have "sealed ssl (so_world s2) = sealed ssl (so_world s)"
      using plain_dialogue_sealed [OF 2(1) 1(2)] sealed_emits [OF 1(8)] by simp
    ultimately show ?thesis
      using After api_run_chain [OF api_run_one [OF 1(1)] api_run_chain [OF 2(1) api_run_one [OF 3(1)]]] 1(7) 2(3,4) 3(2-4)
      by (simp add: hushed_def)
  qed
qed

text \<open>
  C6. A secure session over any chain of proxies works, whether opened by \<open>connectSSL\<close> or upgraded by
  \<open>startSSL\<close> after a dialogue in the clear: with proxies that grant what they are asked, a host that accepts
  and a peer whose handshake succeeds, every call succeeds and \<open>readline\<close> returns the peer's lines. In the
  clear go only the requests to the proxies and the dialogue before the upgrade; the rest of the
  dialogue is handed to OpenSSL, byte for byte; and every descriptor that was opened is closed.
\<close>

theorem secure_session_over_proxies:
  assumes ins: "\<forall>a \<in> set ins. inserted a \<noteq> None"
    and t: "itinerary (rev (map made_hop ins)) server port = t # ts"
    and host: "reachable_host S fd rx ip t secs us"
    and hops: "chain_talk ip (rev (map made_hop ins)) ts sent got"
    and talk: "\<forall>u \<in> set (in_clear how @ secret). turn_ok u"
    and tls: "using_openssl (sys_build S)" "tls_peer S rx ctx ssl" "brisk S tick" "patient tick secs us"
    and rx: "rx e = got @ heard (in_clear how) @ heard secret @ rest"
  shows "\<exists>s. api_run S (Api_setTimeout secs us # ins @ start_calls server port how @ map turn_call secret @ [Api_close])
          (socket_new (start e))
        = Some (Ret_void # map (\<lambda>a. Ret_bool True) ins @ start_results how @ map turn_result secret @ [Ret_bool True], s)
    \<and> wire fd (so_world s) = sent @ said (in_clear how) \<and> sealed ssl (so_world s) = said secret
    \<and> rx (w_env (so_world s)) = rest \<and> opens (so_world s) = closes (so_world s)"
proof -
  obtain s1 where 1: "api_run S (Api_setTimeout secs us # ins) (socket_new (start e)) = Some (Ret_void # map (\<lambda>a. Ret_bool True) ins, s1)"
      "so_world s1 = start e" "tcp_tsecs (im_tcp (so_impl s1)) = secs" "tcp_tmilli (im_tcp (so_impl s1)) = us"
    and ready: "ready s1 (rev (map made_hop ins))"
    using prepared [OF ins, where S = S and secs = secs and us = us and e = e] by blast
  have host1: "reachable_host S fd rx ip t (tcp_tsecs (im_tcp (so_impl s1))) (tcp_tmilli (im_tcp (so_impl s1)))"
    and pat1: "patient tick (tcp_tsecs (im_tcp (so_impl s1))) (tcp_tmilli (im_tcp (so_impl s1)))"
    using host tls(4) by (simp_all add: 1(3,4))
  have rx1: "rx (w_env (so_world s1)) = got @ heard (in_clear how) @ heard secret @ rest" by (simp add: 1(2) start_def rx)
  have talks: "\<forall>u \<in> set (in_clear how). turn_ok u" "\<forall>u \<in> set secret. turn_ok u" using talk by auto
  obtain s2 where 2: "api_run S (start_calls server port how) s1 = Some (start_results how, s2)"
      "socket_secret S rx ssl fd s2" "tcp_sock (im_tcp (so_impl s2)) = fd" "socket_inv no_others {#} s2"
      "rx (w_env (so_world s2)) = heard secret @ rest" "wire fd (so_world s2) = sent @ said (in_clear how)"
      "sealed ssl (so_world s2) = []"
    using secret_from_ready [OF ready t host1 hops talks(1) rx1 tls(2,3) pat1 tls(1)]
    by (auto simp: 1(2) start_def wire_def sealed_def)
  obtain s3 where 3: "api_run S (map turn_call secret) s2 = Some (map turn_result secret, s3)"
      "socket_secret S rx ssl fd s3" "wire fd (so_world s3) = wire fd (so_world s2)" "rx (w_env (so_world s3)) = rest"
      "sealed ssl (so_world s3) = said secret"
    using secret_lines.dialogue [where rx = rx and p = "wire fd (so_world s2)" and ssl = ssl and s = s2, OF _ talks(2) 2(5)] 2(2,7)
    by auto
  have inv3: "socket_inv no_others {#} s3" and sock3: "tcp_sock (im_tcp (so_impl s3)) = fd"
    using talk_run_keeps [OF 3(1) 2(4)] talk_same_client [OF 3(1) 2(4)] 2(3) turn_calls_talk
    by (fastforce simp: same_client_def)+
  obtain s4 where 4: "api_step S Api_close s3 = Some (Ret_bool True, s4)" "tcp_sock (im_tcp (so_impl s4)) = 0"
      "hushed rx fd ssl (so_world s3) (so_world s4)"
    using close_secret [OF 3(2) sock3] host by (auto simp: reachable_host_def)
  have "socket_inv no_others {#} s4" using api_step_inv [OF 4(1) inv3] by simp
  then have "opens (so_world s4) = closes (so_world s4)"
    using 4(2) by (simp add: socket_inv_def tcp_books_def fd_books_def)
  then show ?thesis
    using api_run_chain [OF 1(1) api_run_chain [OF 2(1) api_run_chain [OF 3(1) api_run_one [OF 4(1)]]]] 2(6) 3(3-5) 4(3)
    by (simp add: hushed_def)
qed

text \<open>The dialogue of tests/test\_ssl\_upgrade.cpp: a greeting, STARTTLS, the upgrade, PING and PONG.\<close>

lemma tls_peer_stream: "tls_peer stream_sys (\<lambda>bs. bs) 1 2"
  unfolding tls_peer_def
proof (intro conjI allI impI)
  fix k r and e e' :: "byte list"
  assume "tls_call k" "sys_step stream_sys k e = (r, e')"
  then show "tls_answer 1 2 k r e e'"
    by (cases k) (auto simp: stream_sys_def ans_def split: list.splits if_splits)
qed simp_all

lemma brisk_stream: "brisk stream_sys 0"
  unfolding brisk_def
proof (intro exI [of _ "\<lambda>e. 0"] allI impI)
  fix k r and e e' :: "byte list"
  assume "sys_step stream_sys k e = (r, e')"
  then show "(0 :: int) \<le> 0 \<and> (0 :: int) \<le> 0 + 0 \<and> (k = Sys_clock \<longrightarrow> sr_val r = 0)"
    by (auto simp: stream_sys_def ans_def)
qed

definition upgrade_talk :: "turn list" where
  "upgrade_talk = [Hear (bytes_of ''220 test ready''), Say (bytes_of ''STARTTLS''), Hear (bytes_of ''220 go ahead'')]"

definition ping_talk :: "turn list" where
  "ping_talk = [Say (bytes_of ''PING''), Hear (bytes_of ''PONG'')]"

lemma secure_session_over_proxies_witness:
  "\<exists>s. api_run stream_sys (Api_setTimeout 10 0 # start_calls (Some ''127.0.0.1'') 25 (After upgrade_talk) @ map turn_call ping_talk @ [Api_close])
          (socket_new (start (heard upgrade_talk @ heard ping_talk)))
        = Some (Ret_void # start_results (After upgrade_talk) @ map turn_result ping_talk @ [Ret_bool True], s)
    \<and> wire 3 (so_world s) = line_bytes (bytes_of ''STARTTLS'') \<and> sealed 2 (so_world s) = line_bytes (bytes_of ''PING'')
    \<and> w_env (so_world s) = [] \<and> opens (so_world s) = closes (so_world s)"
proof -
  have t: "itinerary (rev (map made_hop [])) (Some ''127.0.0.1'') 25 = (Some ''127.0.0.1'', 25) # []"
    by (simp add: itinerary_def)
  have r: "reachable_host stream_sys 3 (\<lambda>bs. bs) (\<lambda>h. []) (Some ''127.0.0.1'', 25) 10 0" by (rule reachable_stream) simp_all
  have h: "chain_talk (\<lambda>h. []) (rev (map made_hop [])) [] [] []" by (simp add: chain_talk.talk_end)
  have ok: "\<forall>u \<in> set (in_clear (After upgrade_talk) @ ping_talk). turn_ok u"
    by (simp add: upgrade_talk_def ping_talk_def line_bytes_def plain_line_def bytes_of_def)
  have o: "using_openssl (sys_build stream_sys)" by (simp add: run)
  have p: "patient 0 10 0" by (simp add: patient_def)
  show ?thesis
    using secure_session_over_proxies [OF _ t r h ok o tls_peer_stream brisk_stream p,
        of "heard upgrade_talk @ heard ping_talk" "[]"]
    by (simp add: upgrade_talk_def ping_talk_def)
qed

end
