(* ===== verification/Socket_Types.thy ===== *)
theory Socket_Types
  imports Socket_API
begin

text \<open>
  What the methods of \<open>Socket\<close> (src/src/socket.h) may return: for each call the form of its result and the
  range of its values, whatever the layer and the state of the connection.
\<close>

subsection \<open>The counts the layers return\<close>

text \<open>
  What the manuals say of the calls that move bytes: \<open>send\<close> and \<open>SSL_write\<close> accept at most the bytes
  offered, \<open>SSL_read\<close> delivers at most the bytes asked for and says how many.
\<close>

definition counts_right :: "'e sys \<Rightarrow> bool" where
  "counts_right S \<longleftrightarrow>
     (\<forall>fd d fl e. sr_ret (fst (sys_step S (Sys_send fd d fl) e)) \<le> int (length d))
     \<and> (\<forall>s d e. sr_ret (fst (sys_step S (Ssl_write s d) e)) \<le> int (length d))
     \<and> (\<forall>s n e. let r = fst (sys_step S (Ssl_read s n) e)
                 in 0 < sr_ret r \<longrightarrow> sr_ret r \<le> n \<and> sr_ret r = int (length (sr_bytes r)))"

lemma counts_rightD:
  assumes "counts_right S"
  shows "call S (Sys_send fd d fl) w = (r, w') \<Longrightarrow> sr_ret r \<le> int (length d)"
    "call S (Ssl_write s d) w = (r, w') \<Longrightarrow> sr_ret r \<le> int (length d)"
    "call S (Ssl_read s n) w = (r, w') \<Longrightarrow> 0 < sr_ret r \<Longrightarrow> sr_ret r \<le> n \<and> sr_ret r = int (length (sr_bytes r))"
  using assms unfolding counts_right_def Let_def by (metis call_env fst_conv)+

definition send_range :: "byte list \<Rightarrow> int \<Rightarrow> bool" where
  "send_range d rc \<longleftrightarrow> - 1 \<le> rc \<and> rc \<le> int (length d)"

definition read_range :: "int \<Rightarrow> int \<Rightarrow> byte list \<Rightarrow> bool" where
  "read_range n rc bs \<longleftrightarrow> - 1 \<le> rc \<and> rc \<le> max 0 n \<and> length bs \<le> nat n \<and> (0 < rc \<longrightarrow> rc = int (length bs))"

lemma range_error [simp]: "send_range d (- 1)" "send_range d 0" "read_range n (- 1) []" "read_range n 0 []"
  by (simp_all add: send_range_def read_range_def)

lemma normal_send_timed_range:
  "normal_send_timed S c x d w = (rc, c', w') \<Longrightarrow> 0 \<le> x \<Longrightarrow> - 1 \<le> rc \<and> rc \<le> x + int (length d)"
  using normal_send_timed_prefix [of S c x d w rc c' w'] by auto

lemma normal_send_range:
  assumes "counts_right S" "normal_send S c d w = Some (rc, c', w')"
  shows "send_range d rc"
proof (cases "comm_sock c \<noteq> 0 \<and> has_timeout c")
  case True
  then show ?thesis
    using assms(2) normal_send_timed_range [of S c 0 d w rc c' w']
    by (simp add: normal_send_def base_send_def normal_virtualsend_def send_range_def)
next
  case False
  then show ?thesis
    using assms counts_rightD(1) [OF assms(1)]
    by (auto simp: normal_send_def base_send_def normal_virtualsend_def send_range_def split: if_splits prod.splits)
qed

lemma ssh_send_range:
  assumes "counts_right S" "ssh_send S c d w = Some (rc, c', w')"
  shows "send_range d rc"
proof -
  have "post (forever (ssh_send_turn S d deadline) (False, c, w)) (\<lambda>(rc, c', w'). send_range d rc)" for deadline c w
  proof (rule forever_post [where I = "\<lambda>s. True"], unfold split_paired_all)
    fix wr c and w :: "'a world"
    have "send_range d (sr_ret r)" if "call S (Ssl_write s d) w = (r, w')" "0 < sr_ret r" for s r w and w' :: "'a world"
      using counts_rightD(2) [OF assms(1) that(1)] that(2) by (simp add: send_range_def)
    then show "post (ssh_send_turn S d deadline (wr, c, w))
        (\<lambda>x. case x of Inl r \<Rightarrow> (case r of (rc, c', w') \<Rightarrow> send_range d rc) | Inr s' \<Rightarrow> True)"
      unfolding ssh_send_turn_def Let_def prod.case
      by (intro vc) (auto split: if_splits prod.splits)
  qed simp
  from postD [OF this] show ?thesis
    using assms(2) by (fastforce simp: ssh_send_def base_send_def ssh_virtualsend_def split: if_splits bind_splits prod.splits)
qed

lemma normal_read_loop_range:
  "normal_read_loop S m x buf c w = (rc, bs, c', w') \<Longrightarrow> x = int (length buf) \<Longrightarrow>
   - 1 \<le> rc \<and> rc \<le> x + int m \<and> length bs \<le> length buf + m \<and> (0 < rc \<longrightarrow> rc = int (length bs))"
proof (induction m arbitrary: x buf w c)
  case (Suc m)
  obtain r c1 w1 where 1: "normal_read_byte S c w = (r, c1, w1)" using prod_cases3 by blast
  have "r = Inl rc' \<Longrightarrow> rc' = 0 \<or> rc' = - 1" for rc'
    using 1 by (auto simp: normal_read_byte_def Let_def split: if_splits prod.splits)
  then show ?case
    using Suc.prems Suc.IH [of "x + 1" _ c1 w1] 1 by (cases r) (fastforce+)
qed auto

lemma normal_read_range: "normal_read S c n w = Some (rc, bs, c', w') \<Longrightarrow> read_range n rc bs"
  using normal_read_loop_range [of S "nat n" 0 "[]" c w rc bs c' w']
  by (auto simp: normal_read_def base_read_def normal_virtualread_def read_range_def split: if_splits)

lemma ssh_read_range:
  assumes "counts_right S" "ssh_read S c n w = Some (rc, bs, c', w')"
  shows "read_range n rc bs"
proof -
  have "post (forever (ssh_read_turn S n deadline) (False, c, w)) (\<lambda>(rc, bs, c', w'). read_range n rc bs)" for deadline c w
  proof (rule forever_post [where I = "\<lambda>s. True"], unfold split_paired_all)
    fix wr c and w :: "'a world"
    have "read_range n (sr_ret r) (sr_bytes r)" if "call S (Ssl_read s n) w = (r, w')" "0 < sr_ret r" for s r w and w' :: "'a world"
      using counts_rightD(3) [OF assms(1) that] that(2) by (auto simp: read_range_def)
    then show "post (ssh_read_turn S n deadline (wr, c, w))
        (\<lambda>x. case x of Inl r \<Rightarrow> (case r of (rc, bs, c', w') \<Rightarrow> read_range n rc bs) | Inr s' \<Rightarrow> True)"
      unfolding ssh_read_turn_def Let_def prod.case
      by (intro vc) (auto split: if_splits prod.splits)
  qed simp
  from postD [OF this] show ?thesis
    using assms(2) by (fastforce simp: ssh_read_def base_read_def ssh_virtualread_def split: if_splits bind_splits prod.splits)
qed

lemma obj_ranges:
  "counts_right S \<Longrightarrow> obj_send S x d w = Some (rc, x', w') \<Longrightarrow> send_range d rc"
  "counts_right S \<Longrightarrow> obj_read S x n w = Some (rc, bs, x', w') \<Longrightarrow> read_range n rc bs"
  by (cases x; auto split: bind_splits dest: normal_send_range ssh_send_range normal_read_range ssh_read_range)+

lemma tcp_ranges:
  "counts_right S \<Longrightarrow> tcp_send S t d w = Some (rc, t', w') \<Longrightarrow> send_range d rc"
  "counts_right S \<Longrightarrow> tcp_read S t n w = Some (rc, bs, t', w') \<Longrightarrow> read_range n rc bs"
  by (auto simp: tcp_send_def tcp_read_def Let_def dest: obj_ranges split: option.splits bind_splits)

subsection \<open>The text the reading loops return\<close>

definition text_ok :: "byte list option \<Rightarrow> bool" where
  "text_ok t \<longleftrightarrow> (case t of None \<Rightarrow> True | Some b \<Rightarrow> 0 \<notin> set b)"

definition line_ok :: "byte list option \<Rightarrow> bool" where
  "line_ok t \<longleftrightarrow> (case t of None \<Rightarrow> True | Some b \<Rightarrow> 0 \<notin> set b \<and> CR \<notin> set b \<and> LF \<notin> set b)"

lemma c_str_set: "set (c_str b) \<subseteq> set b" "0 \<notin> set (c_str b)"
  by (auto simp: c_str_def dest: set_takeWhileD)

lemma tcp_reads_text: "tcp_reads S t w = Some (res, t', w') \<Longrightarrow> text_ok res"
proof -
  have "post (forever (reads_turn (tcp_read_one S)) s) (\<lambda>(res, buf, s'). text_ok res)" for s
    by (rule forever_post [where I = "\<lambda>s. True"])
      (auto simp: reads_turn_def post_def text_ok_def Let_def c_str_set(2) split: bind_splits if_splits)
  from postD [OF this] show "tcp_reads S t w = Some (res, t', w') \<Longrightarrow> text_ok res"
    by (fastforce simp: tcp_reads_def split: bind_splits)
qed

lemma tcp_readline_text: "tcp_readline S t w = Some (res, t', w') \<Longrightarrow> line_ok res"
proof -
  have c: "CR \<notin> set (c_str b) \<and> LF \<notin> set (c_str b)" if "CR \<notin> set b" "LF \<notin> set b" for b
    using that c_str_set(1) by blast
  have "post (forever (readline_turn (tcp_read_one S)) ([], 0, s)) (\<lambda>(res, buf, s'). line_ok res)" for s
    by (rule forever_post [where I = "\<lambda>(buf, l, s). CR \<notin> set buf \<and> LF \<notin> set buf"])
      (auto simp: readline_turn_def post_def line_ok_def Let_def c_str_set(2) c split: bind_splits if_splits)
  from postD [OF this] show "tcp_readline S t w = Some (res, t', w') \<Longrightarrow> line_ok res"
    by (fastforce simp: tcp_readline_def split: bind_splits)
qed

subsection \<open>The result of a method\<close>

fun ret_bool :: "api_result \<Rightarrow> bool" where
  "ret_bool (Ret_bool b) = True"
| "ret_bool _ = False"

fun result_type :: "api \<Rightarrow> api_result \<Rightarrow> bool" where
  "result_type (Api_send d) r = (case r of Ret_int rc \<Rightarrow> send_range d rc | _ \<Rightarrow> False)"
| "result_type (Api_read n) r = (case r of Ret_data rc bs \<Rightarrow> read_range n rc bs | _ \<Rightarrow> False)"
| "result_type Api_reads r = (case r of Ret_text t \<Rightarrow> text_ok t | _ \<Rightarrow> False)"
| "result_type Api_readline r = (case r of Ret_text t \<Rightarrow> line_ok t | _ \<Rightarrow> False)"
| "result_type Api_getError r = (case r of Ret_error e \<Rightarrow> True | _ \<Rightarrow> False)"
| "result_type (Api_setTimeout n m) r = (r = Ret_void)"
| "result_type (Api_setSSLVerify v) r = (r = Ret_void)"
| "result_type Api_setMessageStream r = (r = Ret_void)"
| "result_type a r = ret_bool r"

lemma api_step_type:
  assumes "counts_right S" "api_step S a s = Some (r, s')"
  shows "result_type a r"
proof (cases a)
  case (Api_send d)
  then show ?thesis using assms by (auto simp: ret_iw_def impl_send_def split: bind_splits dest: tcp_ranges)
next
  case (Api_read n)
  then show ?thesis using assms by (auto simp: impl_read_def split: bind_splits dest: tcp_ranges)
next
  case Api_reads
  then show ?thesis using assms by (auto simp: ret_iw_def impl_reads_def split: bind_splits dest: tcp_reads_text)
next
  case Api_readline
  then show ?thesis using assms by (auto simp: ret_iw_def impl_readline_def split: bind_splits dest: tcp_readline_text)
qed (use assms(2) in \<open>auto simp: ret_iw_def ret_ihw_def ret_ih_def split: bind_splits\<close>)

text \<open>
  C20. Every result has its type: in any run from any state, the i-th result is one the i-th method may
  return. \<open>send\<close> returns -1 or a count up to the length given; \<open>read\<close> returns -1 or a count up to the
  size of the buffer, never stores more than that, and if the count is positive it is the number of
  bytes stored; \<open>reads\<close> returns null or a C string and \<open>readline\<close> null or a C string without CR or LF; the
  others return a truth value, a message or nothing.
\<close>

theorem results_have_their_types:
  assumes "counts_right S" "api_run S as s = Some (rs, s')"
  shows "list_all2 result_type as rs"
  using assms(2) by (induction as arbitrary: s rs) (auto simp del: api_step.simps split: bind_splits dest: api_step_type [OF assms(1)])

lemma counts_right_stream: "counts_right stream_sys"
  by (auto simp: counts_right_def stream_sys_def ans_def split: list.splits)

lemma results_have_their_types_witness:
  "\<exists>rs s'. api_run stream_sys [Api_connectSSL (Some ''h'') 443, Api_send [1, 2], Api_read 1] (socket_new (start [7, 8])) = Some (rs, s')
    \<and> list_all2 result_type [Api_connectSSL (Some ''h'') 443, Api_send [1, 2], Api_read 1] rs"
proof -
  let ?as = "[Api_connectSSL (Some ''h'') 443, Api_send [1, 2], Api_read 1]"
  have "api_run stream_sys ?as (socket_new (start [7, 8])) \<noteq> None"
    by (simp add: run Let_def cong: bind_weak_cong)
  then obtain rs s' where 1: "api_run stream_sys ?as (socket_new (start [7, 8])) = Some (rs, s')" by auto
  show ?thesis using results_have_their_types [OF counts_right_stream 1] 1 by blast
qed

end
