(* ===== verification/Comm_Messages.thy ===== *)
theory Comm_Messages
  imports Comm
begin

text \<open>
  What a layer says when an operation fails: \<open>Socket_Comm\<close>'s documentation asks a caller to look at
  \<open>getError()\<close>, so every failing branch of the two subclasses has to leave a message there. The
  contract is the locale \<open>telling_layer\<close>; both layers meet it.
\<close>

subsection \<open>Failing with a message\<close>

text \<open>
  A read or a send that had something to do and did nothing. A read of no bytes is answered 0
  by the plain layer, and so is a timed send of none.
\<close>

definition io_failed :: "int \<Rightarrow> bool \<Rightarrow> bool" where
  "io_failed rc some \<longleftrightarrow> rc < 0 \<or> rc = 0 \<and> some"

lemma io_failed_pos: "0 < rc \<Longrightarrow> \<not> io_failed rc x"
  by (simp add: io_failed_def)

lemma io_failed_some [simp]: "io_failed rc True \<longleftrightarrow> rc \<le> 0"
  by (auto simp: io_failed_def)

locale telling_layer = comm_layer +
  assumes vbind_tells: "post (vbind c w) (\<lambda>(ok, c', w'). \<not> ok \<longrightarrow> comm_error c' \<noteq> [])"
    and vsend_tells: "post (vsend c d w) (\<lambda>(rc, c', w'). io_failed rc (d \<noteq> []) \<longrightarrow> comm_error c' \<noteq> [])"
    and vread_tells: "post (vread c n w) (\<lambda>(rc, bs, c', w'). io_failed rc (0 < n) \<longrightarrow> comm_error c' \<noteq> [])"
begin

lemma bind_tells: "post (base_bind vbind s c w) (\<lambda>(ok, c', w'). \<not> ok \<longrightarrow> comm_error c' \<noteq> [])"
  unfolding base_bind_def using vbind_tells by simp

lemma send_tells:
  "post (base_send vsend c d w) (\<lambda>(rc, c', w'). io_failed rc (d \<noteq> []) \<longrightarrow> comm_error c' \<noteq> [])"
  unfolding base_send_def using vsend_tells by simp

lemma read_tells:
  "post (base_read vread c n w) (\<lambda>(rc, bs, c', w'). io_failed rc (0 < n) \<longrightarrow> comm_error c' \<noteq> [])"
  unfolding base_read_def using vread_tells by simp

lemma finish_tells: "base_finish vfinish c w = Some (False, c', w') \<Longrightarrow> comm_error c' \<noteq> []"
  using vfinish_ok [of "c\<lparr>comm_sock := 0\<rparr>" w] by (auto simp: base_finish_def split: if_splits)

end

subsection \<open>The plain layer\<close>

lemma snprintf_some [simp]: "1 < n \<Longrightarrow> s \<noteq> [] \<Longrightarrow> snprintf n s \<noteq> []"
  by (auto simp: snprintf_def)

lemma timeout_message_some [simp]: "timeout_message who c \<noteq> []"
  by (simp add: timeout_message_def)

lemma normal_send_timed_tells:
  "normal_send_timed S c x d w = (rc, c', w') \<Longrightarrow> 0 \<le> x \<Longrightarrow> io_failed rc (0 < x \<or> d \<noteq> []) \<Longrightarrow> comm_error c' \<noteq> []"
proof (induction d arbitrary: x w)
  case (Cons b bs)
  then show ?case
    by (auto simp: Let_def split: prod.splits if_splits dest!: Cons.IH)
qed (auto simp: io_failed_def)

lemma normal_virtualsend_tells:
  "normal_virtualsend S c d w = (rc, c', w') \<Longrightarrow> io_failed rc (d \<noteq> []) \<Longrightarrow> comm_error c' \<noteq> []"
  by (auto simp: normal_virtualsend_def Let_def io_failed_pos split: prod.splits if_splits
      dest!: normal_send_timed_tells [where x = 0] intro: io_failed_pos)

lemma normal_read_byte_tells:
  "normal_read_byte S c w = (Inl rc, c', w') \<Longrightarrow> comm_error c' \<noteq> []"
  by (auto simp: normal_read_byte_def Let_def split: prod.splits if_splits)

lemma normal_read_loop_tells:
  "normal_read_loop S n x buf c w = (rc, bs, c', w') \<Longrightarrow> rc < x + int n \<Longrightarrow> comm_error c' \<noteq> []"
  by (induction n arbitrary: x buf c w)
    (auto split: prod.splits sum.splits dest: normal_read_byte_tells)

text \<open>A plain read that is short by any number of bytes leaves a message.\<close>

lemma normal_read_tells:
  "normal_read S c n w = Some (rc, bs, c', w') \<Longrightarrow> rc < n \<Longrightarrow> comm_error c' \<noteq> []"
  by (auto simp: normal_read_def base_read_def normal_virtualread_def dest: normal_read_loop_tells split: if_splits)

interpretation plain_tells: telling_layer
  "\<lambda>c w. Some (normal_virtualbind S c w)" "\<lambda>c w. Some (normal_virtualfinish S c w)"
  "\<lambda>c d w. Some (normal_virtualsend S c d w)" "\<lambda>c n w. Some (normal_virtualread S c n w)"
  for S
proof (unfold_locales, goal_cases)
  case (3 c n w)
  show ?case
    using normal_read_loop_tells [of S "nat n" 0 "[]" c w]
    by (auto simp: normal_virtualread_def io_failed_def split: prod.splits)
qed (auto simp: normal_virtualbind_def dest: normal_virtualsend_tells)

subsection \<open>The TLS layer\<close>

lemma drain_keeps_text:
  assumes "forever (drain_turn S) (m, w) = Some (m', w')" "m \<noteq> []"
  shows "m' \<noteq> []"
proof -
  have "post (forever (drain_turn S) (m, w)) (\<lambda>(m', w'). m' \<noteq> [])"
    by (rule forever_post [where I = "\<lambda>(m', w'). m' \<noteq> []"])
      (use assms(2) in \<open>auto simp: drain_turn_def split: prod.splits\<close>)
  then show ?thesis using assms(1) by (auto dest: postD)
qed

lemma setSSLError_tells [dest!]:
  "setSSLError S p c w = Some (c', w') \<Longrightarrow> p \<noteq> [] \<Longrightarrow> comm_error c' \<noteq> []"
  by (auto simp: setSSLError_def Let_def split: bind_splits prod.splits if_splits dest: drain_keeps_text)

lemma ssh_timeout_message_some [simp]: "ssh_timeout_message c \<noteq> []"
  by (simp add: ssh_timeout_message_def)

lemma ssh_waits_tell:
  "ssh_send_wait S deadline rd c w = (True, c', w') \<Longrightarrow> comm_error c' \<noteq> []"
  "ssh_read_wait S deadline wr c w = (True, c', w') \<Longrightarrow> comm_error c' \<noteq> []"
  by (auto simp: ssh_send_wait_def ssh_read_wait_def Let_def split: prod.splits option.splits if_splits)

text \<open>A turn that ends a loop ends it with a positive count or a message.\<close>

lemma ssh_send_turn_tells:
  "post (ssh_send_turn S d deadline (rd, c, w))
     (\<lambda>x. case x of Inl (rc, c', w') \<Rightarrow> rc \<le> 0 \<longrightarrow> comm_error c' \<noteq> [] | Inr _ \<Rightarrow> True)"
  unfolding ssh_send_turn_def Let_def prod.case
  by (intro vc) (auto split: if_splits dest: ssh_waits_tell)

lemma ssh_read_turn_tells:
  "post (ssh_read_turn S n deadline (wr, c, w))
     (\<lambda>x. case x of Inl (rc, bs, c', w') \<Rightarrow> rc \<le> 0 \<longrightarrow> comm_error c' \<noteq> [] | Inr _ \<Rightarrow> True)"
  unfolding ssh_read_turn_def Let_def prod.case
  by (intro vc) (auto split: if_splits dest: ssh_waits_tell)

lemma ssh_handshake_turn_tells:
  "post (ssh_handshake_turn S deadline (c, w))
     (\<lambda>x. case x of Inl (ok, c', w') \<Rightarrow> \<not> ok \<longrightarrow> comm_error c' \<noteq> [] | Inr _ \<Rightarrow> True)"
  unfolding ssh_handshake_turn_def Let_def prod.case
  by (intro vc) (auto split: if_splits)

lemma forever_ends_with:
  assumes "\<And>s. post (body s) (\<lambda>x. case x of Inl r \<Rightarrow> Q r | Inr s' \<Rightarrow> True)"
  shows "forever body s = Some r \<Longrightarrow> Q r"
  using forever_post [where I = "\<lambda>_. True" and Q = Q and body = body and s = s] assms
  by (auto dest: postD)

lemma ssh_loops_tell:
  "forever (ssh_send_turn S d deadline) (rd, c, w) = Some (rc, c', w') \<Longrightarrow> rc \<le> 0 \<Longrightarrow> comm_error c' \<noteq> []"
  "forever (ssh_read_turn S n deadline) (wr, c, w) = Some (rc, bs, c', w') \<Longrightarrow> rc \<le> 0 \<Longrightarrow> comm_error c' \<noteq> []"
  "forever (ssh_handshake_turn S deadline) (c, w) = Some (False, c', w') \<Longrightarrow> comm_error c' \<noteq> []"
  using forever_ends_with [where Q = "\<lambda>(rc, c', w'). rc \<le> 0 \<longrightarrow> comm_error c' \<noteq> []" and
      body = "ssh_send_turn S d deadline" and s = "(rd, c, w)" and r = "(rc, c', w')"]
    forever_ends_with [where Q = "\<lambda>(rc, bs, c', w'). rc \<le> 0 \<longrightarrow> comm_error c' \<noteq> []" and
      body = "ssh_read_turn S n deadline" and s = "(wr, c, w)" and r = "(rc, bs, c', w')"]
    forever_ends_with [where Q = "\<lambda>(ok, c', w'). \<not> ok \<longrightarrow> comm_error c' \<noteq> []" and
      body = "ssh_handshake_turn S deadline" and s = "(c, w)" and r = "(False, c', w')"]
    ssh_send_turn_tells ssh_read_turn_tells ssh_handshake_turn_tells
  by fast+

lemma ssh_virtualsend_tells:
  "post (ssh_virtualsend S c d w) (\<lambda>(rc, c', w'). rc \<le> 0 \<longrightarrow> comm_error c' \<noteq> [])"
  unfolding ssh_virtualsend_def Let_def by (intro vc) (auto dest: ssh_loops_tell)

lemma ssh_virtualread_tells:
  "post (ssh_virtualread S c n w) (\<lambda>(rc, bs, c', w'). rc \<le> 0 \<longrightarrow> comm_error c' \<noteq> [])"
  unfolding ssh_virtualread_def Let_def by (intro vc) (auto dest: ssh_loops_tell)

lemma ssh_virtualbind_tells:
  "post (ssh_virtualbind S c w) (\<lambda>(ok, c', w'). \<not> ok \<longrightarrow> comm_error c' \<noteq> [])"
  unfolding ssh_virtualbind_def ssh_handshake_def Let_def prod.case
  by (intro vc) (auto dest: ssh_loops_tell)

interpretation tls_tells: telling_layer "ssh_virtualbind S"
  "\<lambda>c w. Some (ssh_virtualfinish S c w)" "ssh_virtualsend S" "ssh_virtualread S" for S
proof (unfold_locales, goal_cases)
  case (2 c d w)
  show ?case by (rule post_weaken [OF ssh_virtualsend_tells]) (auto simp: io_failed_def)
next
  case (3 c n w)
  show ?case by (rule post_weaken [OF ssh_virtualread_tells]) (auto simp: io_failed_def)
qed (rule ssh_virtualbind_tells)

subsection \<open>Through the pointer\<close>

lemma obj_bind_tells: "obj_bind S s x w = Some (False, x', w') \<Longrightarrow> obj_getError x' \<noteq> []"
  by (cases x) (auto simp: normal_bind_def ssh_bind_def split: bind_splits
      dest: postD [OF plain_tells.bind_tells] postD [OF tls_tells.bind_tells])

lemma obj_finish_tells: "obj_finish S x w = Some (False, x', w') \<Longrightarrow> obj_getError x' \<noteq> []"
  by (cases x) (auto simp: normal_finish_def ssh_finish_def split: bind_splits
      dest: plain_tells.finish_tells tls_tells.finish_tells)

lemma obj_send_tells:
  "obj_send S x d w = Some (rc, x', w') \<Longrightarrow> io_failed rc (d \<noteq> []) \<Longrightarrow> obj_getError x' \<noteq> []"
  by (cases x) (auto simp: normal_send_def ssh_send_def split: bind_splits
      dest: postD [OF plain_tells.send_tells] postD [OF tls_tells.send_tells])

lemma obj_read_tells:
  "obj_read S x n w = Some (rc, bs, x', w') \<Longrightarrow> io_failed rc (0 < n) \<Longrightarrow> obj_getError x' \<noteq> []"
  by (cases x) (auto simp: normal_read_def ssh_read_def split: bind_splits
      dest: postD [OF plain_tells.read_tells] postD [OF tls_tells.read_tells])

end
