(* ===== verification/Connect_Messages.thy ===== *)
theory Connect_Messages
  imports Comm_Messages Connect_Chain
begin

text \<open>
  What a connector says when \<open>simpleConnect\<close> fails. Every failing branch of every class leaves a
  message, but one: \<open>Socket_Connect_Socks5\<close> returns \<open>false\<close> without a word when the server's answer
  to the greeting is short (src/src/socket_connect_socks5.cpp:142).
\<close>

text \<open>\<open>strerror\<close> has a text for every error number.\<close>

definition strerror_speaks :: "'e sys \<Rightarrow> bool" where
  "strerror_speaks S \<longleftrightarrow> (\<forall>n. sys_strerror S n \<noteq> [])"

lemma proxy_status_tells: "proxy_status rc buf = Some e \<Longrightarrow> e \<noteq> []"
  by (auto simp: proxy_status_def split: if_splits)

lemma socks4_reply_tells: "socks4_reply code = Some e \<Longrightarrow> e \<noteq> []"
  by (auto simp: socks4_reply_def split: if_splits)

lemma normal_simpleConnect_tells:
  "normal_simpleConnect S c s server port w = (False, c', s', w') \<Longrightarrow> strerror_speaks S \<Longrightarrow> conn_error c' \<noteq> []"
  by (auto simp: normal_simpleConnect_def connect_resolved_def lastSocketError_def strerror_speaks_def Let_def
      split: prod.splits if_splits)

lemma proxy_simpleConnect_tells:
  "post (proxy_simpleConnect S p s server port w) (\<lambda>(ok, p', s', w'). \<not> ok \<longrightarrow> conn_error p' \<noteq> [])"
  unfolding proxy_simpleConnect_def Let_def
  by (intro vc) (auto dest: proxy_status_tells normal_read_tells)

lemma socks4_simpleConnect_tells:
  "post (socks4_simpleConnect S p s server port w) (\<lambda>(ok, p', s', w'). \<not> ok \<longrightarrow> conn_error p' \<noteq> [])"
  unfolding socks4_simpleConnect_def Let_def
  by (intro vc) (auto dest: socks4_reply_tells)

lemma simpleConnect_tells:
  assumes "simpleConnect S x s server port w = Some (False, x', s', w')" "strerror_speaks S"
    and "class_of x \<noteq> Class_Socks5"
  shows "conn_error (base_of x') \<noteq> []"
proof (cases x)
  case (Obj_Normal c)
  then show ?thesis using assms by (auto split: prod.splits dest: normal_simpleConnect_tells)
next
  case (Obj_Proxy p)
  then show ?thesis using assms by (auto split: bind_splits dest: postD [OF proxy_simpleConnect_tells])
next
  case (Obj_Socks4 p)
  then show ?thesis using assms by (auto split: bind_splits dest: postD [OF socks4_simpleConnect_tells])
qed (use assms in \<open>auto simp: tunnel_simpleConnect_def\<close>)

lemma follow_tells:
  "follow S xs ts s w = Some (Some m, s', w') \<Longrightarrow> strerror_speaks S \<Longrightarrow>
   \<forall>x \<in> set xs. class_of x \<noteq> Class_Socks5 \<Longrightarrow> m \<noteq> []"
proof (induction S xs ts s w rule: follow.induct)
  case (1 S x xs server port ts s w)
  from "1.prems"(1) obtain ok x1 s1 w1 where sc: "simpleConnect S x s server port w = Some (ok, x1, s1, w1)"
    by (auto split: bind_splits)
  show ?case
  proof (cases ok)
    case True
    then show ?thesis using sc "1.prems" "1.IH" [OF sc] by simp
  next
    case False
    then show ?thesis using sc "1.prems" simpleConnect_tells [of S x s server port w] by simp
  qed
qed simp_all

text \<open>The outermost connector of a chain has the message of the one that failed.\<close>

lemma conn_connect_tells:
  assumes c: "conn_connect S p s server port h w = Some (False, s', h', w')" and S: "strerror_speaks S"
    and ch: "chain (links h) p ps" "ps \<noteq> []" and n: "\<forall>q \<in> set ps. class_at h q \<noteq> Some Class_Socks5"
  shows "\<exists>x. hp_objs h' p = Some x \<and> conn_error (base_of x) \<noteq> []"
proof -
  have live: "hp_objs h q \<noteq> None" if "q \<in> set ps" for q
    using chain_bound [OF ch(1) that] by (simp add: links_None)
  have cl: "\<forall>x \<in> set (objs_at h ps). class_of x \<noteq> Class_Socks5"
  proof
    fix x
    assume "x \<in> set (objs_at h ps)"
    then obtain q where "q \<in> set ps" "x = the (hp_objs h q)" by (auto simp: objs_at_def)
    then show "class_of x \<noteq> Class_Socks5"
      using live [of q] n by (auto simp: class_at_def)
  qed
  obtain m x where f: "follow S (objs_at h ps) (map target_of (objs_at h (tl ps)) @ [(server, port)]) s w
      = Some (Some m, s', w')" and x: "hp_objs h' p = Some x" "conn_error (base_of x) = m"
    using conn_connect_chain [OF ch, where S = S and s = s and w = w and server = server and port = port] c
    by (auto split: option.splits)
  from follow_tells [OF f S cl] x show ?thesis by blast
qed

subsection \<open>The one silent failure\<close>

lemma s5_read_tells: "s5_read S p n w = Some (rc, p', w') \<Longrightarrow> rc < n \<Longrightarrow> comm_error (s5_comm p') \<noteq> []"
  by (auto simp: s5_read_def split: bind_splits dest!: normal_read_tells)

lemma socks5_authenticate_tells:
  "post (socks5_authenticate S p w) (\<lambda>(ok, p', w'). \<not> ok \<longrightarrow> conn_error p' \<noteq> [])"
  unfolding socks5_authenticate_def by (intro vc) auto

lemma socks5_request_connect_tells:
  "post (socks5_request_connect S p server port w) (\<lambda>(ok, p', w'). \<not> ok \<longrightarrow> conn_error p' \<noteq> [])"
  unfolding socks5_request_connect_def Let_def
  by (intro vc) (auto simp: socks5_reply_def dest: s5_read_tells split: if_splits)

text \<open>
  C30. The one failure without a message: a SOCKS5 hop whose server reads the greeting leaves
  \<open>getError\<close> as it was, here empty, exactly when the server answers it with fewer than two bytes.
  Every other refusal of the negotiation, by the server or by the connector, has a text.
\<close>

theorem socks5_silent_failure:
  assumes r: "socks5_ready S rx s p server port" and e: "conn_error p = []"
  shows "(\<exists>p' w'. socks5_simpleConnect S p s server port w = Some (False, p', s, w') \<and> conn_error p' = [])
    \<longleftrightarrow> length (rx (w_env w)) < 2"
proof -
  let ?c = "comm_setTimeout (conn_tsecs p) (conn_tmicro p) ((s5_comm p)\<lparr>comm_sock := s\<rparr>)"
  have pr: "prompt_peer S s rx" "s \<noteq> 0" "comm_sock (s5_comm p) = 0" "\<not> no_server server" "0 < port"
    "length (s5_buffer p) = 200" using r by (auto simp: socks5_ready_def)
  have l: "linked S rx s ?c" using pr by (intro linked_new)
  have g: "socks5_greeting \<noteq> []" "length socks5_greeting = 4" by (simp_all add: socks5_greeting_def)
  have p0: "p\<lparr>s5_comm := ?c, s5_buffer := s5_buffer p\<rparr> = p\<lparr>s5_comm := ?c\<rparr>" by simp
  obtain b1 w1 where 1: "s5_send S (p\<lparr>s5_comm := ?c\<rparr>) socks5_greeting w
      = Some (4, p\<lparr>s5_comm := ?c, s5_buffer := b1\<rparr>, w1)" "length b1 = 200" "rx (w_env w1) = rx (w_env w)"
    using s5_send_prompt [OF l g(1), of "s5_buffer p" p w, unfolded p0] unfolding g(2) pr(6) by fastforce
  obtain c2 w2 where 2: "normal_read S ?c 2 w1
      = Some (if 2 \<le> length (rx (w_env w)) then 2 else 0, take 2 (rx (w_env w)), c2, w2)"
    using normal_read_prompt [OF l, of 2 w1] 1(3) by auto
  define p2 where "p2 = p\<lparr>s5_comm := c2, s5_buffer := take 2 (rx (w_env w)) @ drop (length (take 2 (rx (w_env w)))) b1\<rparr>"
  have 3: "s5_read S (p\<lparr>s5_comm := ?c, s5_buffer := b1\<rparr>) 2 w1
      = Some (if 2 \<le> length (rx (w_env w)) then 2 else 0, p2, w2)"
    using 2 1(2) by (simp add: s5_read_def buf_put_some p2_def)
  have e2: "conn_error p2 = []" using e by (simp add: p2_def)
  show ?thesis
  proof (cases "length (rx (w_env w)) < 2")
    case True
    then have "socks5_simpleConnect S p s server port w = Some (False, p2, s, w2)"
      using pr 1(1) 3 by (simp add: socks5_simpleConnect_def normal_bind_fresh Let_def)
    then show ?thesis using True e2 by simp
  next
    case False
    have eq: "socks5_simpleConnect S p s server port w =
        (if s5_buffer p2 ! 0 \<noteq> 0x05
         then Some (False, conn_setError ''Socks Server returned bad version'' p2, s, w2)
         else if s5_buffer p2 ! 1 = 0xFF
         then Some (False, conn_setError ''Socks Server rejected our suggested methods'' p2, s, w2)
         else do {
           (go_on, p, w) \<leftarrow> (if s5_buffer p2 ! 1 = 0x02 then socks5_authenticate S p2 w2 else Some (True, p2, w2));
           if \<not> go_on then Some (False, p, s, w)
           else do { (ok, p, w) \<leftarrow> socks5_request_connect S p (host_of server) port w; Some (ok, p, s, w) }
         })"
      using False pr 1(1) 3 by (simp add: socks5_simpleConnect_def normal_bind_fresh Let_def)
    have "post (socks5_simpleConnect S p s server port w) (\<lambda>(ok, p', s', w'). \<not> ok \<longrightarrow> conn_error p' \<noteq> [])"
      unfolding eq
      by (intro vc) (auto split: if_splits dest!: postD [OF socks5_authenticate_tells] postD [OF socks5_request_connect_tells])
    then show ?thesis using False by (auto dest: postD)
  qed
qed

lemma socks5_silent_failure_witness:
  "(\<exists>p' w'. socks5_simpleConnect stream_sys demo_socks5 3 (Some ''h'') 80 (start [5]) = Some (False, p', 3, w')
      \<and> conn_error p' = [])
   \<and> \<not> (\<exists>p' w'. socks5_simpleConnect stream_sys demo_socks5 3 (Some ''h'') 80 (start [4, 2]) = Some (False, p', 3, w')
      \<and> conn_error p' = [])"
proof -
  have r: "socks5_ready stream_sys (\<lambda>bs. bs) 3 demo_socks5 (Some ''h'') 80" by (rule demo_socks5_ready) simp_all
  have e: "conn_error demo_socks5 = []"
    by (simp add: demo_socks5_def socks5_setPassword_def socks5_setUsername_def socks5_new_def conn_new_def conn.defs)
  show ?thesis
    using socks5_silent_failure [OF r e, of "start [5]"] socks5_silent_failure [OF r e, of "start [4, 2]"]
    by (simp add: start_def)
qed

end
