(* ===== verification/Socket_Messages.thy ===== *)
theory Socket_Messages
  imports Connect_Messages Socket_Closed
begin

text \<open>
  \<open>getError\<close> after a failure: whatever a program did before, a call that fails leaves a message, and
  it is the message of this failure and not one left over.
\<close>

subsection \<open>The client\<close>

lemma tcp_send_tells:
  "tcp_send S t d w = Some (rc, t', w') \<Longrightarrow> io_failed rc (d \<noteq> []) \<Longrightarrow> tcp_error t' \<noteq> []"
  by (auto simp: tcp_send_def Let_def io_failed_def split: option.splits bind_splits if_splits
      dest: obj_send_tells)

lemma tcp_sends_tells:
  "tcp_sends S t b w = Some (False, t', w') \<Longrightarrow> b = None \<or> length (the b) < 2 ^ 31 \<Longrightarrow> tcp_error t' \<noteq> []"
  using obj_send_tells [where d = "the b" and S = S]
  by (fastforce simp: tcp_sends_def Let_def c_slice_id int32_id split: option.splits bind_splits if_splits)

lemma tcp_read_tells:
  "tcp_read S t n w = Some (rc, bs, t', w') \<Longrightarrow> io_failed rc (0 < n) \<Longrightarrow> tcp_error t' \<noteq> []"
  by (auto simp: tcp_read_def Let_def io_failed_def split: option.splits bind_splits if_splits
      dest: obj_read_tells)

lemma tcp_read_one_tells: "tcp_read_one S (t, w) = Some (rc, b, t', w') \<Longrightarrow> tcp_error t' = [] \<Longrightarrow> 0 < rc"
  using tcp_read_tells [of S t 1 w]
  by (fastforce simp: tcp_read_one_def split: bind_splits)

lemma tcp_reads_tells: "tcp_reads S t w = Some (None, t', w') \<Longrightarrow> tcp_error t' \<noteq> []"
proof -
  have "post (forever (reads_turn (tcp_read_one S)) ([], t\<lparr>tcp_readbuffer := []\<rparr>, w))
      (\<lambda>(res, buf, t', w'). res = None \<longrightarrow> tcp_error t' \<noteq> [])"
    by (rule forever_post [where I = "\<lambda>_. True"])
      (auto simp: reads_turn_def post_def Let_def split: bind_splits if_splits dest!: tcp_read_one_tells)
  then show "tcp_reads S t w = Some (None, t', w') \<Longrightarrow> tcp_error t' \<noteq> []"
    by (auto simp: tcp_reads_def split: bind_splits dest: postD)
qed

lemma tcp_readline_tells: "tcp_readline S t w = Some (None, t', w') \<Longrightarrow> tcp_error t' \<noteq> []"
proof -
  have "post (forever (readline_turn (tcp_read_one S)) ([], 0, t\<lparr>tcp_readbuffer := []\<rparr>, w))
      (\<lambda>(res, buf, t', w'). res = None \<longrightarrow> tcp_error t' \<noteq> [])"
    by (rule forever_post [where I = "\<lambda>_. True"])
      (auto simp: readline_turn_def post_def Let_def split: bind_splits if_splits dest!: tcp_read_one_tells)
  then show "tcp_readline S t w = Some (None, t', w') \<Longrightarrow> tcp_error t' \<noteq> []"
    by (auto simp: tcp_readline_def split: bind_splits dest: postD)
qed

lemma closeDescriptor_error [simp]: "tcp_error (fst (closeDescriptor S t w)) = tcp_error t"
  by (auto simp: closeDescriptor_def Let_def split: prod.splits)

lemma tcp_close_tells: "tcp_close S t w = Some (False, t', w') \<Longrightarrow> tcp_error t' \<noteq> []"
  using closeDescriptor_error [of S]
  by (auto simp: tcp_close_def Let_def split: option.splits bind_splits prod.splits if_splits
      dest: obj_finish_tells dest!: arg_cong [where f = "\<lambda>x. tcp_error (fst x)"])

lemma tcp_startSSL_tells: "tcp_startSSL S t h v w = Some (False, t', w') \<Longrightarrow> tcp_error t' \<noteq> []"
  by (auto simp: tcp_startSSL_def Let_def split: option.splits bind_splits prod.splits if_splits
      dest: obj_finish_tells obj_bind_tells)

lemma tcp_connect_tells:
  assumes c: "tcp_connect S t server port h w = Some (False, t', h', w')" and S: "strerror_speaks S"
    and r: "route h (tcp_conn t) ps" "\<forall>q \<in> set ps. class_at h q \<noteq> Some Class_Socks5"
  shows "tcp_error t' \<noteq> []"
proof -
  have p: "tcp_conn t \<noteq> 0" and ch: "chain (links h) (tcp_conn t) (tcp_conn t # ps)"
    and n: "\<forall>q \<in> set (tcp_conn t # ps). class_at h q \<noteq> Some Class_Socks5"
    using r by (auto simp: route_def)
  obtain ok s1 h1 w1 where 1: "conn_connect S (tcp_conn t) (tcp_sock t) server port h w = Some (ok, s1, h1, w1)"
    using c p by (auto simp: tcp_connect_def split: bind_splits)
  show ?thesis
  proof (cases ok)
    case True
    then show ?thesis using c p 1
      by (auto simp: tcp_connect_def Let_def split: option.splits bind_splits if_splits dest: obj_bind_tells)
  next
    case False
    with 1 have "conn_connect S (tcp_conn t) (tcp_sock t) server port h w = Some (False, s1, h1, w1)" by simp
    from conn_connect_tells [OF this S ch _ n] False show ?thesis
      using c p 1 by (auto simp: tcp_connect_def Let_def)
  qed
qed

subsection \<open>The socket\<close>

lemma impl_getError_some:
  "tcp_error (im_tcp i) \<noteq> [] \<Longrightarrow> impl_getError i \<noteq> []" "im_sslerror i \<noteq> [] \<Longrightarrow> impl_getError i \<noteq> []"
  by (simp_all add: impl_getError_def)

text \<open>A call had something to do, and its result says that it was not done.\<close>

fun wants :: "api \<Rightarrow> bool" where
  "wants (Api_send d) = (d \<noteq> [])"
| "wants (Api_read n) = (0 < n)"
| "wants a = True"

fun api_failed :: "api \<Rightarrow> api_result \<Rightarrow> bool" where
  "api_failed a (Ret_bool ok) = (\<not> ok)"
| "api_failed a (Ret_int rc) = io_failed rc (wants a)"
| "api_failed a (Ret_data rc bs) = io_failed rc (wants a)"
| "api_failed a (Ret_text t) = (t = None)"
| "api_failed a r = False"

text \<open>Texts for \<open>sends\<close> whose length is an \<open>int\<close>, and programs that use no SOCKS5 proxy.\<close>

fun text_fits :: "api \<Rightarrow> bool" where
  "text_fits (Api_sends (Some b)) = (length b < 2 ^ 31)"
| "text_fits a = True"

fun uses_socks5 :: "api \<Rightarrow> bool" where
  "uses_socks5 (Api_insertSocks5 sv p u pw) = True"
| "uses_socks5 a = False"

lemma uses_socks5_inserted: "uses_socks5 a \<longleftrightarrow> map_option fst (inserted a) = Some Class_Socks5"
  by (cases a) simp_all

text \<open>The chain of the next connection has no SOCKS5 proxy.\<close>

definition plain_chain :: "'e socket \<Rightarrow> bool" where
  "plain_chain s \<longleftrightarrow> (\<exists>qs. proxies (so_heap s) (im_lastconnect (so_impl s)) qs
     \<and> (\<forall>q \<in> set qs. class_at (so_heap s) q \<noteq> Some Class_Socks5))"

lemma plain_chain_step:
  assumes st: "api_step S a s = Some (r, s')" and inv: "socket_inv oth lost s" and c: "plain_chain s"
    and a: "\<not> uses_socks5 a"
  shows "plain_chain s'"
proof -
  obtain qs where qs: "proxies (so_heap s) (im_lastconnect (so_impl s)) qs"
    and n: "\<forall>q \<in> set qs. class_at (so_heap s) q \<noteq> Some Class_Socks5"
    using c by (auto simp: plain_chain_def)
  have ok: "impl_ok (so_impl s) (so_heap s)" using inv by (simp add: socket_inv_def)
  show ?thesis
  proof (cases "dials S a")
    case True
    obtain fs where fs: "connected (so_impl s) (so_heap s) fs" using impl_ok_connected [OF ok] by blast
    from dial_step [OF st inv True] obtain t h where p: "impl_prepare (so_impl s) (so_heap s) = Some (t, h)"
      and same: "links (so_heap s') = links h" "class_at (so_heap s') = class_at h"
        "im_lastconnect (so_impl s') = im_lastconnect (so_impl s)" by blast
    note pr = impl_prepare_ok [OF ok qs fs p]
    have "proxies (so_heap s') (im_lastconnect (so_impl s')) qs"
      using pr same by (simp add: proxies_def)
    moreover have "class_at (so_heap s') q \<noteq> Some Class_Socks5" if "q \<in> set qs" for q
      using n pr that by (simp add: same(2) class_at_hop)
    ultimately show ?thesis by (auto simp: plain_chain_def)
  next
    case False
    show ?thesis
    proof (cases "inserted a")
      case None
      note sm = api_step_same_store [OF st inv False None]
      have "class_at (so_heap s') = class_at (so_heap s)"
        by (rule hop_at_class) (use sm in \<open>simp add: same_store_def\<close>)
      moreover have "im_lastconnect (so_impl s') = im_lastconnect (so_impl s)"
        using sm by (simp add: same_store_def)
      ultimately show ?thesis
        using c unfolding plain_chain_def same_store_chains(1) [OF sm] by simp
    next
      case (Some k)
      from api_insert_step [OF st inv Some qs] obtain p where
        p: "im_lastconnect (so_impl s') = p" "proxies (so_heap s') p (p # qs)" "hop_at (so_heap s') p = Some k"
          "\<forall>q \<in> set qs. hop_at (so_heap s') q = hop_at (so_heap s) q" by blast
      have "fst k \<noteq> Class_Socks5" using a Some by (simp add: uses_socks5_inserted)
      then have "\<forall>q \<in> set (p # qs). class_at (so_heap s') q \<noteq> Some Class_Socks5"
        using p(3,4) n by (cases k) (simp add: class_at_hop)
      then show ?thesis using p(1,2) unfolding plain_chain_def by blast
    qed
  qed
qed

lemma plain_chain_run:
  assumes "api_run S as (socket_new (start e)) = Some (rs, s)" "\<forall>a \<in> set as. \<not> uses_socks5 a"
  shows "(\<exists>lost. socket_inv no_others lost s) \<and> plain_chain s"
proof (rule api_run_keeps [OF assms(1)])
  show "(\<exists>lost. socket_inv no_others lost (socket_new (start e))) \<and> plain_chain (socket_new (start e))"
  proof
    show "\<exists>lost. socket_inv no_others lost (socket_new (start e))" by (rule exI) (rule socket_inv_new)
    have "proxies heap_empty (im_lastconnect impl_new) []" by (simp add: impl_new_def proxies_def)
    then show "plain_chain (socket_new (start e))" unfolding plain_chain_def socket_new_def by fastforce
  qed
next
  fix a s r s'
  assume a: "a \<in> set as" and st: "api_step S a s = Some (r, s')"
    and i: "(\<exists>lost. socket_inv no_others lost s) \<and> plain_chain s"
  then obtain lost where inv: "socket_inv no_others lost s" by blast
  from plain_chain_step [OF st inv] api_step_inv [OF st inv] a i assms(2)
  show "(\<exists>lost. socket_inv no_others lost s') \<and> plain_chain s'" by auto
qed

text \<open>A failing \<open>connect\<close> or \<open>connectSSL\<close> has the message of the hop or of the layer.\<close>

lemma impl_connect_with_tells:
  assumes c: "impl_connect_with S comm i server port h w = Some (False, i', h', w')"
    and S: "strerror_speaks S" and ok: "impl_ok i h" and qs: "proxies h (im_lastconnect i) qs"
    and n: "\<forall>q \<in> set qs. class_at h q \<noteq> Some Class_Socks5"
  shows "tcp_error (im_tcp i') \<noteq> []"
proof -
  obtain fs where fs: "connected i h fs" using impl_ok_connected [OF ok] by blast
  obtain t1 h1 where 1: "impl_prepare i h = Some (t1, h1)"
    using c by (auto simp: impl_connect_with_def split: bind_splits)
  obtain t2 w2 where 2: "tcp_setComm S comm t1 w = Some (t2, w2)"
    using c 1 by (auto simp: impl_connect_with_def split: bind_splits)
  obtain t3 where 3: "tcp_connect S t2 server port h1 w2 = Some (False, t3, h', w')" "i' = i\<lparr>im_tcp := t3\<rparr>"
    using c 1 2 by (auto simp: impl_connect_with_def split: bind_splits)
  note pr = impl_prepare_ok [OF ok qs fs 1]
  have "tcp_conn t2 = hp_next h" using 2 pr by (auto simp: tcp_setComm_def split: bind_splits)
  then have "route h1 (tcp_conn t2) qs" "\<forall>q \<in> set qs. class_at h1 q \<noteq> Some Class_Socks5"
    using pr n by (simp_all add: class_at_hop)
  from tcp_connect_tells [OF 3(1) S this] 3(2) show ?thesis by simp
qed

lemma impl_insert_true: "impl_insert x i h = Some (ok, i', h') \<Longrightarrow> ok"
  by (auto simp: impl_insert_def Let_def split: prod.splits if_splits bind_splits)

lemma api_step_tells:
  assumes S: "strerror_speaks S" and ok: "impl_ok (so_impl s) (so_heap s)" and c: "plain_chain s"
    and st: "api_step S a s = Some (r, s')" and a: "text_fits a" "api_failed a r"
  shows "impl_getError (so_impl s') \<noteq> []"
proof -
  obtain qs where qs: "proxies (so_heap s) (im_lastconnect (so_impl s)) qs"
    and n: "\<forall>q \<in> set qs. class_at (so_heap s) q \<noteq> Some Class_Socks5"
    using c by (auto simp: plain_chain_def)
  note ic = impl_connect_with_tells [OF _ S _ _ n]
  show ?thesis
  proof (cases a)
    case (Api_connect sv p)
    let ?j = "(so_impl s)\<lparr>im_sslerror := [], im_lastserver := host_of sv\<rparr>"
    have "impl_ok ?j (so_heap s)" using ok impl_ok_same [of ?j "so_impl s"] by simp
    from ic [OF _ this] qs st a Api_connect show ?thesis
      by (auto simp: ret_ihw_def impl_connect_def split: bind_splits intro!: impl_getError_some(1))
  next
    case (Api_connectSSL sv p)
    let ?j = "(so_impl s)\<lparr>im_sslerror := [], im_lastserver := host_of sv\<rparr>"
    have "impl_ok ?j (so_heap s)" using ok impl_ok_same [of ?j "so_impl s"] by simp
    from ic [OF _ this] qs st a Api_connectSSL show ?thesis
      by (auto simp: ret_ihw_def impl_connectSSL_def impl_getError_def Let_def split: bind_splits if_splits)
  next
    case Api_startSSL
    then show ?thesis using st a
      by (auto simp: ret_iw_def impl_startSSL_def impl_getError_def Let_def split: bind_splits if_splits
          dest!: tcp_startSSL_tells)
  next
    case (Api_send d)
    then show ?thesis using st a
      by (auto simp: ret_iw_def impl_send_def split: bind_splits dest: tcp_send_tells intro!: impl_getError_some(1))
  next
    case (Api_sends b)
    have fits: "b = None \<or> length (the b) < 2 ^ 31" using a(1) Api_sends by (cases b) simp_all
    obtain t w' where 1: "tcp_sends S (im_tcp (so_impl s)) b (so_world s) = Some (False, t, w')"
      and s': "s' = s\<lparr>so_impl := (so_impl s)\<lparr>im_tcp := t\<rparr>, so_world := w'\<rparr>"
      using st a(2) Api_sends by (auto simp: ret_iw_def impl_sends_def split: bind_splits)
    from tcp_sends_tells [OF 1 fits] s' show ?thesis by (simp add: impl_getError_def)
  next
    case (Api_read k)
    then show ?thesis using st a
      by (auto simp: impl_read_def split: bind_splits dest: tcp_read_tells intro!: impl_getError_some(1))
  next
    case Api_reads
    then show ?thesis using st a
      by (auto simp: ret_iw_def impl_reads_def split: bind_splits dest: tcp_reads_tells intro!: impl_getError_some(1))
  next
    case Api_readline
    then show ?thesis using st a
      by (auto simp: ret_iw_def impl_readline_def split: bind_splits dest: tcp_readline_tells
          intro!: impl_getError_some(1))
  next
    case Api_close
    then show ?thesis using st a
      by (auto simp: ret_iw_def impl_close_def split: bind_splits dest: tcp_close_tells intro!: impl_getError_some(1))
  qed (use st a in \<open>auto simp: ret_ih_def impl_insertTunnel_def impl_insertSocks4_def impl_insertSocks5_def
        impl_insertProxy_def split: bind_splits dest: impl_insert_true\<close>)
qed

subsection \<open>No message is left over\<close>

text \<open>A socket as it is but for its error messages, which are all empty.\<close>

fun forget_comm :: "comm_obj \<Rightarrow> comm_obj" where
  "forget_comm (Normal_Comm c) = Normal_Comm (comm_setError [] c)"
| "forget_comm (SSH_Comm c) = SSH_Comm (comm_setError [] c)"

fun forget_conn :: "conn_obj \<Rightarrow> conn_obj" where
  "forget_conn (Obj_Normal c) = Obj_Normal (conn_setError [] c)"
| "forget_conn (Obj_Tunnel c) = Obj_Tunnel (conn_setError [] c)"
| "forget_conn (Obj_Proxy c) = Obj_Proxy (conn_setError [] c\<lparr>px_comm := comm_setError [] (px_comm c)\<rparr>)"
| "forget_conn (Obj_Socks4 c) = Obj_Socks4 (conn_setError [] c\<lparr>s4_comm := comm_setError [] (s4_comm c)\<rparr>)"
| "forget_conn (Obj_Socks5 c) = Obj_Socks5 (conn_setError [] c\<lparr>s5_comm := comm_setError [] (s5_comm c)\<rparr>)"

definition forget_messages :: "'e socket \<Rightarrow> 'e socket" where
  "forget_messages s =
     (let t = im_tcp (so_impl s);
          t = t\<lparr>tcp_error := [], tcp_comm := map_option forget_comm (tcp_comm t)\<rparr>
      in s\<lparr>so_impl := (so_impl s)\<lparr>im_tcp := t, im_sslerror := []\<rparr>,
           so_heap := (so_heap s)\<lparr>hp_objs := map_option forget_conn \<circ> hp_objs (so_heap s)\<rparr>\<rparr>)"

lemma forget_conn_key: "obj_key (forget_conn x) = obj_key x"
  by (cases x) (simp_all add: obj_key_def conn_key_def)

lemma forget_keeps:
  "heap_keys (so_heap (forget_messages s)) = heap_keys (so_heap s)"
  "hp_next (so_heap (forget_messages s)) = hp_next (so_heap s)"
  "im_lastconnect (so_impl (forget_messages s)) = im_lastconnect (so_impl s)"
  "tcp_conn (im_tcp (so_impl (forget_messages s))) = tcp_conn (im_tcp (so_impl s))"
  by (simp_all add: forget_messages_def Let_def heap_keys_def forget_conn_key option.map_comp comp_def fun_eq_iff)

lemma forget_ok:
  "impl_ok (so_impl (forget_messages s)) (so_heap (forget_messages s)) = impl_ok (so_impl s) (so_heap s)"
  "plain_chain (forget_messages s) = plain_chain s"
proof -
  note same = links_keys [OF forget_keeps(1), of s] class_at_keys [OF forget_keeps(1), of s]
  show "impl_ok (so_impl (forget_messages s)) (so_heap (forget_messages s)) = impl_ok (so_impl s) (so_heap s)"
    by (rule impl_ok_cong) (simp_all add: same forget_keeps)
  show "plain_chain (forget_messages s) = plain_chain s"
    by (simp add: plain_chain_def proxies_def same forget_keeps)
qed

subsection \<open>What hides a message\<close>

text \<open>
  \<open>getError\<close> prefers \<open>d_sslerror\<close>, which only the refusals of a build without OpenSSL set, and only the
  connects and \<open>startSSL\<close> clear.
\<close>

lemma sslerror_step:
  assumes "api_step S a s = Some (r, s')"
  shows "\<not> connects a \<Longrightarrow> a \<noteq> Api_startSSL \<Longrightarrow> im_sslerror (so_impl s') = im_sslerror (so_impl s)"
    and "using_openssl (sys_build S) \<Longrightarrow> im_sslerror (so_impl s) = [] \<Longrightarrow> im_sslerror (so_impl s') = []"
  using assms
  by (cases a; force simp: ret_iw_def ret_ih_def ret_ihw_def impl_send_def impl_sends_def impl_read_def impl_reads_def
      impl_readline_def impl_close_def impl_setTimeout_def impl_setSSLVerify_def impl_insertTunnel_def impl_insertSocks4_def
      impl_insertSocks5_def impl_insertProxy_def impl_insert_def impl_connect_def impl_connectSSL_def impl_connect_with_def
      impl_startSSL_def Let_def split: bind_splits prod.splits if_splits)+

lemma sslerror_run:
  assumes "api_run S as (socket_new (start e)) = Some (rs, s)" "using_openssl (sys_build S)"
  shows "im_sslerror (so_impl s) = []"
proof (rule api_run_keeps [OF assms(1)])
  show "im_sslerror (so_impl (socket_new (start e))) = []" by (simp add: socket_new_def impl_new_def)
qed (use sslerror_step(2) assms(2) in blast)

lemma forget_sslerror [simp]: "im_sslerror (so_impl (forget_messages s)) = []"
  by (simp add: forget_messages_def Let_def)

text \<open>
  C9. A failure explains itself: after any calls that insert no SOCKS5 proxy, a call that fails (a
  \<open>false\<close>, a null text, a negative count, or a count of 0 where there was something to read or to
  send) leaves a text for \<open>getError\<close>, whichever layer, connector or proxy it failed in; and it does so
  too from the state in which every message of the socket, its layer and its connectors was emptied
  just before, so the failing call writes a text of its own. In a build with OpenSSL \<open>getError\<close> returns
  the client's message. In a build without, the refusal of \<open>connectSSL\<close> or \<open>startSSL\<close> hides it: as long as
  there is such a text, what \<open>getError\<close> returns after any other failing call but a connect or \<open>startSSL\<close>
  is that older text.
\<close>

theorem failures_explain_themselves:
  assumes "api_run S as (socket_new (start e)) = Some (rs, s)" "\<forall>b \<in> set as. \<not> uses_socks5 b"
    and "strerror_speaks S" "s0 = s \<or> s0 = forget_messages s"
    and "api_step S a s0 = Some (r, s')" "text_fits a" "api_failed a r"
  shows "impl_getError (so_impl s') \<noteq> []
    \<and> (using_openssl (sys_build S) \<longrightarrow> impl_getError (so_impl s') = tcp_error (im_tcp (so_impl s')))
    \<and> (im_sslerror (so_impl s0) \<noteq> [] \<and> \<not> connects a \<and> a \<noteq> Api_startSSL
         \<longrightarrow> impl_getError (so_impl s') = im_sslerror (so_impl s0))"
proof (intro conjI impI)
  have "impl_ok (so_impl s) (so_heap s)" "plain_chain s"
    using plain_chain_run [OF assms(1,2)] by (auto simp: socket_inv_def)
  then have "impl_ok (so_impl s0) (so_heap s0)" "plain_chain s0"
    using assms(4) forget_ok by auto
  from api_step_tells [OF assms(3) this assms(5-7)] show "impl_getError (so_impl s') \<noteq> []" .
  show "impl_getError (so_impl s') = tcp_error (im_tcp (so_impl s'))" if o: "using_openssl (sys_build S)"
  proof -
    have "im_sslerror (so_impl s0) = []" using assms(4) sslerror_run [OF assms(1) o] by auto
    from sslerror_step(2) [OF assms(5) o this] show ?thesis by (simp add: impl_getError_def)
  qed
  show "impl_getError (so_impl s') = im_sslerror (so_impl s0)"
    if "im_sslerror (so_impl s0) \<noteq> [] \<and> \<not> connects a \<and> a \<noteq> Api_startSSL"
    using sslerror_step(1) [OF assms(5)] that by (simp add: impl_getError_def)
qed

text \<open>Worked examples: the end of the stream, and the same after a refused \<open>startSSL\<close> without OpenSSL.\<close>

definition bare_sys :: "byte list sys" where
  "bare_sys = stream_sys\<lparr>sys_build := linux\<lparr>using_openssl := False\<rparr>\<rparr>"

lemma failures_explain_themselves_witness:
  "\<exists>rs s s' qs t t'. api_run stream_sys [Api_connect (Some ''h'') 80] (socket_new (start [])) = Some (rs, s)
     \<and> api_step stream_sys Api_readline (forget_messages s) = Some (Ret_text None, s')
     \<and> impl_getError (so_impl s') \<noteq> []
     \<and> api_run bare_sys [Api_connect (Some ''h'') 80, Api_startSSL] (socket_new (start [])) = Some (qs, t)
     \<and> api_step bare_sys Api_readline t = Some (Ret_text None, t')
     \<and> impl_getError (so_impl t') = impl_getError (so_impl t)"
proof -
  let ?as = "[Api_connect (Some ''h'') 80]" and ?bs = "[Api_connect (Some ''h'') 80, Api_startSSL]"
  have "api_run stream_sys ?as (socket_new (start [])) \<noteq> None"
    by (simp add: run cong: bind_weak_cong)
  then obtain rs s where 1: "api_run stream_sys ?as (socket_new (start [])) = Some (rs, s)" by auto
  have "map_option (map_option fst \<circ> api_step stream_sys Api_readline \<circ> forget_messages \<circ> snd)
      (api_run stream_sys ?as (socket_new (start []))) = Some (Some (Ret_text None))"
    by (simp add: run forget_messages_def cong: bind_weak_cong)
  then obtain s' where 2: "api_step stream_sys Api_readline (forget_messages s) = Some (Ret_text None, s')"
    using 1 by auto
  obtain qs t where 3: "api_run bare_sys ?bs (socket_new (start [])) = Some (qs, t)" "im_sslerror (so_impl t) \<noteq> []"
    by (simp add: run bare_sys_def cong: bind_weak_cong)
  have "map_option (map_option fst \<circ> api_step bare_sys Api_readline \<circ> snd)
      (api_run bare_sys ?bs (socket_new (start []))) = Some (Some (Ret_text None))"
    by (simp add: run bare_sys_def cong: bind_weak_cong)
  then obtain t' where 4: "api_step bare_sys Api_readline t = Some (Ret_text None, t')" using 3(1) by auto
  have S: "strerror_speaks stream_sys" "strerror_speaks bare_sys"
    by (simp_all add: strerror_speaks_def stream_sys_def bare_sys_def)
  have "impl_getError (so_impl t') = impl_getError (so_impl t)"
    using failures_explain_themselves [OF 3(1) _ S(2) _ 4] 3(2) by (simp add: impl_getError_def)
  then show ?thesis using failures_explain_themselves [OF 1 _ S(1) _ 2] 1 2 3(1) 4 by simp
qed

end
