(* ===== verification/Connect_Refusal.thy ===== *)
theory Connect_Refusal
  imports Connect_Session
begin

text \<open>
  A chain of proxies of which one refuses (src/src/socket\_connect.cpp and the connectors): what the
  connector of the refusing hop says and hears, and the message it leaves.
\<close>

subsection \<open>A hop that refuses\<close>

text \<open>
  \<open>hop_refusal ip x t sent got m\<close>: asked to reach \<open>t\<close>, the connector \<open>x\<close> sends \<open>sent\<close>, its server
  answers \<open>got\<close>, and it fails with the message \<open>m\<close>. An HTTP proxy refuses with its status line, a SOCKS
  server with its reply code, and a SOCKS5 server also by accepting none of the methods or by rejecting
  the credentials.
\<close>

inductive hop_refusal ::
  "(string \<Rightarrow> byte list) \<Rightarrow> conn_obj \<Rightarrow> string option \<times> int \<Rightarrow> byte list \<Rightarrow> byte list \<Rightarrow> string \<Rightarrow> bool" for ip where
  refuse_http: "host_ok server \<Longrightarrow> 0 < port \<Longrightarrow> port < 2 ^ 31 \<Longrightarrow> length status = 12 \<Longrightarrow>
     proxy_status 12 status = Some m \<Longrightarrow>
     hop_refusal ip (Obj_Proxy c) (server, port) (bytes_of (connect_text (host_of server) port)) status m"
| refuse_socks4: "\<not> no_server server \<Longrightarrow> 0 < port \<Longrightarrow> length (ip (host_of server)) = 4 \<Longrightarrow> length more6 = 6 \<Longrightarrow>
     socks4_reply code = Some m \<Longrightarrow>
     hop_refusal ip (Obj_Socks4 c) (server, port) ([0x04, 0x01, 0, 0x50] @ ip (host_of server) @ [0])
       ([0, code] @ more6) m"
| refuse_methods: "\<not> no_server server \<Longrightarrow> 0 < port \<Longrightarrow> fits_buffer c server \<Longrightarrow>
     hop_refusal ip (Obj_Socks5 c) (server, port) socks5_greeting [5, 0xFF]
       ''Socks Server rejected our suggested methods''"
| refuse_login: "\<not> no_server server \<Longrightarrow> 0 < port \<Longrightarrow> fits_buffer c server \<Longrightarrow> status \<noteq> 0 \<Longrightarrow>
     hop_refusal ip (Obj_Socks5 c) (server, port)
       (socks5_greeting @ socks5_auth (s5_username c) (s5_password c)) [5, 2, v, status]
       ''Socks Server rejected username / password''"
| refuse_socks5: "\<not> no_server server \<Longrightarrow> 0 < port \<Longrightarrow> fits_buffer c server \<Longrightarrow> m \<noteq> 0xFF \<Longrightarrow>
     s5_address atyp addr \<Longrightarrow> socks5_reply code = Some e \<Longrightarrow>
     hop_refusal ip (Obj_Socks5 c) (server, port)
       (socks5_greeting @ (if m = 2 then socks5_auth (s5_username c) (s5_password c) else [])
         @ socks5_request (host_of server) port)
       ([5, m] @ (if m = 2 then [v, 0] else []) @ [x, code, y, atyp] @ addr) e"

lemma proxy_status_12: "length status = 12 \<Longrightarrow> proxy_status 12 (status @ tail) = proxy_status 12 status"
  by (simp add: proxy_status_def nth_append)

lemma fits_socks5_ready:
  assumes "fits_buffer c server" "fresh_hop (Obj_Socks5 c)" "prompt_peer S fd rx" "fd \<noteq> 0" "\<not> no_server server" "0 < port"
  shows "socks5_ready S rx fd c server port"
  using assms by (auto simp: socks5_ready_def fits_buffer_def)

lemma hop_refuses:
  assumes t: "hop_refusal ip x (server, port) sent got m" and x: "fresh_hop x"
    and S: "prompt_peer S fd rx" "fd \<noteq> 0" "resolver S rx ip" and rx: "rx (w_env w) = got @ rest"
  shows "\<exists>x' w'. simpleConnect S x fd server port w = Some (False, x', fd, w') \<and> conn_error (base_of x') = m
    \<and> rx (w_env w') = rest \<and> wire fd w' = wire fd w @ sent"
  using t
proof cases
  case (refuse_http c)
  have r: "proxy_ready S rx fd c server port" using refuse_http x S by (simp add: proxy_ready_def)
  from proxy_exchange [OF r rx refuse_http(6)] obtain c' w' where
    "rx (w_env w') = rest" "wire fd w' = wire fd w @ bytes_of (connect_text (host_of server) port)"
    "proxy_simpleConnect S c fd server port w = Some (False, conn_setError m (c\<lparr>px_comm := c'\<rparr>), fd, w')"
    unfolding proxy_status_12 [OF refuse_http(6)] refuse_http(7) by auto
  then show ?thesis using refuse_http by simp
next
  case (refuse_socks4 more6 code c)
  have r: "socks4_ready S rx fd c server port" using refuse_socks4 x S by (simp add: socks4_ready_def)
  obtain a b d e where ip: "ip (host_of server) = [a, b, d, e]"
    using refuse_socks4(6) by (auto simp: numeral_eq_Suc length_Suc_conv)
  then have "resolves S rx (host_of server) [a, b, d, e]"
    using S(3) unfolding resolver_def by (metis refuse_socks4(6))
  from socks4_negotiates [OF r this, of w code more6 rest] show ?thesis
    using rx refuse_socks4 ip by (auto simp: socks4_reply_def split: if_splits)
next
  case (refuse_methods c)
  have r: "socks5_ready S rx fd c server port"
    by (rule fits_socks5_ready [OF refuse_methods(7) _ S(1,2) refuse_methods(5,6)]) (use refuse_methods x in simp)
  have "rx (w_env w) = [5, 0xFF] @ rest" using rx refuse_methods by simp
  from greeting_prompt [OF r this] show ?thesis using refuse_methods by auto
next
  case (refuse_login c status v)
  have r: "socks5_ready S rx fd c server port"
    by (rule fits_socks5_ready [OF refuse_login(7) _ S(1,2) refuse_login(5,6)]) (use refuse_login x in simp)
  have "rx (w_env w) = [5, 2] @ [v, status] @ rest" using rx refuse_login by simp
  from socks5_login_rejected [OF r refuse_login(7) this refuse_login(8)] show ?thesis
    using refuse_login by auto
next
  case (refuse_socks5 c k atyp addr code v z y)
  have r: "socks5_ready S rx fd c server port"
    by (rule fits_socks5_ready [OF refuse_socks5(6) _ S(1,2) refuse_socks5(4,5)]) (use refuse_socks5 x in simp)
  have "rx (w_env w) = [5, k] @ (if k = 2 then [v, 0] else []) @ [z, code, y, atyp] @ addr @ rest"
    using rx refuse_socks5 by simp
  from socks5_negotiates [OF r refuse_socks5(6-8) this] refuse_socks5 show ?thesis by auto
qed

lemma hop_refusal_like:
  assumes like: "hop_like x y" and t: "hop_refusal ip x t sent got m"
  shows "hop_refusal ip y t sent got m"
proof -
  obtain f where f: "y = map_base f x" using like unfolding hop_like_def by blast
  have fits: "fits_buffer (conn.extend b (conn.more c)) server = fits_buffer c server" for b c server
    by (simp add: fits_buffer_def extend_fields)
  from t show ?thesis
  proof cases
    case (refuse_login server port c status v)
    with hop_refusal.refuse_login [of server port "conn.extend (f (conn.truncate c)) (conn.more c)" status ip v]
    show ?thesis by (simp add: f fits extend_fields)
  next
    case (refuse_socks5 server port c k atyp addr code v z w)
    let ?c = "conn.extend (f (conn.truncate c)) (conn.more c)"
    have "fits_buffer ?c server" using refuse_socks5 by (simp add: fits)
    from hop_refusal.refuse_socks5 [OF refuse_socks5(5,6) this refuse_socks5(8-10), of ip v z w]
    show ?thesis using refuse_socks5 by (cases "k = 2") (simp_all add: f extend_fields)
  next
    case (refuse_socks4 server port more6 code c)
    with hop_refusal.refuse_socks4 [of server port ip more6 code m] show ?thesis by (simp add: f)
  next
    case (refuse_methods server port c)
    with hop_refusal.refuse_methods [of server port "conn.extend (f (conn.truncate c)) (conn.more c)" ip]
    show ?thesis by (simp add: f fits)
  qed (auto simp: f intro: hop_refusal.intros)
qed

subsection \<open>A chain in which one refuses\<close>

text \<open>The hops before it grant what they are asked; those after it are not spoken to.\<close>

inductive chain_refusal ::
  "(string \<Rightarrow> byte list) \<Rightarrow> conn_obj list \<Rightarrow> (string option \<times> int) list \<Rightarrow> byte list \<Rightarrow> byte list \<Rightarrow> string \<Rightarrow> bool"
  for ip where
  refused_here: "hop_refusal ip x t sent got m \<Longrightarrow> chain_refusal ip (x # xs) (t # ts) sent got m"
| refused_later: "hop_talk ip x t sent got \<Longrightarrow> chain_refusal ip xs ts sents gots m \<Longrightarrow>
     chain_refusal ip (x # xs) (t # ts) (sent @ sents) (got @ gots) m"

lemma chain_refusal_like:
  "chain_refusal ip xs ts sent got m \<Longrightarrow> list_all2 hop_like xs ys \<Longrightarrow> chain_refusal ip ys ts sent got m"
  by (induction arbitrary: ys rule: chain_refusal.induct)
    (auto simp: list_all2_Cons1 intro: chain_refusal.intros hop_refusal_like hop_like_facts(4))

lemma chain_refuses:
  assumes "chain_refusal ip xs ts sent got m" "\<forall>x \<in> set xs. fresh_hop x"
    and S: "prompt_peer S fd rx" "fd \<noteq> 0" "resolver S rx ip" and "rx (w_env w) = got @ rest"
  shows "\<exists>w'. follow S xs ts fd w = Some (Some m, fd, w') \<and> rx (w_env w') = rest \<and> wire fd w' = wire fd w @ sent"
  using assms(1,2,6)
proof (induction arbitrary: w rule: chain_refusal.induct)
  case (refused_here x t sent got m xs ts)
  obtain server port where t: "t = (server, port)" by fastforce
  from hop_refuses [OF refused_here(1) [unfolded t] _ S, of w rest] refused_here(2,3) show ?case by (auto simp: t)
next
  case (refused_later x t sent got xs ts sents gots m)
  obtain server port where t: "t = (server, port)" by fastforce
  from hop_talks [OF refused_later(1) [unfolded t] _ S, of w "gots @ rest"] refused_later(4,5) obtain x' w1 where
    1: "simpleConnect S x fd server port w = Some (True, x', fd, w1)" "rx (w_env w1) = gots @ rest"
      "wire fd w1 = wire fd w @ sent" by auto
  from refused_later.IH [OF _ 1(2)] refused_later(4) 1 show ?case by (auto simp: t)
qed

text \<open>The whole chain fails with the message of the hop that refused, and holds the descriptor.\<close>

lemma chain_fails:
  assumes r: "route h p ps" and head: "hp_objs h p = Some (Obj_Normal c)"
    and t: "itinerary (objs_at h ps) server port = (sv, pt) # ts" "\<not> no_server sv" "0 < pt"
    and acc: "accepting S fd rx (host_of sv) (timeout_ms c \<noteq> 0)"
    and S: "prompt_peer S fd rx" "fd \<noteq> 0" "resolver S rx ip"
    and talk: "chain_refusal ip (objs_at h ps) ts sent got m" "\<forall>x \<in> set (objs_at h ps). fresh_hop x"
    and rx: "rx (w_env w) = got @ rest"
  shows "\<exists>h' w'. conn_connect S p s server port h w = Some (False, fd, h', w')
    \<and> map_option (conn_error \<circ> base_of) (hp_objs h' p) = Some m
    \<and> rx (w_env w') = rest \<and> wire fd w' = wire fd w @ sent"
proof -
  obtain w1 where 1: "normal_simpleConnect S c s sv pt w = (True, c, fd, w1)" "quiet rx fd w w1"
    using normal_dial [OF acc S(2) t(2,3)] by blast
  from chain_refuses [OF talk S, of w1 rest] 1(2) rx obtain w2 where
    2: "follow S (objs_at h ps) ts fd w1 = Some (Some m, fd, w2)" "rx (w_env w2) = rest"
      "wire fd w2 = wire fd w1 @ sent" by (auto simp: quiet_def)
  have ch: "chain (links h) p (p # ps)" using r by (simp add: route_def)
  have "follow S (objs_at h (p # ps)) (map target_of (objs_at h ps) @ [(server, port)]) s w = Some (Some m, fd, w2)"
    using 1(1) 2(1) head t(1) by (simp add: itinerary_def)
  moreover have "map target_of (objs_at h (tl (p # ps))) = map target_of (objs_at h ps)" by simp
  ultimately obtain h' x where "conn_connect S p s server port h w = Some (False, fd, h', w2)"
    "hp_objs h' p = Some x" "conn_error (base_of x) = m"
    using conn_connect_chain [OF ch, where S = S and s = s and w = w and server = server and port = port]
    by auto
  then show ?thesis using 1(2) 2(2,3) by (auto simp: quiet_def)
qed

end
