(* ===== verification/Socket_Refusal.thy ===== *)
theory Socket_Refusal
  imports Connect_Refusal Socket_Session Socket_Closed
begin

text \<open>
  A session that a proxy refuses (src/src/socket.cpp down to the connectors): \<open>connect\<close> or
  \<open>connectSSL\<close> fails with the proxy's reason, the object holds the descriptor of the proxy with a layer
  bound to nothing, and \<open>close\<close> releases it.
\<close>

subsection \<open>The refused connect\<close>

definition opens_with :: "'e sys \<Rightarrow> string option \<Rightarrow> int \<Rightarrow> api \<Rightarrow> bool" where
  "opens_with S server port a \<longleftrightarrow> a = Api_connect server port
     \<or> a = Api_connectSSL server port \<and> using_openssl (sys_build S)"

lemma ready_is_refused:
  assumes ready: "ready s xs" and t: "itinerary xs server port = t # ts"
    and host: "reachable_host S fd rx ip t (tcp_tsecs (im_tcp (so_impl s))) (tcp_tmilli (im_tcp (so_impl s)))"
    and talk: "chain_refusal ip xs ts sent got m" and rx: "rx (w_env (so_world s)) = got @ rest"
    and a: "opens_with S server port a"
  shows "\<exists>s'. api_step S a s = Some (Ret_bool False, s') \<and> impl_getError (so_impl s') = m
    \<and> unbound_at fd (im_tcp (so_impl s')) \<and> tcp_comm (im_tcp (so_impl s')) \<noteq> None
    \<and> rx (w_env (so_world s')) = rest \<and> wire fd (so_world s') = wire fd (so_world s) @ sent"
proof -
  let ?h = "so_heap s" and ?i = "(so_impl s)\<lparr>im_sslerror := [], im_lastserver := host_of server\<rparr>"
  let ?t = "im_tcp (so_impl s)"
  obtain h1 qs c where r: "impl_prepare ?i ?h = Some ((im_tcp ?i)\<lparr>tcp_conn := hp_next ?h\<rparr>, h1)" "route h1 (hp_next ?h) qs"
    "hp_objs h1 (hp_next ?h) = Some (Obj_Normal c)" and t1: "itinerary (objs_at h1 qs) server port = (fst t, snd t) # ts"
    and ms: "timeout_ms c = timeout_ms (conn_new\<lparr>conn_tsecs := tcp_tsecs ?t, conn_tmicro := tcp_tmilli ?t\<rparr>)"
    and like: "list_all2 hop_like xs (objs_at h1 qs)" and fr: "\<forall>x \<in> set (objs_at h1 qs). fresh_hop x"
    using ready_route [OF ready t] by auto
  have acc: "accepting S fd rx (host_of (fst t)) (timeout_ms c \<noteq> 0)"
    using host unfolding ms by (simp add: reachable_host_def)
  have h: "\<not> no_server (fst t)" "0 < snd t" "prompt_peer S fd rx" "fd \<noteq> 0" "resolver S rx ip"
    using host by (auto simp: reachable_host_def)
  from chain_fails [OF r(2,3) t1 h(1,2) acc h(3-5) chain_refusal_like [OF talk like] fr rx, of "tcp_sock (im_tcp ?i)"]
  obtain h2 w2 where
    c: "conn_connect S (hp_next ?h) (tcp_sock (im_tcp ?i)) server port h1 (so_world s) = Some (False, fd, h2, w2)"
      "map_option (conn_error \<circ> base_of) (hp_objs h2 (hp_next ?h)) = Some m"
      "rx (w_env w2) = rest" "wire fd w2 = wire fd (so_world s) @ sent" by blast
  have eq: "impl_connect_with S comm ?i server port ?h (so_world s)
      = Some (False, ?i\<lparr>im_tcp := ?t\<lparr>tcp_conn := hp_next ?h, tcp_sock := fd, tcp_error := m, tcp_comm :=
          Some (obj_setTimeout (tcp_tsecs ?t) (tcp_tmilli ?t) comm)\<rparr>\<rparr>, h2, w2)" for comm
    using dial_walked(3) [OF ready _ r(1,2) c(1)] c(2) by simp
  from a show ?thesis
    unfolding opens_with_def
  proof
    assume "a = Api_connect server port"
    then show ?thesis
      using c(3,4) by (simp add: ret_ihw_def impl_connect_def eq impl_getError_def unbound_at_def comm_new_def Let_def)
  next
    assume "a = Api_connectSSL server port \<and> using_openssl (sys_build S)"
    then show ?thesis
      using c(3,4)
      by (simp add: ret_ihw_def impl_connectSSL_def eq impl_getError_def unbound_at_def Let_def
          ssh_setVerifyPeer_def ssh_setHostname_def ssh_new_def comm_new_def comm.defs ssh_comm.defs)
  qed
qed

subsection \<open>What comes after it\<close>

text \<open>Without a bound layer nothing is sent and nothing is read.\<close>

fun refused_result :: "turn \<Rightarrow> api_result" where
  "refused_result (Say l) = Ret_bool False"
| "refused_result (Hear l) = Ret_text None"

definition adrift :: "int \<Rightarrow> 'e socket \<Rightarrow> bool" where
  "adrift fd s \<longleftrightarrow> unbound_at fd (im_tcp (so_impl s)) \<and> tcp_comm (im_tcp (so_impl s)) \<noteq> None"

lemma unbound_keeps_layer:
  "tcp_sends S t b w = Some (ok, t', w') \<Longrightarrow> tcp_comm t \<noteq> None \<Longrightarrow> tcp_comm t' \<noteq> None"
  "tcp_readline S t w = Some (res, t', w') \<Longrightarrow> tcp_comm t \<noteq> None \<Longrightarrow> tcp_comm t' \<noteq> None"
proof -
  show "tcp_sends S t b w = Some (ok, t', w') \<Longrightarrow> tcp_comm t \<noteq> None \<Longrightarrow> tcp_comm t' \<noteq> None"
    by (auto simp: tcp_sends_def Let_def split: option.splits bind_splits if_splits)
  assume rd: "tcp_readline S t w = Some (res, t', w')" and c: "tcp_comm t \<noteq> None"
  show "tcp_comm t' \<noteq> None"
    by (rule tcp_loops_inv(2) [where I = "\<lambda>t w. tcp_comm t \<noteq> None", OF _ _ _ rd])
      (use c in \<open>auto simp: tcp_read_def Let_def split: option.splits bind_splits if_splits\<close>)
qed

lemma adrift_turn:
  assumes d: "adrift fd s" and u: "turn_ok u"
  shows "\<exists>s'. api_step S (turn_call u) s = Some (refused_result u, s') \<and> adrift fd s' \<and> so_world s' = so_world s"
proof (cases u)
  case (Say l)
  have "int32 (int (length (line_bytes l))) \<noteq> 0"
    using u Say by (simp add: int32_id) (simp add: line_bytes_def)
  with unbound_sends [of fd "im_tcp (so_impl s)" S "Some (line_bytes l)" "so_world s"] d obtain t where
    t: "tcp_sends S (im_tcp (so_impl s)) (Some (line_bytes l)) (so_world s) = Some (False, t, so_world s)" "unbound_at fd t"
    by (auto simp: adrift_def)
  then show ?thesis
    using Say d unbound_keeps_layer(1) [OF t(1)] by (auto simp: ret_iw_def impl_sends_def adrift_def)
next
  case (Hear l)
  from unbound_loops(2) [of fd "im_tcp (so_impl s)" S "so_world s"] d obtain t where
    t: "tcp_readline S (im_tcp (so_impl s)) (so_world s) = Some (None, t, so_world s)" "unbound_at fd t"
    by (auto simp: adrift_def)
  then show ?thesis
    using Hear d unbound_keeps_layer(2) [OF t(1)] by (auto simp: ret_iw_def impl_readline_def adrift_def)
qed

lemma adrift_talk:
  "adrift fd s \<Longrightarrow> \<forall>u \<in> set talk. turn_ok u \<Longrightarrow>
   \<exists>s'. api_run S (map turn_call talk) s = Some (map refused_result talk, s') \<and> adrift fd s' \<and> so_world s' = so_world s"
proof (induction talk arbitrary: s)
  case (Cons u talk)
  then obtain s1 where 1: "api_step S (turn_call u) s = Some (refused_result u, s1)" "adrift fd s1" "so_world s1 = so_world s"
    using adrift_turn [of fd s u S] by auto
  from Cons.IH [OF 1(2)] Cons.prems(2) 1(1,3) show ?case by auto
qed simp

text \<open>\<open>close\<close> answers false, since the layer has nothing to finish, but it closes the descriptor.\<close>

lemma adrift_close:
  assumes d: "adrift fd s" and fd: "fd \<noteq> 0" and acc: "accepting S fd rx host waits"
  shows "\<exists>s'. api_step S Api_close s = Some (Ret_bool False, s') \<and> tcp_sock (im_tcp (so_impl s')) = 0
    \<and> quiet rx fd (so_world s) (so_world s')"
proof -
  let ?t = "im_tcp (so_impl s)"
  obtain c where c: "tcp_comm ?t = Some c" "obj_sock c = 0" and sk: "tcp_sock ?t = fd"
    using d by (auto simp: adrift_def unbound_at_def)
  have f: "\<exists>c'. obj_finish S c w = Some (False, c', w)" for w
    using c(2) by (cases c) (auto simp: normal_finish_def ssh_finish_def base_finish_def)
  obtain c' where f: "obj_finish S c (so_world s) = Some (False, c', so_world s)" using f by blast
  obtain r1 w1 where 1: "call S (Sys_shutdown fd) (so_world s) = (r1, w1)" by fastforce
  obtain r2 w2 where 2: "call S (Sys_close fd) w1 = (r2, w2)" by fastforce
  show ?thesis
    using c sk fd f accepting_call [OF acc 1] accepting_call [OF acc 2]
    by (auto simp: ret_iw_def impl_close_def tcp_close_def closeDescriptor_def 1 2 Let_def intro: quiet_trans)
qed

text \<open>
  C7. A refusal anywhere in the chain stops everything: a program sets a timeout, inserts any proxies,
  and connects, in the clear or with TLS; the host of the first hop accepts, the hops up to some one grant
  their requests, and that one refuses, with any of the refusals its protocol has. Then the connect
  returns false and \<open>getError\<close> is the reason that hop gave; exactly the requests to the hops up to it
  went out; whatever the program then tries to say or to hear is refused and not one byte of it
  reaches the proxy; and \<open>close\<close> releases the descriptor, though it answers false.
\<close>

theorem refused_session:
  assumes ins: "\<forall>a \<in> set ins. inserted a \<noteq> None"
    and t: "itinerary (rev (map made_hop ins)) server port = t # ts"
    and host: "reachable_host S fd rx ip t secs us" and a: "opens_with S server port a"
    and hops: "chain_refusal ip (rev (map made_hop ins)) ts sent got m" and talk: "\<forall>u \<in> set talk. turn_ok u"
    and rx: "rx e = got @ rest"
  shows "\<exists>s. api_run S ((Api_setTimeout secs us # ins) @ [a, Api_getError] @ map turn_call talk @ [Api_close]) (socket_new (start e))
        = Some ((Ret_void # map (\<lambda>a. Ret_bool True) ins) @ [Ret_bool False, Ret_error m]
            @ map refused_result talk @ [Ret_bool False], s)
    \<and> wire fd (so_world s) = sent \<and> rx (w_env (so_world s)) = rest \<and> opens (so_world s) = closes (so_world s)"
proof -
  obtain s2 where 2: "api_run S (Api_setTimeout secs us # ins) (socket_new (start e)) = Some (Ret_void # map (\<lambda>a. Ret_bool True) ins, s2)"
      "so_world s2 = start e" "tcp_tsecs (im_tcp (so_impl s2)) = secs" "tcp_tmilli (im_tcp (so_impl s2)) = us"
    and ready: "ready s2 (rev (map made_hop ins))" using prepared [OF ins, where S = S and secs = secs and us = us and e = e] by blast
  have host2: "reachable_host S fd rx ip t (tcp_tsecs (im_tcp (so_impl s2))) (tcp_tmilli (im_tcp (so_impl s2)))"
    using host by (simp add: 2(3,4))
  have rx2: "rx (w_env (so_world s2)) = got @ rest" by (simp add: 2(2) start_def rx)
  obtain s3 where 3: "api_step S a s2 = Some (Ret_bool False, s3)" "impl_getError (so_impl s3) = m" "adrift fd s3"
      "rx (w_env (so_world s3)) = rest" "wire fd (so_world s3) = sent"
    using ready_is_refused [OF ready t host2 hops rx2 a] by (auto simp: adrift_def 2(2) start_def wire_def)
  have err: "api_run S [a, Api_getError] s2 = Some ([Ret_bool False, Ret_error m], s3)" using 3(1,2) by simp
  from adrift_talk [OF 3(3) talk] obtain s4 where
    4: "api_run S (map turn_call talk) s3 = Some (map refused_result talk, s4)" "adrift fd s4" "so_world s4 = so_world s3" by blast
  have fd: "fd \<noteq> 0" and acc: "accepting S fd rx (host_of (fst t)) (timeout_ms (conn_new\<lparr>conn_tsecs := secs, conn_tmicro := us\<rparr>) \<noteq> 0)"
    using host by (auto simp: reachable_host_def)
  from adrift_close [OF 4(2) fd acc] obtain s5 where
    5: "api_step S Api_close s4 = Some (Ret_bool False, s5)" "tcp_sock (im_tcp (so_impl s5)) = 0"
      "quiet rx fd (so_world s4) (so_world s5)" by blast
  have run: "api_run S ((Api_setTimeout secs us # ins) @ [a, Api_getError] @ map turn_call talk @ [Api_close]) (socket_new (start e))
      = Some ((Ret_void # map (\<lambda>a. Ret_bool True) ins) @ [Ret_bool False, Ret_error m] @ map refused_result talk @ [Ret_bool False], s5)"
    by (rule api_run_chain [OF 2(1) api_run_chain [OF err api_run_chain [OF 4(1) api_run_one [OF 5(1)]]]])
  have inv2: "socket_inv no_others {#} s2" "tcp_sock (im_tcp (so_impl s2)) = 0" using ready by (simp_all add: ready_def)
  have inv3: "socket_inv no_others {#} s3"
    using api_step_inv [OF 3(1) inv2(1)] inv2(2) accepting_nonzero [OF acc fd] by blast
  have "socket_inv no_others {#} s4" using talk_run_keeps [OF 4(1) inv3] turn_calls_talk by blast
  then have "socket_inv no_others {#} s5" using talk_run_keeps [OF api_run_one [OF 5(1)]] by simp
  then have "opens (so_world s5) = closes (so_world s5)"
    using 5(2) by (simp add: socket_inv_def tcp_books_def fd_books_def)
  then show ?thesis using run 3(4,5) 4(3) 5(3) by (auto simp: quiet_def)
qed

text \<open>A worked example: an HTTP proxy that connects to the SOCKS5 proxy, which rejects the credentials.\<close>

definition refusing_replies :: "byte list" where
  "refusing_replies = (bytes_of ''HTTP/1.0 200'' @ [32, 79, 75] @ [CR, LF, CR, LF]) @ [5, 2, 1, 1]"

lemma refusing_talk:
  "chain_refusal ip (rev (map made_hop demo_inserts)) [(Some ''s'', 1080), (Some ''h'', 25)]
     (bytes_of (connect_text ''s'' 1080) @ socks5_greeting @ socks5_auth ''me'' ''pw'') refusing_replies
     ''Socks Server rejected username / password''"
proof -
  have c: "crlf_lines ([32, 79, 75] @ [CR, LF, CR, LF])" "\<not> sublist [CR, LF, CR, LF] ([32, 79, 75] @ [CR, LF, CR])"
    by (auto simp: crlf_lines_def Cons_eq_append_conv sublist_Cons_right)
  have s: "host_ok (Some ''s'')" "length (bytes_of ''HTTP/1.0 200'') = 12" "bytes_of ''HTTP/1.0 200'' ! 9 = 0x32"
    by (simp_all add: host_ok_def no_server_def host_of_def bytes_of_def)
  have h: "\<not> no_server (Some ''h'')" by (simp add: no_server_def)
  let ?c = "socks5_setPassword (Some ''pw'') (socks5_setUsername (Some ''me'')
      (conn_setPort 1080 (conn_setServer (Some ''s'') socks5_new)))"
  have f: "fits_buffer ?c (Some ''h'')"
    by (simp add: fits_buffer_def socks5_setPassword_def socks5_setUsername_def host_of_def)
  have p: "hop_talk ip (made_hop (Api_insertProxy (Some ''p'') 8080)) (Some ''s'', 1080)
      (bytes_of (connect_text ''s'' 1080)) (bytes_of ''HTTP/1.0 200'' @ [32, 79, 75] @ [CR, LF, CR, LF])"
    using hop_talk.talk_http [OF s(1) _ _ s(2,3) c, of 1080 ip] by (simp add: made_hop_def host_of_def)
  have "hop_refusal ip (Obj_Socks5 ?c) (Some ''h'', 25) (socks5_greeting @ socks5_auth ''me'' ''pw'') [5, 2, 1, 1]
      ''Socks Server rejected username / password''"
    using hop_refusal.refuse_login [OF h _ f, of 25 1 ip 1]
    by (simp add: socks5_setPassword_def socks5_setUsername_def)
  from chain_refusal.refused_later [OF p chain_refusal.refused_here [OF this]] show ?thesis
    by (simp add: demo_inserts_def refusing_replies_def made_hop_def)
qed

lemma refused_session_witness:
  "\<exists>s. api_run stream_sys ((Api_setTimeout 5 0 # demo_inserts)
          @ [Api_connectSSL (Some ''h'') 25, Api_getError] @ map turn_call [Say [104], Hear [111, 107]] @ [Api_close])
        (socket_new (start (refusing_replies @ [7])))
      = Some ((Ret_void # map (\<lambda>a. Ret_bool True) demo_inserts)
          @ [Ret_bool False, Ret_error ''Socks Server rejected username / password'']
          @ map refused_result [Say [104], Hear [111, 107]] @ [Ret_bool False], s)
    \<and> wire 3 (so_world s) = bytes_of (connect_text ''s'' 1080) @ socks5_greeting @ socks5_auth ''me'' ''pw''
    \<and> w_env (so_world s) = [7] \<and> opens (so_world s) = closes (so_world s)"
proof -
  have i: "\<forall>a \<in> set demo_inserts. inserted a \<noteq> None" by (simp add: demo_inserts_def)
  have t: "itinerary (rev (map made_hop demo_inserts)) (Some ''h'') 25
      = (Some ''p'', 8080) # [(Some ''s'', 1080), (Some ''h'', 25)]"
    by (simp add: itinerary_def demo_inserts_def made_hop_def target_of_def conn_setPort_def conn_setServer_def
        socks5_setUsername_def socks5_setPassword_def)
  have r: "reachable_host stream_sys 3 (\<lambda>bs. bs) (\<lambda>h. [127, 0, 0, 1]) (Some ''p'', 8080) 5 0"
    by (rule reachable_stream) simp_all
  have a: "opens_with stream_sys (Some ''h'') 25 (Api_connectSSL (Some ''h'') 25)"
    by (simp add: opens_with_def run)
  have k: "\<forall>u \<in> set [Say [104], Hear [111, 107]]. turn_ok u" by (simp add: line_bytes_def plain_line_def)
  from refused_session [OF i t r a refusing_talk k, of "refusing_replies @ [7]" "[7]"] show ?thesis by simp
qed

end
