(* ===== verification/Socket_Reading.thy ===== *)
theory Socket_Reading
  imports Socket_API
begin

text \<open>
  \<open>read\<close> over a plain layer as a sequence of shorter reads (src/src/socket\_comm\_normal.cpp and what
  forwards to it): how a buffer is cut into calls does not matter, whatever the peer does.
\<close>

subsection \<open>The loop of \<open>virtualread\<close>\<close>

lemma read_byte_fails: "normal_read_byte S c w = (Inl rc, c', w') \<Longrightarrow> rc \<le> 0"
  by (auto simp: normal_read_byte_def Let_def split: prod.splits if_splits)

lemma read_loop_rc:
  "normal_read_loop S n x buf c w = (rc, bs, c', w') \<Longrightarrow> rc \<le> 0 \<or> rc = x + int n"
proof (induction n arbitrary: x buf c w)
  case (Suc n)
  then show ?case
    by (auto split: prod.splits sum.splits dest!: Suc.IH read_byte_fails)
qed simp

text \<open>A loop that has read \<open>x\<close> bytes is one that starts afresh, with these in front.\<close>

lemma read_loop_shift:
  "0 \<le> x \<Longrightarrow> normal_read_loop S n x buf c w
    = (let (rc, bs, c', w') = normal_read_loop S n 0 [] c w in (if rc < int n then rc else x + int n, buf @ bs, c', w'))"
proof (induction n arbitrary: x buf c w)
  case (Suc n)
  obtain y c1 w1 where b: "normal_read_byte S c w = (y, c1, w1)" by (rule prod_cases3)
  show ?case
  proof (cases y)
    case (Inl rc)
    then show ?thesis using b read_byte_fails [of S c w rc c1 w1] by simp
  next
    case (Inr a)
    obtain rc bs c2 w2 where l: "normal_read_loop S n 0 [] c1 w1 = (rc, bs, c2, w2)" by (rule prod_cases4)
    from Suc.IH [of "x + 1" "buf @ [a]" c1 w1] Suc.IH [of 1 "[a]" c1 w1] Suc.prems l read_loop_rc [OF l]
    show ?thesis by (auto simp: b Inr)
  qed
qed simp

lemma read_loop_add:
  "normal_read_loop S (m + n) x buf c w =
    (let (rc, bs, c', w') = normal_read_loop S m x buf c w
     in if rc < x + int m then (rc, bs, c', w') else normal_read_loop S n (x + int m) bs c' w')" if "0 \<le> x"
  using that
proof (induction m arbitrary: x buf c w)
  case (Suc m)
  then show ?case
    by (auto simp: add.assoc split: prod.splits sum.splits dest!: read_byte_fails)
qed simp

subsection \<open>Two reads\<close>

text \<open>Reading \<open>n\<close> bytes after \<open>m\<close>, if all of these came: the result of both.\<close>

definition read_twice :: "'e sys \<Rightarrow> int \<Rightarrow> int \<Rightarrow> 'e socket \<Rightarrow> (api_result \<times> 'e socket) option" where
  "read_twice S m n s =
     (case api_step S (Api_read m) s of
        Some (Ret_data rc bs, s1) \<Rightarrow>
          if rc < m then Some (Ret_data rc bs, s1)
          else (case api_step S (Api_read n) s1 of
                  Some (Ret_data rc2 bs2, s2) \<Rightarrow> Some (Ret_data (if rc2 < n then rc2 else m + n) (bs @ bs2), s2)
                | _ \<Rightarrow> None)
      | _ \<Rightarrow> None)"

lemma normal_read_add:
  assumes "0 < m" "0 < n"
  shows "normal_read S c (m + n) w =
    (case normal_read S c m w of
       None \<Rightarrow> None
     | Some (rc, bs, c1, w1) \<Rightarrow>
         if rc < m then Some (rc, bs, c1, w1)
         else map_option (\<lambda>(rc2, bs2, x). (if rc2 < n then rc2 else m + n, bs @ bs2, x)) (normal_read S c1 n w1))"
proof (cases "comm_sock c = 0")
  case True
  then show ?thesis using assms by (simp add: normal_read_def base_read_def)
next
  case False
  obtain rc bs c1 w1 where 1: "normal_read_loop S (nat m) 0 [] c w = (rc, bs, c1, w1)" by (rule prod_cases4)
  obtain rc2 bs2 c2 w2 where 2: "normal_read_loop S (nat n) 0 [] c1 w1 = (rc2, bs2, c2, w2)" by (rule prod_cases4)
  have "io_frame plain_io c w c1 w1" by (rule normal_read_loop_frame [OF 1]) simp
  then have s: "comm_sock c1 = comm_sock c" by (auto simp: io_frame_def dest: err_only_fields)
  have mn: "nat (m + n) = nat m + nat n" using assms by (simp add: nat_add_distrib)
  show ?thesis
    using False s assms 1 2 read_loop_rc [OF 1] read_loop_rc [OF 2]
    by (auto simp: normal_read_def base_read_def normal_virtualread_def mn read_loop_add read_loop_shift [of m])
qed

text \<open>
  C19. How a buffer is cut into reads does not matter over a plain layer: reading \<open>m + n\<close> bytes is reading
  \<open>m\<close> and then, if they all came, \<open>n\<close>, on any system and whatever the peer does or fails to do: the
  same bytes in the buffer, the same system calls, the same error and the same object afterwards, and
  the same return value, the code of the part that failed.
\<close>

theorem reads_compose:
  assumes "0 < m" "0 < n" "\<forall>c. tcp_comm (im_tcp (so_impl s)) = Some c \<longrightarrow> \<not> isSecure c"
  shows "api_step S (Api_read (m + n)) s = read_twice S m n s"
proof (cases "tcp_comm (im_tcp (so_impl s))")
  case None
  then show ?thesis using assms(1,2) by (simp add: read_twice_def impl_read_def tcp_read_def)
next
  case (Some x)
  then obtain c where c: "tcp_comm (im_tcp (so_impl s)) = Some (Normal_Comm c)" using assms(3) by (cases x) auto
  let ?w = "so_world s"
  show ?thesis
  proof (cases "normal_read S c m ?w")
    case None
    then show ?thesis using c normal_read_add [OF assms(1,2), of S c ?w]
      by (simp add: read_twice_def impl_read_def tcp_read_def)
  next
    case (Some y)
    obtain rc bs c1 w1 where y: "y = (rc, bs, c1, w1)" by (rule prod_cases4)
    show ?thesis
    proof (cases "rc < m")
      case True
      then show ?thesis using c Some y normal_read_add [OF assms(1,2), of S c ?w]
        by (simp add: read_twice_def impl_read_def tcp_read_def Let_def)
    next
      case False
      then show ?thesis using c Some y normal_read_add [OF assms(1,2), of S c ?w] assms(1,2)
        by (cases "normal_read S c1 n w1")
          (auto simp: read_twice_def impl_read_def tcp_read_def Let_def)
    qed
  qed
qed

lemma reads_compose_witness:
  "api_step stream_sys (Api_read (2 + 3)) (demo_socket [1, 2, 3, 4]) = read_twice stream_sys 2 3 (demo_socket [1, 2, 3, 4])
   \<and> map_option fst (read_twice stream_sys 2 3 (demo_socket [1, 2, 3, 4, 5])) = Some (Ret_data 5 [1, 2, 3, 4, 5])"
proof -
  have "\<forall>c. tcp_comm (im_tcp (so_impl (demo_socket bs))) = Some c \<longrightarrow> \<not> isSecure c" for bs
    using demo_linked by (auto simp: demo_socket_def tcp_linked_def)
  then have r: "api_step stream_sys (Api_read (2 + 3)) (demo_socket bs) = read_twice stream_sys 2 3 (demo_socket bs)" for bs
    by (intro reads_compose) simp_all
  have "map_option fst (api_step stream_sys (Api_read 5) (demo_socket [1, 2, 3, 4, 5])) = Some (Ret_data 5 [1, 2, 3, 4, 5])"
    by (simp add: run demo_socket_def demo_tcp_def cong: bind_weak_cong)
  with r show ?thesis by simp
qed

end
