(* ===== verification/Line_Loop.thy ===== *)
theory Line_Loop
  imports Socket_Secure
begin

text \<open>
  The loop \<open>while ((line = socket.readline()) != NULL)\<close> that the library documents for its callers
  (the comments of \<open>readline\<close> in src/src/socket_tcpclient.cpp) and that tests/test\_readline\_eof.cpp
  runs: it ends, with the lines of the stream.
\<close>

subsection \<open>The lines of a stream\<close>

lemma scan_line_shorter: "scan_line buf l bs = (line, rest, found) \<Longrightarrow> length rest \<le> length bs - 1"
proof (induction bs arbitrary: buf l)
  case (Cons b bs)
  then show ?case by (fastforce simp: Let_def split: if_splits)
qed simp

lemma scan_line_end: "scan_line buf l bs = (line, rest, False) \<Longrightarrow> rest = []"
  by (induction bs arbitrary: buf l) (auto simp: Let_def split: if_splits)

lemma line_taken:
  "scan_line [] 0 bs = (line, rest, found) \<Longrightarrow> found \<or> line \<noteq> [] \<Longrightarrow> length rest < length bs"
  using scan_line_shorter [of "[]" 0 bs line rest found] by (cases bs) auto

text \<open>One line after the other, until nothing is left.\<close>

function lines_of :: "byte list \<Rightarrow> byte list list" where
  "lines_of bs = (case scan_line [] 0 bs of (line, rest, found) \<Rightarrow>
     if found \<or> line \<noteq> [] then c_str line # lines_of rest else [])"
  by pat_completeness auto

termination lines_of
  by (relation "measure length") (simp, metis in_measure line_taken)

declare lines_of.simps [simp del]

lemma lines_of_lines:
  "\<forall>l \<in> set ls. plain_line l \<Longrightarrow> plain_line tail \<Longrightarrow>
   lines_of (concat (map line_bytes ls) @ tail) = ls @ (if tail = [] then [] else [tail])"
proof (induction ls)
  case Nil
  then have t: "CR \<notin> set tail" "LF \<notin> set tail" "0 \<notin> set tail" by (auto simp: plain_line_def)
  have "scan_line [] 0 tail = (tail, [], False)"
    using scan_line_eof [OF t(3) no_crlf_zero, of "[]"] no_crlf_text [OF t(1)] line_text_id [OF t(1,2)]
    by (auto simp: sublist_append)
  then show ?case using t by (simp add: lines_of.simps [of tail] lines_of.simps [of "[]"] c_str_id)
next
  case (Cons l ls)
  then have l: "CR \<notin> set l" "LF \<notin> set l" "0 \<notin> set l" by (auto simp: plain_line_def)
  let ?more = "concat (map line_bytes ls) @ tail"
  have "scan_line [] 0 (line_bytes l @ ?more) = (l, ?more, True)"
    using scan_line_crlf [OF l(3) no_crlf_zero [OF no_crlf_text [OF l(1)]], of "[]" ?more] line_text_id [OF l(1,2)]
    by (simp add: line_bytes_def)
  then show ?case
    using Cons by (simp add: lines_of.simps [of "line_bytes l @ ?more"] c_str_id [OF l(3)])
qed

subsection \<open>The loop\<close>

text \<open>The state of the loop is what it has read and the socket.\<close>

definition line_loop_turn ::
  "'e sys \<Rightarrow> byte list list \<times> 'e socket \<Rightarrow>
   ((byte list list \<times> 'e socket) + (byte list list \<times> 'e socket)) option" where
  "line_loop_turn S = (\<lambda>(ls, s). do {
     (line, s) \<leftarrow> api_step S Api_readline s;
     Some (case line of Ret_text (Some l) \<Rightarrow> Inr (ls @ [l], s) | _ \<Rightarrow> Inl (ls, s))
   })"

definition line_loop :: "'e sys \<Rightarrow> 'e socket \<Rightarrow> (byte list list \<times> 'e socket) option" where
  "line_loop S s = forever (line_loop_turn S) ([], s)"

text \<open>
  A connected socket whose \<open>readline\<close> cuts its stream into lines, whatever its layer: what the loop
  needs of it.
\<close>

locale line_source =
  fixes S :: "'e sys" and ok :: "'e socket \<Rightarrow> bool" and stream :: "'e socket \<Rightarrow> byte list"
  assumes line_scan: "ok s \<Longrightarrow> scan_line [] 0 (stream s) = (line, rest, found) \<Longrightarrow>
      \<exists>s'. api_step S Api_readline s = Some (Ret_text (if found \<or> line \<noteq> [] then Some (c_str line) else None), s')
        \<and> ok s' \<and> stream s' = rest"
begin

lemma loop_from:
  "ok s \<Longrightarrow>
   \<exists>s'. forever (line_loop_turn S) (ls, s) = Some (ls @ lines_of (stream s), s') \<and> ok s' \<and> stream s' = []"
proof (induction "stream s" arbitrary: s ls rule: lines_of.induct)
  case 1
  obtain line rest found where sc: "scan_line [] 0 (stream s) = (line, rest, found)" by (rule prod_cases3)
  from line_scan [OF 1(2) sc] obtain s1 where
    1: "api_step S Api_readline s = Some (Ret_text (if found \<or> line \<noteq> [] then Some (c_str line) else None), s1)"
      "ok s1" "stream s1 = rest" by blast
  show ?case
  proof (cases "found \<or> line \<noteq> []")
    case True
    have "line_loop_turn S (ls, s) = Some (Inr (ls @ [c_str line], s1))"
      using 1(1) True by (simp add: line_loop_turn_def del: api_step.simps)
    then have "forever (line_loop_turn S) (ls, s) = forever (line_loop_turn S) (ls @ [c_str line], s1)"
      by (rule forever_unfold(2))
    moreover obtain s' where
      "forever (line_loop_turn S) (ls @ [c_str line], s1) = Some ((ls @ [c_str line]) @ lines_of rest, s')"
      "ok s'" "stream s' = []"
      using "1.hyps" [OF sc [symmetric] _ True] 1(2,3) by metis
    ultimately show ?thesis using True sc by (simp add: lines_of.simps [of "stream s"])
  next
    case False
    then have "line_loop_turn S (ls, s) = Some (Inl (ls, s1))"
      using 1(1) by (simp add: line_loop_turn_def del: api_step.simps)
    then have "forever (line_loop_turn S) (ls, s) = Some (ls, s1)" by (rule forever_unfold(1))
    moreover have "rest = []" using sc False scan_line_end by auto
    ultimately show ?thesis using False sc 1(2,3) by (simp add: lines_of.simps [of "stream s"])
  qed
qed

lemma loop_ends:
  assumes "ok s"
  shows "\<exists>s' s''. line_loop S s = Some (lines_of (stream s), s') \<and> stream s' = []
    \<and> api_step S Api_readline s' = Some (Ret_text None, s'')"
proof -
  from loop_from [OF assms, of "[]"] obtain s' where
    s': "line_loop S s = Some (lines_of (stream s), s')" "ok s'" "stream s' = []"
    by (auto simp: line_loop_def)
  from line_scan [OF s'(2), of "[]" "[]" False] s' show ?thesis by auto
qed

end

lemma linked_scan:
  assumes "socket_linked S rx fd s" "scan_line [] 0 (rx (w_env (so_world s))) = (line, rest, found)"
  shows "\<exists>s'. api_step S Api_readline s = Some (Ret_text (if found \<or> line \<noteq> [] then Some (c_str line) else None), s')
    \<and> socket_linked S rx fd s' \<and> rx (w_env (so_world s')) = rest"
proof -
  from tcp_readline_scan [OF assms(1) [unfolded socket_linked_def] assms(2)] obtain t' w' where
    "tcp_readline S (im_tcp (so_impl s)) (so_world s) = Some (if found \<or> line \<noteq> [] then Some (c_str line) else None, t', w')"
    "tcp_linked S rx fd t'" "rx (w_env w') = rest" by blast
  then show ?thesis by (simp add: ret_iw_def impl_readline_def socket_linked_def)
qed

lemma secret_scan:
  assumes "socket_secret S rx ssl fd s" "scan_line [] 0 (rx (w_env (so_world s))) = (line, rest, found)"
  shows "\<exists>s'. api_step S Api_readline s = Some (Ret_text (if found \<or> line \<noteq> [] then Some (c_str line) else None), s')
    \<and> socket_secret S rx ssl fd s' \<and> rx (w_env (so_world s')) = rest"
  using secret_stream.readline_loop [of S rx ssl fd "wire fd (so_world s)" "sealed ssl (so_world s)"
      "((im_tcp (so_impl s))\<lparr>tcp_readbuffer := []\<rparr>, so_world s)" "[]" 0] assms
  by (auto simp: ret_iw_def impl_readline_def socket_secret_def tcp_readline_def)

interpretation plain_source: line_source S "socket_linked S rx fd" "\<lambda>s. rx (w_env (so_world s))" for S rx fd
  by unfold_locales (rule linked_scan)

interpretation secret_source: line_source S "socket_secret S rx ssl fd" "\<lambda>s. rx (w_env (so_world s))" for S rx ssl fd
  by unfold_locales (rule secret_scan)

text \<open>
  C17. The documented loop ends, in the clear and over TLS: whatever finite stream the peer sends before it closes, calling \<open>readline\<close>
  until it returns null terminates, with the whole stream read; the lines it saw are \<open>lines_of\<close> the
  stream, which for lines ended by CR LF and an unterminated last one are just these
  (\<open>lines_of_lines\<close>); and the next \<open>readline\<close> returns null again.
\<close>

theorem line_loop_ends:
  assumes "socket_linked S rx fd s \<or> socket_secret S rx ssl fd s"
  shows "\<exists>s' s''. line_loop S s = Some (lines_of (rx (w_env (so_world s))), s') \<and> rx (w_env (so_world s')) = []
    \<and> api_step S Api_readline s' = Some (Ret_text None, s'')"
  using assms plain_source.loop_ends [of S rx fd s] secret_source.loop_ends [of S rx ssl fd s] by blast

text \<open>The peer of tests/test\_readline\_eof.cpp, in the clear and over TLS: a complete line and a dangling one.\<close>

definition eof_stream :: "byte list" where
  "eof_stream = bytes_of ''complete'' @ [13, 10] @ bytes_of ''dangling''"

definition eof_secret :: "byte list socket" where
  "eof_secret = (let s = demo_socket eof_stream
     in s\<lparr>so_impl := (so_impl s)\<lparr>im_tcp := secure_tcp\<rparr>\<rparr>)"

lemma demo_tls_up: "session_up stream_sys (\<lambda>bs. bs) 2 3 demo_tls"
proof -
  have "patient 0 (comm_tsecs demo_tls) (comm_tmicro demo_tls)"
    by (simp add: patient_def demo_tls_def ssh_new_def comm_new_def comm.defs ssh_comm.defs)
  then show ?thesis using tls_peer_stream brisk_stream unfolding session_up_def by (auto simp: demo_tls_simps)
qed

lemma line_loop_ends_witness:
  "\<exists>s1 s2 s3 s4. line_loop stream_sys (demo_socket eof_stream) = Some ([bytes_of ''complete'', bytes_of ''dangling''], s1)
    \<and> api_step stream_sys Api_readline s1 = Some (Ret_text None, s2)
    \<and> line_loop stream_sys eof_secret = Some ([bytes_of ''complete'', bytes_of ''dangling''], s3)
    \<and> api_step stream_sys Api_readline s3 = Some (Ret_text None, s4)"
proof -
  have l: "socket_linked stream_sys (\<lambda>bs. bs) 3 (demo_socket eof_stream)"
    using demo_linked by (simp add: socket_linked_def demo_socket_def)
  have t: "socket_secret stream_sys (\<lambda>bs. bs) 2 3 eof_secret"
    using demo_tls_up by (simp add: socket_secret_def eof_secret_def demo_socket_def tcp_secret_def secure_tcp_def)
  have e: "w_env (so_world (demo_socket eof_stream)) = eof_stream" "w_env (so_world eof_secret) = eof_stream"
    by (simp_all add: eof_secret_def demo_socket_def socket_new_def start_def)
  have "lines_of eof_stream = [bytes_of ''complete'', bytes_of ''dangling'']"
    using lines_of_lines [of "[bytes_of ''complete'']" "bytes_of ''dangling''"]
    by (simp add: plain_line_def bytes_of_def line_bytes_def eof_stream_def)
  with line_loop_ends [OF disjI1 [OF l]] line_loop_ends [OF disjI2 [OF t]] e show ?thesis by auto
qed

end
