(* ===== verification/Socket_Unreachable.thy ===== *)
theory Socket_Unreachable
  imports Socket_Refusal
begin

text \<open>
  A host that does not take the connection (src/src/socket_connect_normal.cpp up to socket.cpp): its name
  does not resolve, it refuses, or it never answers. What \<open>connect\<close> reports is the same with and
  without a timeout, though a timed connect goes through \<open>select\<close> and \<open>SO_ERROR\<close>.
\<close>

subsection \<open>The machine\<close>

datatype obstacle = Unresolved | Refused int | Unanswered

fun obstacle_text :: "'e sys \<Rightarrow> obstacle \<Rightarrow> string" where
  "obstacle_text S Unresolved = ''Could not resolve domain''"
| "obstacle_text S (Refused n) = sys_strerror S n"
| "obstacle_text S Unanswered = ''Connect Timed Out''"

text \<open>
  The answers of the system, on a descriptor that is in non-blocking mode or not: a refusal is
  \<open>connect\<close>'s \<open>errno\<close>, or, in non-blocking mode only, what \<open>SO_ERROR\<close> holds once \<open>select\<close> has returned.
\<close>

fun obstructs :: "obstacle \<Rightarrow> int \<Rightarrow> bool \<Rightarrow> syscall \<Rightarrow> sysret \<Rightarrow> bool" where
  "obstructs d fd nb Sys_socket r = (sr_ret r = fd)"
| "obstructs d fd nb (Sys_getaddrinfo h) r =
     (if d = Unresolved then sr_ret r \<noteq> 0 \<or> sr_val r = 0 else sr_ret r = 0 \<and> sr_val r \<noteq> 0)"
| "obstructs d fd nb (Sys_getfl s) r = (sr_ret r \<noteq> - 1)"
| "obstructs d fd nb (Sys_setfl s fl) r = (sr_ret r \<noteq> - 1)"
| "obstructs (Refused n) fd nb (Sys_connect s a p) r =
     (sr_ret r = - 1 \<and> (sr_errno r = Some n \<or> nb \<and> sr_errno r = Some EINPROGRESS))"
| "obstructs Unanswered fd nb (Sys_connect s a p) r = (nb \<longrightarrow> sr_ret r = - 1 \<and> sr_errno r = Some EINPROGRESS)"
| "obstructs (Refused n) fd nb (Sys_select s rd wr ex tv) r = (0 < sr_ret r \<and> (fd_isset_write r \<or> fd_isset_except r))"
| "obstructs Unanswered fd nb (Sys_select s rd wr ex tv) r = (sr_ret r = 0)"
| "obstructs (Refused n) fd nb (Sys_so_error s) r = (sr_ret r = 0 \<and> sr_val r = n)"
| "obstructs d fd nb _ r = True"

text \<open>The mode of the descriptor: a new one blocks, and \<open>fcntl\<close> changes it.\<close>

fun mode_after :: "syscall \<Rightarrow> bool \<Rightarrow> bool" where
  "mode_after Sys_socket nb = False"
| "mode_after (Sys_setfl s fl) nb = (fl AND O_NONBLOCK \<noteq> 0)"
| "mode_after _ nb = nb"

definition obstructed :: "'e sys \<Rightarrow> int \<Rightarrow> ('e \<Rightarrow> bool) \<Rightarrow> string \<Rightarrow> obstacle \<Rightarrow> bool" where
  "obstructed S fd nb host d \<longleftrightarrow> fd \<noteq> 0 \<and> d \<notin> Refused ` {0, EINPROGRESS, EWOULDBLOCK}
     \<and> (\<forall>k \<in> setup_calls fd host. \<forall>e r e'. sys_step S k e = (r, e') \<longrightarrow>
          obstructs d fd (nb e) k r \<and> nb e' = mode_after k (nb e))"

lemma obstructed_call:
  assumes "obstructed S fd nb host d" "call S k w = (r, w')" "k \<in> setup_calls fd host"
  shows "obstructs d fd (nb (w_env w)) k r" "nb (w_env w') = mode_after k (nb (w_env w))"
  using assms(1,3) call_env [OF assms(2)] unfolding obstructed_def by blast+

lemma obstructed_nonzero: "obstructed S fd nb host d \<Longrightarrow> socket_nonzero S"
  unfolding socket_nonzero_def obstructed_def
  by (metis setup_calls_simps(1) prod.collapse obstructs.simps(1))

lemma nonblock_bit: "(x OR O_NONBLOCK) AND O_NONBLOCK \<noteq> 0" "(x AND NOT O_NONBLOCK) AND O_NONBLOCK = 0"
proof -
  have "(x OR O_NONBLOCK) AND O_NONBLOCK = O_NONBLOCK" by (rule bit_eqI) (auto simp: bit_simps)
  then show "(x OR O_NONBLOCK) AND O_NONBLOCK \<noteq> 0" by (simp add: O_NONBLOCK_def)
  show "(x AND NOT O_NONBLOCK) AND O_NONBLOCK = 0" by (rule bit_eqI) (auto simp: bit_simps)
qed

subsection \<open>The connector that dials\<close>

lemma setNonBlocking_mode:
  assumes o: "obstructed S fd nb host d"
  shows "\<exists>w'. setNonBlocking S fd b w = (True, w') \<and> nb (w_env w') = b"
proof -
  obtain f w1 where 1: "call S (Sys_getfl fd) w = (f, w1)" by fastforce
  obtain q w2 where 2: "call S (Sys_setfl fd (if b then sr_ret f OR O_NONBLOCK else sr_ret f AND NOT O_NONBLOCK)) w1 = (q, w2)"
    by fastforce
  show ?thesis
    using 1 2 obstructed_call(1) [OF o 1] obstructed_call(1) [OF o 2] obstructed_call(2) [OF o 2]
    by (auto simp: setNonBlocking_def Let_def nonblock_bit)
qed

text \<open>The result of the connect, and \<open>errno\<close> when it is the reason.\<close>

definition obstacle_met :: "obstacle \<Rightarrow> int \<Rightarrow> 'e world \<Rightarrow> bool" where
  "obstacle_met d rc w \<longleftrightarrow> (case d of Refused n \<Rightarrow> rc = - 1 \<and> w_errno w = n | _ \<Rightarrow> rc = - 2)"

lemma await_connect_obstructed:
  assumes o: "obstructed S fd nb host d" and m: "nb (w_env w)" and d: "d \<noteq> Unresolved"
  shows "\<exists>rc w'. await_connect S fd a p msec w = (rc, w') \<and> obstacle_met d rc w'"
proof -
  obtain cn w1 where 1: "call S (Sys_connect fd a p) w = (cn, w1)" by fastforce
  let ?tv = "Some (msec sdiv 1000, 1000 * (msec smod 1000))"
  obtain sl w2 where 2: "call S (Sys_select fd False True True ?tv) w1 = (sl, w2)" by fastforce
  obtain so w3 where 3: "call S (Sys_so_error fd) w2 = (so, w3)" by fastforce
  note c = obstructed_call(1) [OF o 1, simplified] obstructed_call(1) [OF o 2, simplified] obstructed_call(1) [OF o 3, simplified]
  show ?thesis
  proof (cases d)
    case (Refused n)
    then have "n \<noteq> 0" "n \<noteq> EINPROGRESS" "n \<noteq> EWOULDBLOCK" using o by (auto simp: obstructed_def)
    then show ?thesis
      using Refused c m call_errno [OF 1]
      by (auto simp: await_connect_def 1 2 3 connectInProgress_def obstacle_met_def setSocketError_def)
  next
    case Unanswered
    then show ?thesis
      using c m call_errno [OF 1] by (auto simp: await_connect_def 1 2 connectInProgress_def obstacle_met_def)
  qed (use d in simp)
qed

lemma connecttimeout_obstructed:
  assumes o: "obstructed S fd nb host d" and d: "d \<noteq> Unresolved"
  shows "\<exists>rc w'. connecttimeout S fd a p msec w = (rc, w') \<and> obstacle_met d rc w'"
proof -
  obtain w1 where 1: "setNonBlocking S fd True w = (True, w1)" "nb (w_env w1)"
    using setNonBlocking_mode [OF o, of True w] by auto
  obtain rc w2 where 2: "await_connect S fd a p msec w1 = (rc, w2)" "obstacle_met d rc w2"
    using await_connect_obstructed [OF o 1(2) d] by blast
  obtain w3 where 3: "setNonBlocking S fd False w2 = (True, w3)" using setNonBlocking_mode [OF o] by blast
  show ?thesis
    using 1(1) 2 3 by (auto simp: connecttimeout_def setSocketError_def socketError_def obstacle_met_def split: obstacle.splits)
qed

text \<open>Whatever the timeout, the connector keeps the same message and no descriptor.\<close>

lemma obstructed_dial:
  assumes o: "obstructed S fd nb (host_of server) d" and sv: "\<not> no_server server" "0 < port"
    and d: "d = Unanswered \<Longrightarrow> timeout_ms c \<noteq> 0"
  shows "\<exists>w'. normal_simpleConnect S c s server port w = (False, conn_setError (obstacle_text S d) c, 0, w')"
proof -
  obtain r1 w1 where 1: "call S Sys_socket w = (r1, w1)" by fastforce
  define w2 where "w2 = (if has_so_nosigpipe (sys_build S) then snd (call S (Sys_set_nosigpipe (sr_ret r1)) w1) else w1)"
  obtain ad w3 where 3: "call S (Sys_getaddrinfo (host_of server)) w2 = (ad, w3)" by fastforce
  have f: "sr_ret r1 = fd" "fd \<noteq> 0" using obstructed_call(1) [OF o 1] o by (simp_all add: obstructed_def)
  have "nb (w_env w1) = False" using obstructed_call(2) [OF o 1] by simp
  then have "nb (w_env w2) = False"
    using obstructed_call(2) [OF o, of "Sys_set_nosigpipe fd" w1] f(1)
    by (cases "call S (Sys_set_nosigpipe fd) w1") (simp add: w2_def)
  then have nb: "\<not> nb (w_env w3)" using obstructed_call(2) [OF o 3] by simp
  have eq: "normal_simpleConnect S c s server port w =
      (if sr_ret ad \<noteq> 0 \<or> sr_val ad = 0
       then (False, conn_setError ''Could not resolve domain'' c, 0, closeSocket S fd w3)
       else connect_resolved S c fd (sr_bytes ad) port w3)"
    using sv f by (simp add: normal_simpleConnect_def 1 w2_def [symmetric] 3 Let_def)
  note ad = obstructed_call(1) [OF o 3]
  show ?thesis
  proof (cases "d = Unresolved")
    case True
    then show ?thesis using ad by (auto simp: eq)
  next
    case False
    then have a: "\<not> (sr_ret ad \<noteq> 0 \<or> sr_val ad = 0)" using ad by simp
    obtain cn w4 where 4: "call S (Sys_connect fd (sr_bytes ad) (htons port)) w3 = (cn, w4)" by fastforce
    obtain rc w5 where 5: "connecttimeout S fd (sr_bytes ad) (htons port) (timeout_ms c) w3 = (rc, w5)" "obstacle_met d rc w5"
      using connecttimeout_obstructed [OF o False] by blast
    show ?thesis
      using a False d nb 4 5 obstructed_call(1) [OF o 4] call_errno [OF 4]
      by (cases d) (auto simp: eq connect_resolved_def obstacle_met_def lastSocketError_def)
  qed
qed


text \<open>And nothing is sent on the way.\<close>

lemma setNonBlocking_no_send: "setNonBlocking S s b w = (ok, w') \<Longrightarrow> emits no_send w0 w \<Longrightarrow> emits no_send w0 w'"
  by (auto simp: setNonBlocking_def Let_def frame_back split: prod.splits if_splits)

lemma await_connect_no_send: "await_connect S s a p m w = (v, w') \<Longrightarrow> emits no_send w0 w \<Longrightarrow> emits no_send w0 w'"
  by (auto simp: await_connect_def setSocketError_def Let_def frame_back split: prod.splits if_splits)

lemma connecttimeout_no_send: "connecttimeout S s a p m w = (v, w') \<Longrightarrow> emits no_send w0 w \<Longrightarrow> emits no_send w0 w'"
  by (auto simp: connecttimeout_def setSocketError_def Let_def setNonBlocking_no_send await_connect_no_send
      split: prod.splits if_splits)

lemma emits_snd_call: "emits P w0 w \<Longrightarrow> P k \<Longrightarrow> emits P w0 (snd (call S k w))"
  by (auto intro: emits_trans emits_call)

lemma normal_simpleConnect_no_send:
  "normal_simpleConnect S c s server port w = (ok, c', s', w') \<Longrightarrow> emits no_send w w'"
  by (auto simp: normal_simpleConnect_def connect_resolved_def closeSocket_def setSocketError_def Let_def frame_back
      connecttimeout_no_send emits_snd_call split: prod.splits if_splits)

subsection \<open>The class\<close>

text \<open>Nothing further along the chain is tried when its first connector fails.\<close>

lemma chain_stops_at_first:
  assumes r: "route h p ps" and head: "hp_objs h p = Some (Obj_Normal c)"
    and t: "itinerary (objs_at h ps) server port = (sv, pt) # ts"
    and f: "normal_simpleConnect S c s sv pt w = (False, c', s', w')"
  shows "\<exists>h'. conn_connect S p s server port h w = Some (False, s', h', w')
    \<and> map_option (conn_error \<circ> base_of) (hp_objs h' p) = Some (conn_error c')"
proof -
  have ch: "chain (links h) p (p # ps)" using r by (simp add: route_def)
  have "follow S (objs_at h (p # ps)) (map target_of (objs_at h ps) @ [(server, port)]) s w
      = Some (Some (conn_error c'), s', w')"
    using f head t by (simp add: itinerary_def)
  moreover have "map target_of (objs_at h (tl (p # ps))) = map target_of (objs_at h ps)" by simp
  ultimately show ?thesis
    using conn_connect_chain [OF ch, where S = S and s = s and w = w and server = server and port = port] by auto
qed

lemma ready_is_obstructed:
  assumes ready: "ready s xs" and t: "itinerary xs server port = t # ts"
    and o: "obstructed S fd nb (host_of (fst t)) d" and sv: "\<not> no_server (fst t)" "0 < snd t"
    and d: "d = Unanswered \<Longrightarrow>
      timeout_ms (conn_new\<lparr>conn_tsecs := tcp_tsecs (im_tcp (so_impl s)), conn_tmicro := tcp_tmilli (im_tcp (so_impl s))\<rparr>) \<noteq> 0"
    and a: "opens_with S server port a"
  shows "\<exists>s'. api_step S a s = Some (Ret_bool False, s') \<and> impl_getError (so_impl s') = obstacle_text S d
    \<and> adrift 0 s' \<and> emits no_send (so_world s) (so_world s')"
proof -
  let ?h = "so_heap s" and ?i = "(so_impl s)\<lparr>im_sslerror := [], im_lastserver := host_of server\<rparr>"
  let ?t = "im_tcp (so_impl s)"
  obtain h1 qs c where r: "impl_prepare ?i ?h = Some ((im_tcp ?i)\<lparr>tcp_conn := hp_next ?h\<rparr>, h1)" "route h1 (hp_next ?h) qs"
    "hp_objs h1 (hp_next ?h) = Some (Obj_Normal c)" and t1: "itinerary (objs_at h1 qs) server port = (fst t, snd t) # ts"
    and ms: "timeout_ms c = timeout_ms (conn_new\<lparr>conn_tsecs := tcp_tsecs ?t, conn_tmicro := tcp_tmilli ?t\<rparr>)"
    using ready_route [OF ready t] by auto
  obtain w2 where 2: "normal_simpleConnect S c (tcp_sock (im_tcp ?i)) (fst t) (snd t) (so_world s)
      = (False, conn_setError (obstacle_text S d) c, 0, w2)"
    using obstructed_dial [OF o sv, of c] d ms by metis
  from chain_stops_at_first [OF r(2,3) t1 2] obtain h2 where
    c: "conn_connect S (hp_next ?h) (tcp_sock (im_tcp ?i)) server port h1 (so_world s) = Some (False, 0, h2, w2)"
      "map_option (conn_error \<circ> base_of) (hp_objs h2 (hp_next ?h)) = Some (obstacle_text S d)"
    by (auto simp: conn_setError_def)
  have eq: "impl_connect_with S comm ?i server port ?h (so_world s)
      = Some (False, ?i\<lparr>im_tcp := ?t\<lparr>tcp_conn := hp_next ?h, tcp_sock := 0, tcp_error := obstacle_text S d, tcp_comm :=
          Some (obj_setTimeout (tcp_tsecs ?t) (tcp_tmilli ?t) comm)\<rparr>\<rparr>, h2, w2)" for comm
    using dial_walked(3) [OF ready _ r(1,2) c(1)] c(2) by simp
  note e = normal_simpleConnect_no_send [OF 2]
  from a show ?thesis
    unfolding opens_with_def
  proof
    assume "a = Api_connect server port"
    then show ?thesis
      using e by (simp add: ret_ihw_def impl_connect_def eq impl_getError_def adrift_def unbound_at_def comm_new_def Let_def)
  next
    assume "a = Api_connectSSL server port \<and> using_openssl (sys_build S)"
    then show ?thesis
      using e by (simp add: ret_ihw_def impl_connectSSL_def eq impl_getError_def adrift_def unbound_at_def Let_def
          ssh_setVerifyPeer_def ssh_setHostname_def ssh_new_def comm_new_def comm.defs ssh_comm.defs)
  qed
qed

text \<open>
  C8. A host that cannot be reached is reported for what it is, with and without a timeout: a program
  sets any timeout, inserts any proxies, connects in the clear or with TLS, and the name of the first
  hop does not resolve, or its host refuses (at once, or in a timed connect after a wait), or, in a timed
  connect, never answers. Then the connect returns false, and \<open>getError\<close> is the resolver's failure, the
  system's text for the reason of the refusal, or the time-out: not what \<open>fcntl\<close>, \<open>select\<close> or \<open>close\<close> left in
  \<open>errno\<close>, and never the \<open>EINPROGRESS\<close> of the non-blocking mode. What is then sent or read fails, no byte
  goes out, \<open>close\<close> succeeds and no descriptor is left.
\<close>

theorem unreachable_host_reported:
  assumes ins: "\<forall>a \<in> set ins. inserted a \<noteq> None"
    and t: "itinerary (rev (map made_hop ins)) server port = t # ts"
    and o: "obstructed S fd nb (host_of (fst t)) d" and sv: "\<not> no_server (fst t)" "0 < snd t"
    and d: "d = Unanswered \<Longrightarrow> timeout_ms (conn_new\<lparr>conn_tsecs := secs, conn_tmicro := us\<rparr>) \<noteq> 0"
    and a: "opens_with S server port a" and talk: "\<forall>u \<in> set talk. turn_ok u"
  shows "\<exists>s. api_run S ((Api_setTimeout secs us # ins) @ [a, Api_getError] @ map turn_call talk @ [Api_close]) (socket_new (start e))
        = Some ((Ret_void # map (\<lambda>a. Ret_bool True) ins) @ [Ret_bool False, Ret_error (obstacle_text S d)]
            @ map refused_result talk @ [Ret_bool True], s)
    \<and> (\<forall>x. wire x (so_world s) = []) \<and> opens (so_world s) = closes (so_world s)"
proof -
  obtain s2 where 2: "api_run S (Api_setTimeout secs us # ins) (socket_new (start e)) = Some (Ret_void # map (\<lambda>a. Ret_bool True) ins, s2)"
      "so_world s2 = start e" "tcp_tsecs (im_tcp (so_impl s2)) = secs" "tcp_tmilli (im_tcp (so_impl s2)) = us"
    and ready: "ready s2 (rev (map made_hop ins))" using prepared [OF ins, where S = S and secs = secs and us = us and e = e] by blast
  from ready_is_obstructed [OF ready t o sv _ a, unfolded 2(3,4)] d obtain s3 where
    3: "api_step S a s2 = Some (Ret_bool False, s3)" "impl_getError (so_impl s3) = obstacle_text S d" "adrift 0 s3"
      "emits no_send (so_world s2) (so_world s3)" by blast
  have err: "api_run S [a, Api_getError] s2 = Some ([Ret_bool False, Ret_error (obstacle_text S d)], s3)" using 3(1,2) by simp
  from adrift_talk [OF 3(3) talk] obtain s4 where
    4: "api_run S (map turn_call talk) s3 = Some (map refused_result talk, s4)" "adrift 0 s4" "so_world s4 = so_world s3" by blast
  have z: "tcp_sock (im_tcp (so_impl s4)) = 0" using 4(2) by (simp add: adrift_def unbound_at_def)
  then have 5: "api_step S Api_close s4 = Some (Ret_bool True, s4)" by (simp add: ret_iw_def impl_close_def tcp_close_def)
  have run: "api_run S ((Api_setTimeout secs us # ins) @ [a, Api_getError] @ map turn_call talk @ [Api_close]) (socket_new (start e))
      = Some ((Ret_void # map (\<lambda>a. Ret_bool True) ins) @ [Ret_bool False, Ret_error (obstacle_text S d)]
          @ map refused_result talk @ [Ret_bool True], s4)"
    by (rule api_run_chain [OF 2(1) api_run_chain [OF err api_run_chain [OF 4(1) api_run_one [OF 5]]]])
  have inv2: "socket_inv no_others {#} s2" "tcp_sock (im_tcp (so_impl s2)) = 0" using ready by (simp_all add: ready_def)
  have "socket_inv no_others {#} s3"
    using api_step_inv [OF 3(1) inv2(1)] inv2(2) obstructed_nonzero [OF o] by blast
  then have "socket_inv no_others {#} s4" using talk_run_keeps [OF 4(1)] turn_calls_talk by blast
  then have "opens (so_world s4) = closes (so_world s4)" using z by (simp add: socket_inv_def tcp_books_def fd_books_def)
  moreover have "wire x (so_world s4) = []" for x
    using wire_emits [OF 3(4), of x] by (simp add: 4(3) 2(2)) (simp add: start_def wire_def)
  ultimately show ?thesis using run by blast
qed

text \<open>A worked example: a host that refuses, the environment being the mode of the descriptor.\<close>

fun refusing_step :: "syscall \<Rightarrow> bool \<Rightarrow> sysret \<times> bool" where
  "refusing_step Sys_socket nb = (ans 3, False)"
| "refusing_step (Sys_getaddrinfo h) nb = ((ans 0)\<lparr>sr_val := 1, sr_bytes := [127, 0, 0, 1]\<rparr>, nb)"
| "refusing_step (Sys_getfl s) nb = (ans (if nb then 2050 else 2), nb)"
| "refusing_step (Sys_setfl s fl) nb = ((ans 0)\<lparr>sr_errno := Some 5\<rparr>, fl AND O_NONBLOCK \<noteq> 0)"
| "refusing_step (Sys_connect s a p) nb = ((ans (- 1))\<lparr>sr_errno := Some (if nb then EINPROGRESS else 111)\<rparr>, nb)"
| "refusing_step (Sys_select s rd wr ex tv) nb = ((ans 1)\<lparr>sr_val := 2\<rparr>, nb)"
| "refusing_step (Sys_so_error s) nb = ((ans 0)\<lparr>sr_val := 111\<rparr>, nb)"
| "refusing_step k nb = ((ans 0)\<lparr>sr_errno := Some 4\<rparr>, nb)"

definition refusing_sys :: "bool sys" where
  "refusing_sys = \<lparr>sys_step = refusing_step, sys_strerror = (\<lambda>n. ''error '' @ dec_int n), sys_build = linux\<rparr>"

lemma obstructed_refusing: "obstructed refusing_sys 3 (\<lambda>nb. nb) host (Refused 111)"
  by (auto simp: obstructed_def setup_calls_def refusing_sys_def ans_def fd_isset_write_def EINPROGRESS_def EWOULDBLOCK_def)

lemma unreachable_host_reported_witness:
  "\<exists>s s'. api_run refusing_sys [Api_setTimeout 5 0, Api_insertProxy (Some ''p'') 8080, Api_connectSSL (Some ''h'') 443,
        Api_getError, Api_sends (Some (line_bytes [104])), Api_close] (socket_new (start False))
      = Some ([Ret_void, Ret_bool True, Ret_bool False, Ret_error (''error '' @ dec_int 111), Ret_bool False, Ret_bool True], s)
    \<and> opens (so_world s) = closes (so_world s)
    \<and> api_run refusing_sys [Api_setTimeout 0 0, Api_connect (Some ''h'') 443, Api_getError, Api_close] (socket_new (start False))
      = Some ([Ret_void, Ret_bool False, Ret_error (''error '' @ dec_int 111), Ret_bool True], s')"
proof -
  have t: "itinerary (rev (map made_hop [Api_insertProxy (Some ''p'') 8080])) (Some ''h'') 443
      = (Some ''p'', 8080) # [(Some ''h'', 443)]" "itinerary [] (Some ''h'') 443 = (Some ''h'', 443) # []"
    by (simp_all add: itinerary_def made_hop_def target_of_def conn_setPort_def conn_setServer_def host_of_def)
  have a: "opens_with refusing_sys (Some ''h'') 443 (Api_connectSSL (Some ''h'') 443)"
    "opens_with refusing_sys (Some ''h'') 443 (Api_connect (Some ''h'') 443)"
    by (simp_all add: opens_with_def refusing_sys_def linux_def)
  have e: "obstacle_text refusing_sys (Refused 111) = ''error '' @ dec_int 111" by (simp add: refusing_sys_def)
  from unreachable_host_reported [where ins = "[Api_insertProxy (Some ''p'') 8080]" and secs = 5 and us = 0 and e = False
      and talk = "[Say [104]]", OF _ t(1) obstructed_refusing _ _ _ a(1)]
    unreachable_host_reported [where ins = "[]" and secs = 0 and us = 0 and e = False and talk = "[]",
      OF _ _ obstructed_refusing _ _ _ a(2), of "(Some ''h'', 443)" "[]"] t(2) e
  show ?thesis by (auto simp: no_server_def line_bytes_def plain_line_def simp del: api_run.simps)
qed

end
