(* ===== verification/Example_Demo.thy ===== *)
theory Example_Demo
  imports Socket_Phases
begin

text \<open>
  The example program (src/examples/demo.cpp): a plain and a secure request, each over a \<open>Socket\<close> of
  its own that the end of its block, or the early return, destroys. It is modelled over the calls of
  the class, so what holds of every use of a \<open>Socket\<close> gives what holds of the program.
\<close>

subsection \<open>The program\<close>

text \<open>What is written: a prefix, the status line and a suffix on the standard output, or a message
  and the socket's error on the error output.\<close>

datatype printed = Cout string "byte list" string | Cerr string string

fun error_text :: "api_result \<Rightarrow> string" where
  "error_text (Ret_error e) = e"
| "error_text r = []"

definition demo_request :: "byte list" where
  "demo_request = map (\<lambda>c. of_nat (of_char c))
     (''GET / HTTP/1.0'' @ [CHR 13, CHR 10] @ ''Host: example.com'' @ [CHR 13, CHR 10]
      @ ''Connection: close'' @ [CHR 13, CHR 10, CHR 13, CHR 10])"

text \<open>A failure: the message goes out with the socket's error, and \<open>main\<close> returns 1.\<close>

definition demo_failed ::
  "'e sys \<Rightarrow> string \<Rightarrow> 'e socket \<Rightarrow> (int option \<times> printed list \<times> 'e socket) option" where
  "demo_failed S msg s = do {
     (e, s) \<leftarrow> api_step S Api_getError s;
     Some (Some 1, [Cerr msg (error_text e)], s)
   }"

text \<open>The part of a block after the connection: request, status line, \<open>close\<close>.\<close>

definition demo_exchange ::
  "'e sys \<Rightarrow> string \<Rightarrow> string \<Rightarrow> 'e socket \<Rightarrow> (int option \<times> printed list \<times> 'e socket) option" where
  "demo_exchange S tag tail s = do {
     (_, s) \<leftarrow> api_step S (Api_sends (Some demo_request)) s;
     (status, s) \<leftarrow> api_step S Api_readline s;
     (case status of
        Ret_text (Some line) \<Rightarrow> do {
          (_, s) \<leftarrow> api_step S Api_close s;
          Some (None, [Cout tag line tail], s)
        }
      | _ \<Rightarrow> demo_failed S ''read failed: '' s)
   }"

text \<open>The two blocks: the value \<open>main\<close> returns, if the block returns one, the output, and the world
  after the socket's destructor.\<close>

definition demo_http :: "'e sys \<Rightarrow> 'e world \<Rightarrow> (int option \<times> printed list \<times> 'e world) option" where
  "demo_http S w = do {
     (_, s) \<leftarrow> api_step S (Api_setTimeout 10 0) (socket_new w);
     (ok, s) \<leftarrow> api_step S (Api_connect (Some ''example.com'') 80) s;
     (rc, out, s) \<leftarrow> (if ok = Ret_bool False then demo_failed S ''connect failed: '' s
                      else demo_exchange S ''[http]  '' [] s);
     (h, w) \<leftarrow> socket_delete S s;
     Some (rc, out, w)
   }"

definition demo_https :: "'e sys \<Rightarrow> 'e world \<Rightarrow> (int option \<times> printed list \<times> 'e world) option" where
  "demo_https S w = do {
     (_, s) \<leftarrow> api_step S (Api_setTimeout 10 0) (socket_new w);
     (ok, s) \<leftarrow> api_step S (Api_connectSSL (Some ''example.com'') 443) s;
     (rc, out, s) \<leftarrow> (if ok = Ret_bool False then demo_failed S ''connectSSL failed: '' s
                      else demo_exchange S ''[https] '' '' (certificate verified)'' s);
     (h, w) \<leftarrow> socket_delete S s;
     Some (rc, out, w)
   }"

definition demo_main :: "'e sys \<Rightarrow> 'e world \<Rightarrow> (int \<times> printed list \<times> 'e world) option" where
  "demo_main S w = do {
     (rc, out, w) \<leftarrow> demo_http S w;
     (case rc of
        Some n \<Rightarrow> Some (n, out, w)
      | None \<Rightarrow>
          if using_openssl (sys_build S) then do {
            (rc, out', w) \<leftarrow> demo_https S w;
            Some (case rc of Some n \<Rightarrow> n | None \<Rightarrow> 0, out @ out', w)
          }
          else Some (0, out @ [Cout ''[https] skipped - built without SSL support'' [] []], w))
   }"

subsection \<open>One socket after another\<close>

text \<open>A world with nothing left open, and the sockets made and destroyed in it.\<close>

definition balanced :: "'e world \<Rightarrow> bool" where
  "balanced w \<longleftrightarrow> opens w = closes w \<and> owned_closes w \<and> tls_books no_others {#} {#} w"

lemma balanced_start: "balanced (start e)"
  by (simp add: balanced_def start_def opens_def closes_def ledger_def tls_books_def owned_closes_def)

text \<open>The invariant of a use of a socket that has lost no descriptor.\<close>

definition tidy :: "'e socket \<Rightarrow> bool" where
  "tidy s \<longleftrightarrow> socket_inv no_others {#} s"

lemma tidy_new: "balanced w \<Longrightarrow> tidy (socket_new w)"
  using impl_ok_new
  by (simp add: tidy_def balanced_def socket_inv_def socket_new_def tcp_books_def impl_new_def tcp_new_def fd_books_def)

lemma tidy_step: "api_step S a s = Some (r, s') \<Longrightarrow> \<not> connects a \<Longrightarrow> tidy s \<Longrightarrow> tidy s'"
  using api_step_inv [of S a s r s'] unfolding tidy_def by blast

lemma tidy_dial:
  "api_step S a s = Some (r, s') \<Longrightarrow> socket_nonzero S \<Longrightarrow> tcp_sock (im_tcp (so_impl s)) = 0 \<Longrightarrow> tidy s \<Longrightarrow> tidy s'"
  using api_step_inv [of S a s r s'] unfolding tidy_def by blast

lemma tidy_delete: "tidy s \<Longrightarrow> socket_delete S s = Some (h, w) \<Longrightarrow> balanced w"
  using socket_delete_inv [of no_others "{#}" s S] unfolding tidy_def balanced_def by auto

lemma demo_failed_tidy:
  "demo_failed S msg s = Some (rc, out, s') \<Longrightarrow> tidy s \<Longrightarrow> tidy s' \<and> rc = Some 1"
  by (auto simp: demo_failed_def)

lemma demo_exchange_tidy:
  assumes ex: "demo_exchange S tag tail s = Some (rc, out, s')" and s: "tidy s"
  shows "tidy s' \<and> (rc = None \<or> rc = Some 1)"
proof -
  obtain r1 s1 r2 s2 where 1: "api_step S (Api_sends (Some demo_request)) s = Some (r1, s1)"
    and 2: "api_step S Api_readline s1 = Some (r2, s2)"
    using ex by (auto simp: demo_exchange_def simp del: api_step.simps split: bind_splits)
  have t2: "tidy s2" using tidy_step [OF 2] tidy_step [OF 1] s by simp
  consider line where "r2 = Ret_text (Some line)" | "demo_failed S ''read failed: '' s2 = Some (rc, out, s')"
    using ex 1 2 by (auto simp: demo_exchange_def simp del: api_step.simps split: api_result.splits option.splits)
  then show ?thesis
  proof cases
    case 1
    then obtain r3 where "api_step S Api_close s2 = Some (r3, s')" "rc = None"
      using ex \<open>api_step S (Api_sends _) s = _\<close> 2
      by (auto simp: demo_exchange_def simp del: api_step.simps split: bind_splits)
    then show ?thesis using tidy_step [of S Api_close s2 r3 s'] t2 by simp
  next
    case 2
    then show ?thesis using demo_failed_tidy t2 by blast
  qed
qed

lemma setTimeout_unconnected:
  assumes "api_step S (Api_setTimeout n m) (socket_new w) = Some (r, s)"
  shows "tcp_sock (im_tcp (so_impl s)) = 0"
  using view_quiet [OF assms] by (simp add: tcp_view_def socket_new_def impl_new_def tcp_new_def)

lemma demo_block_balanced:
  assumes "api_step S (Api_setTimeout n m) (socket_new w) = Some (r0, s0)" "api_step S a s0 = Some (ok, s1)"
    and "(if ok = Ret_bool False then demo_failed S msg s1 else demo_exchange S tag tail s1) = Some (rc, out, s2)"
    and "socket_delete S s2 = Some (h, w')" "balanced w" "socket_nonzero S"
  shows "balanced w' \<and> (rc = None \<or> rc = Some 1)"
proof -
  have "tidy s0" using tidy_step [OF assms(1)] tidy_new [OF assms(5)] by simp
  from tidy_dial [OF assms(2,6) setTimeout_unconnected [OF assms(1)] this] have "tidy s1" .
  with assms(3) have "tidy s2 \<and> (rc = None \<or> rc = Some 1)"
    using demo_failed_tidy [of S msg s1 rc out s2] demo_exchange_tidy [of S tag tail s1 rc out s2]
    by (auto split: if_splits)
  then show ?thesis using tidy_delete [OF _ assms(4)] by blast
qed

lemma demo_blocks_balanced:
  assumes "balanced w" "socket_nonzero S"
  shows "demo_http S w = Some (rc, out, w') \<Longrightarrow> balanced w' \<and> (rc = None \<or> rc = Some 1)"
    "demo_https S w = Some (rc, out, w') \<Longrightarrow> balanced w' \<and> (rc = None \<or> rc = Some 1)"
proof -
  show "balanced w' \<and> (rc = None \<or> rc = Some 1)" if b: "demo_http S w = Some (rc, out, w')"
  proof -
    obtain r0 s0 ok s1 s2 h where "api_step S (Api_setTimeout 10 0) (socket_new w) = Some (r0, s0)"
      "api_step S (Api_connect (Some ''example.com'') 80) s0 = Some (ok, s1)"
      "(if ok = Ret_bool False then demo_failed S ''connect failed: '' s1
        else demo_exchange S ''[http]  '' [] s1) = Some (rc, out, s2)" "socket_delete S s2 = Some (h, w')"
      using b by (auto simp: demo_http_def bind_eq_Some_conv simp del: api_step.simps)
    from demo_block_balanced [OF this assms] show ?thesis .
  qed
  show "balanced w' \<and> (rc = None \<or> rc = Some 1)" if b: "demo_https S w = Some (rc, out, w')"
  proof -
    obtain r0 s0 ok s1 s2 h where "api_step S (Api_setTimeout 10 0) (socket_new w) = Some (r0, s0)"
      "api_step S (Api_connectSSL (Some ''example.com'') 443) s0 = Some (ok, s1)"
      "(if ok = Ret_bool False then demo_failed S ''connectSSL failed: '' s1
        else demo_exchange S ''[https] '' '' (certificate verified)'' s1) = Some (rc, out, s2)"
      "socket_delete S s2 = Some (h, w')"
      using b by (auto simp: demo_https_def bind_eq_Some_conv simp del: api_step.simps)
    from demo_block_balanced [OF this assms] show ?thesis .
  qed
qed

text \<open>
  C40. The example leaves nothing behind: on any system whose \<open>socket\<close> never answers 0, whichever of its
  two requests fails and wherever, when \<open>main\<close> returns (0 or 1) every descriptor opened has been closed
  once and every OpenSSL handle made has been freed.
\<close>

theorem demo_leaves_nothing_open:
  assumes "demo_main S w = Some (rc, out, w')" "balanced w" "socket_nonzero S"
  shows "balanced w' \<and> (rc = 0 \<or> rc = 1)"
proof -
  obtain rc1 out1 w1 where 1: "demo_http S w = Some (rc1, out1, w1)"
    using assms(1) by (auto simp: demo_main_def split: bind_splits)
  note b1 = demo_blocks_balanced(1) [OF assms(2,3) 1]
  then show ?thesis
    using assms(1) 1 demo_blocks_balanced(2) [OF conjunct1 [OF b1] assms(3)]
    by (auto simp: demo_main_def split: bind_splits if_splits option.splits)
qed

text \<open>A run on a stream that carries two status lines.\<close>

lemma demo_main_stream:
  "\<exists>w. demo_main stream_sys (start [79, 75, 13, 10, 79, 75, 13, 10])
    = Some (0, [Cout ''[http]  '' [79, 75] [], Cout ''[https] '' [79, 75] '' (certificate verified)''], w)"
  by (simp add: run demo_main_def demo_http_def demo_https_def demo_exchange_def demo_request_def Let_def cong: bind_weak_cong)

lemma demo_leaves_nothing_open_witness:
  "\<exists>w. demo_main stream_sys (start [79, 75, 13, 10, 79, 75, 13, 10])
      = Some (0, [Cout ''[http]  '' [79, 75] [], Cout ''[https] '' [79, 75] '' (certificate verified)''], w)
    \<and> balanced w"
  using demo_main_stream demo_leaves_nothing_open [OF _ balanced_start stream_nonzero] by blast

end
