(* ===== verification/Test_Programs.thy ===== *)
theory Test_Programs
  imports Line_Loop Socket_Unreachable Connect_Messages Example_Demo
begin

text \<open>
  Tests of the library as programs over the class: the blocks of tests/test\_contract.cpp,
  test\_readline\_eof.cpp and test\_socket\_lifetime.cpp whose peer, if any, sends a text and closes, or
  cannot be reached, and the comparison of test\_connect\_error.cpp. A block is the calls on one
  \<open>Socket\<close>, each with the \<open>CHECK\<close> on its result; it ends with the destructor.
\<close>

subsection \<open>Blocks of checks\<close>

type_synonym check = "api \<times> (api_result \<Rightarrow> bool)"

definition run_block :: "'e sys \<Rightarrow> check list \<Rightarrow> 'e world \<Rightarrow> (bool \<times> 'e world) option" where
  "run_block S cs w = do {
     (rs, s) \<leftarrow> api_run S (map fst cs) (socket_new w);
     (h, w) \<leftarrow> socket_delete S s;
     Some (list_all2 (\<lambda>c r. snd c r) cs rs, w)
   }"

definition no_check :: "api_result \<Rightarrow> bool" where
  "no_check r = True"

definition is_bool :: "bool \<Rightarrow> api_result \<Rightarrow> bool" where
  "is_bool b r = (r = Ret_bool b)"

definition is_null :: "api_result \<Rightarrow> bool" where
  "is_null r = (r = Ret_text None)"

definition is_text :: "string \<Rightarrow> api_result \<Rightarrow> bool" where
  "is_text t r = (r = Ret_text (Some (bytes_of t)))"

fun is_count_failed :: "api_result \<Rightarrow> bool" where
  "is_count_failed (Ret_int rc) = (rc \<le> 0)"
| "is_count_failed (Ret_data rc bs) = (rc \<le> 0)"
| "is_count_failed r = False"

fun has_text :: "api_result \<Rightarrow> bool" where
  "has_text (Ret_error e) = (e \<noteq> [])"
| "has_text r = False"

text \<open>
  test\_contract.cpp: a fresh \<open>getError\<close>, operations before a connection exists, \<open>close\<close> without one and
  twice, a null host. \<open>getError\<close> never returns null, so most of its checks have nothing to say here.
\<close>

definition contract_fresh :: "check list" where
  "contract_fresh = [(Api_getError, no_check)]"

definition contract_unconnected :: "check list" where
  "contract_unconnected =
     [(Api_read 64, is_count_failed), (Api_send [0x78], is_count_failed), (Api_sends (Some [0x78]), is_bool False),
      (Api_reads, no_check), (Api_readline, no_check), (Api_getError, no_check)]"

definition contract_close :: "check list" where
  "contract_close = [(Api_close, no_check), (Api_close, no_check), (Api_getError, no_check)]"

definition contract_no_host :: "check list" where
  "contract_no_host = [(Api_setTimeout 5 0, no_check), (Api_connect None 80, is_bool False), (Api_getError, no_check)]"

text \<open>test\_socket\_lifetime.cpp: \<open>close\<close> on a socket that was never connected.\<close>

definition lifetime_unconnected :: "check list" where
  "lifetime_unconnected = [(Api_close, is_bool True), (Api_getError, no_check)]"

text \<open>test\_contract.cpp: a refused connection and a host without an address.\<close>

definition failing_checks :: "string \<Rightarrow> int \<Rightarrow> check list" where
  "failing_checks host port = [(Api_setTimeout 5 0, no_check), (Api_connect (Some host) port, is_bool False),
     (Api_getError, no_check), (Api_getError, has_text)]"

definition contract_refused :: "int \<Rightarrow> check list" where
  "contract_refused port = failing_checks ''127.0.0.1'' port"

definition contract_unresolved :: "check list" where
  "contract_unresolved = failing_checks ''no-such-host.invalid'' 80"

text \<open>test\_connect\_error.cpp, \<open>refusalError\<close>: whether the check held, and what \<open>getError\<close> said.\<close>

definition refusalError :: "'e sys \<Rightarrow> int \<Rightarrow> bool \<Rightarrow> 'e world \<Rightarrow> (bool \<times> api_result \<times> 'e world) option" where
  "refusalError S port withTimeout w = do {
     (rs, s) \<leftarrow> api_run S ((if withTimeout then [Api_setTimeout 5 0] else [])
       @ [Api_connect (Some ''127.0.0.1'') port, Api_getError]) (socket_new w);
     (h, w) \<leftarrow> socket_delete S s;
     Some (is_bool False (last (butlast rs)), last rs, w)
   }"

text \<open>The blocks with a peer: the connection, and then what is checked over it.\<close>

definition dial_checks :: "int \<Rightarrow> int \<Rightarrow> check list" where
  "dial_checks secs port = [(Api_setTimeout secs 0, no_check), (Api_connect (Some ''127.0.0.1'') port, is_bool True)]"

text \<open>test\_readline\_eof.cpp: two lines, a dangling line, and \<open>reads\<close>, each up to the end and past it.\<close>

definition eof_lines :: "int \<Rightarrow> check list" where
  "eof_lines port = dial_checks 10 port
     @ [(Api_readline, is_text ''line one''), (Api_readline, is_text ''line two''), (Api_readline, is_null),
        (Api_readline, is_null), (Api_close, no_check)]"

definition eof_dangling :: "int \<Rightarrow> check list" where
  "eof_dangling port = dial_checks 10 port
     @ [(Api_readline, is_text ''complete''), (Api_readline, is_text ''dangling''), (Api_readline, is_null),
        (Api_close, no_check)]"

definition eof_reads :: "int \<Rightarrow> check list" where
  "eof_reads port = dial_checks 10 port
     @ [(Api_reads, is_text ''payload''), (Api_reads, is_null), (Api_close, no_check)]"

text \<open>test\_socket\_lifetime.cpp: \<open>close\<close> again and again; test\_contract.cpp: a null text.\<close>

definition lifetime_close :: "int \<Rightarrow> check list" where
  "lifetime_close port = dial_checks 5 port
     @ [(Api_close, is_bool True), (Api_close, is_bool True), (Api_close, is_bool True)]"

definition contract_null :: "int \<Rightarrow> check list" where
  "contract_null port = dial_checks 5 port
     @ [(Api_sends None, is_bool False), (Api_getError, no_check), (Api_getError, has_text), (Api_close, no_check)]"

text \<open>Each with the bytes its peer sends.\<close>

definition crlf :: string where
  "crlf = [CHR 0x0D, CHR 0x0A]"

definition peer_blocks :: "int \<Rightarrow> (check list \<times> byte list) list" where
  "peer_blocks port =
     [(eof_lines port, bytes_of (''line one'' @ crlf @ ''line two'' @ crlf)),
      (eof_dangling port, bytes_of (''complete'' @ crlf @ ''dangling'')),
      (eof_reads port, bytes_of ''payload''),
      (lifetime_close port, bytes_of (''hello'' @ [CHR 0x0A])),
      (contract_null port, [])]"

definition quiet_blocks :: "check list list" where
  "quiet_blocks = [contract_fresh, contract_unconnected, contract_close, contract_no_host, lifetime_unconnected]"

definition away_blocks :: "int \<Rightarrow> (check list \<times> string) list" where
  "away_blocks port = [(contract_refused port, ''127.0.0.1''), (contract_unresolved, ''no-such-host.invalid'')]"

subsection \<open>Texts off a stream\<close>

text \<open>What any sequence of \<open>readline\<close> and \<open>reads\<close> returns is a function of the peer's stream.\<close>

fun texts_off :: "api list \<Rightarrow> byte list \<Rightarrow> api_result list" where
  "texts_off [] bs = []"
| "texts_off (a # as) bs =
     (let (text, rest, found) = (if a = Api_readline then scan_line [] 0 bs else scan_all [] bs)
      in Ret_text (if found \<or> text \<noteq> [] then Some (c_str text) else None) # texts_off as rest)"

definition linked_at :: "'e sys \<Rightarrow> ('e \<Rightarrow> byte list) \<Rightarrow> int \<Rightarrow> 'e socket \<Rightarrow> bool" where
  "linked_at S rx fd s \<longleftrightarrow> socket_linked S rx fd s \<and> tcp_sock (im_tcp (so_impl s)) = fd"

lemma text_step:
  assumes l: "linked_at S rx fd s" and a: "a \<in> {Api_readline, Api_reads}"
    and sc: "(if a = Api_readline then scan_line [] 0 (rx (w_env (so_world s))) else scan_all [] (rx (w_env (so_world s))))
      = (tx, rest, found)"
  shows "\<exists>s'. api_step S a s = Some (Ret_text (if found \<or> tx \<noteq> [] then Some (c_str tx) else None), s')
    \<and> linked_at S rx fd s' \<and> rx (w_env (so_world s')) = rest"
proof -
  have t: "tcp_linked S rx fd (im_tcp (so_impl s))" using l by (simp add: linked_at_def socket_linked_def)
  obtain s' where s': "api_step S a s = Some (Ret_text (if found \<or> tx \<noteq> [] then Some (c_str tx) else None), s')"
    "socket_linked S rx fd s'" "rx (w_env (so_world s')) = rest"
  proof (cases "a = Api_readline")
    case True
    then show thesis
      using tcp_readline_scan [OF t, of "so_world s" tx rest found] sc that
      by (auto simp: ret_iw_def impl_readline_def socket_linked_def)
  next
    case False
    then show thesis
      using tcp_reads_scan [OF t, of "so_world s" tx rest found] sc a that
      by (auto simp: ret_iw_def impl_reads_def socket_linked_def)
  qed
  have "same_layer a" using a by auto
  from view_quiet [OF s'(1) this] l have "tcp_sock (im_tcp (so_impl s')) = fd"
    by (simp add: tcp_view_def linked_at_def)
  with s' show ?thesis by (auto simp: linked_at_def)
qed

lemma texts_run:
  "linked_at S rx fd s \<Longrightarrow> set as \<subseteq> {Api_readline, Api_reads} \<Longrightarrow>
   \<exists>s'. api_run S as s = Some (texts_off as (rx (w_env (so_world s))), s') \<and> linked_at S rx fd s'"
proof (induction as arbitrary: s)
  case (Cons a as)
  obtain tx rest found where sc: "(if a = Api_readline then scan_line [] 0 (rx (w_env (so_world s)))
      else scan_all [] (rx (w_env (so_world s)))) = (tx, rest, found)" by (rule prod_cases3)
  from text_step [OF Cons.prems(1) _ sc] Cons.prems(2) obtain s1 where
    1: "api_step S a s = Some (Ret_text (if found \<or> tx \<noteq> [] then Some (c_str tx) else None), s1)"
      "linked_at S rx fd s1" "rx (w_env (so_world s1)) = rest" by auto
  from Cons.IH [OF 1(2)] Cons.prems(2) 1(1,3) show ?case by (auto simp: sc simp del: api_step.simps)
qed simp

lemma null_run:
  assumes "linked_at S rx fd s"
  shows "\<exists>s' e. api_run S [Api_sends None, Api_getError, Api_getError] s
      = Some ([Ret_bool False, Ret_error e, Ret_error e], s') \<and> e \<noteq> [] \<and> linked_at S rx fd s'"
  using assms
  by (auto simp: ret_iw_def impl_sends_def tcp_sends_def impl_getError_def linked_at_def socket_linked_def
      tcp_linked_def tcp_setError_def)

subsection \<open>The blocks pass\<close>

lemma dial_checks_run:
  assumes host: "reachable_host S fd rx ip (Some ''127.0.0.1'', port) secs 0"
  shows "\<exists>s. api_run S (map fst (dial_checks secs port)) (socket_new (start e)) = Some ([Ret_void, Ret_bool True], s)
    \<and> linked_at S rx fd s \<and> rx (w_env (so_world s)) = rx e \<and> tidy s"
proof -
  obtain s1 where 1: "api_run S [Api_setTimeout secs 0] (socket_new (start e)) = Some ([Ret_void], s1)" "ready s1 []"
    "so_world s1 = start e" "tcp_tsecs (im_tcp (so_impl s1)) = secs" "tcp_tmilli (im_tcp (so_impl s1)) = 0"
    using prepared [of "[]" S secs 0 e] by auto
  have t: "itinerary [] (Some ''127.0.0.1'') port = (Some ''127.0.0.1'', port) # []" by (simp add: itinerary_def)
  have h: "reachable_host S fd rx ip (Some ''127.0.0.1'', port) (tcp_tsecs (im_tcp (so_impl s1))) (tcp_tmilli (im_tcp (so_impl s1)))"
    using host 1(4,5) by simp
  from ready_connects [OF 1(2) t h chain_talk.talk_end, of "rx e"] obtain s2 where
    2: "api_step S (Api_connect (Some ''127.0.0.1'') port) s1 = Some (Ret_bool True, s2)" "socket_linked S rx fd s2"
      "tcp_sock (im_tcp (so_impl s2)) = fd" "rx (w_env (so_world s2)) = rx e" by (auto simp: 1(3) start_def)
  have "tidy s1" "tcp_sock (im_tcp (so_impl s1)) = 0" using 1(2) by (simp_all add: ready_def tidy_def)
  moreover have "socket_nonzero S" using host accepting_nonzero by (auto simp: reachable_host_def)
  ultimately have "tidy s2" using tidy_dial [OF 2(1)] by blast
  then show ?thesis
    using 2 api_run_chain [OF 1(1) api_run_one [OF 2(1)]] by (auto simp: dial_checks_def linked_at_def)
qed

text \<open>A block with a peer: its checks hold if those between the connection and \<open>close\<close> do.\<close>

lemma peer_block_passes:
  assumes host: "reachable_host S fd rx ip (Some ''127.0.0.1'', port) secs 0"
    and body: "\<And>s. linked_at S rx fd s \<Longrightarrow> rx (w_env (so_world s)) = rx e \<Longrightarrow>
        \<exists>rs s'. api_run S (map fst cs) s = Some (rs, s') \<and> list_all2 (\<lambda>c r. snd c r) cs rs \<and> linked_at S rx fd s'"
    and quiet: "\<forall>c \<in> set cs. \<not> connects (fst c)" and P: "P (Ret_bool True)"
  shows "\<exists>w. run_block S (dial_checks secs port @ cs @ (Api_close, P) # replicate n (Api_close, is_bool True)) (start e)
      = Some (True, w) \<and> balanced w"
proof -
  obtain s1 where 1: "api_run S (map fst (dial_checks secs port)) (socket_new (start e)) = Some ([Ret_void, Ret_bool True], s1)"
    "linked_at S rx fd s1" "rx (w_env (so_world s1)) = rx e" "tidy s1"
    using dial_checks_run [OF host] by blast
  obtain rs s2 where 2: "api_run S (map fst cs) s1 = Some (rs, s2)" "list_all2 (\<lambda>c r. snd c r) cs rs" "linked_at S rx fd s2"
    using body [OF 1(2,3)] by blast
  obtain host waits where acc: "accepting S fd rx host waits" using host by (auto simp: reachable_host_def)
  from close_linked [OF _ _ acc, of s2] 2(3) obtain s3 where
    3: "api_step S Api_close s2 = Some (Ret_bool True, s3)" "tcp_sock (im_tcp (so_impl s3)) = 0"
    by (auto simp: linked_at_def)
  have again: "api_run S (replicate n Api_close) s3 = Some (replicate n (Ret_bool True), s3)"
    using 3(2) by (induction n) (simp_all add: ret_iw_def impl_close_def tcp_close_def)
  let ?cs = "dial_checks secs port @ cs @ (Api_close, P) # replicate n (Api_close, is_bool True)"
  let ?rs = "[Ret_void, Ret_bool True] @ rs @ Ret_bool True # replicate n (Ret_bool True)"
  have run: "api_run S (map fst ?cs) (socket_new (start e)) = Some (?rs, s3)"
    using api_run_chain [OF 1(1) api_run_chain [OF 2(1) api_run_chain [OF api_run_one [OF 3(1)] again]]] by simp
  have again_ok: "list_all2 (\<lambda>c r. snd c r) (replicate n (Api_close, is_bool True)) (replicate n (Ret_bool True))"
    by (induction n) (simp_all add: is_bool_def)
  have ok: "list_all2 (\<lambda>c r. snd c r) ?cs ?rs"
    using 2(2) P again_ok by (intro list_all2_appendI) (simp_all add: dial_checks_def no_check_def is_bool_def)
  have "tidy s2"
    by (rule api_run_keeps [where I = tidy, OF 2(1) 1(4)]) (use quiet tidy_step in fastforce)
  then have "tidy s3" using tidy_step [OF 3(1)] by simp
  moreover obtain h w where d: "socket_delete S s3 = Some (h, w)"
    using socket_delete_inv [of no_others "{#}" s3 S] \<open>tidy s3\<close> by (auto simp: tidy_def)
  ultimately have "balanced w" using tidy_delete by blast
  then show ?thesis using run ok d by (simp add: run_block_def)
qed

lemma text_block_passes:
  assumes "reachable_host S fd rx ip (Some ''127.0.0.1'', port) secs 0"
    and "fst ` set cs \<subseteq> {Api_readline, Api_reads}" "list_all2 (\<lambda>c r. snd c r) cs (texts_off (map fst cs) (rx e))"
    and "P (Ret_bool True)"
  shows "\<exists>w. run_block S (dial_checks secs port @ cs @ (Api_close, P) # replicate n (Api_close, is_bool True)) (start e)
      = Some (True, w) \<and> balanced w"
  by (rule peer_block_passes [OF assms(1)])
    (use assms(2-4) texts_run [where as = "map fst cs" and S = S and rx = rx and fd = fd] in fastforce)+

lemmas check_simps = no_check_def is_bool_def is_null_def is_text_def

lemma peer_blocks_pass:
  assumes host: "\<And>secs. secs \<in> {5, 10} \<Longrightarrow> reachable_host S fd rx ip (Some ''127.0.0.1'', port) secs 0"
    and b: "(cs, bs) \<in> set (peer_blocks port)" "rx e = bs"
  shows "\<exists>w. run_block S cs (start e) = Some (True, w) \<and> balanced w"
proof -
  note tb = text_block_passes [where S = S and fd = fd and rx = rx and ip = ip and port = port and e = e, OF host]
  from b(1) b(2) consider
      "cs = eof_lines port" "rx e = bytes_of (''line one'' @ crlf @ ''line two'' @ crlf)"
    | "cs = eof_dangling port" "rx e = bytes_of (''complete'' @ crlf @ ''dangling'')"
    | "cs = eof_reads port" "rx e = bytes_of ''payload''" | "cs = lifetime_close port" | "cs = contract_null port"
    by (auto simp: peer_blocks_def)
  then show ?thesis
  proof cases
    case 1
    then show ?thesis
      using tb [of 10 "[(Api_readline, is_text ''line one''), (Api_readline, is_text ''line two''), (Api_readline, is_null),
          (Api_readline, is_null)]" no_check 0]
      by (simp add: eof_lines_def check_simps crlf_def bytes_of_def c_str_def)
  next
    case 2
    then show ?thesis
      using tb [of 10 "[(Api_readline, is_text ''complete''), (Api_readline, is_text ''dangling''), (Api_readline, is_null)]"
          no_check 0]
      by (simp add: eof_dangling_def check_simps crlf_def bytes_of_def c_str_def)
  next
    case 3
    then show ?thesis
      using tb [of 10 "[(Api_reads, is_text ''payload''), (Api_reads, is_null)]" no_check 0]
      by (simp add: eof_reads_def check_simps bytes_of_def c_str_def)
  next
    case 4
    then show ?thesis
      using tb [of 5 "[]" "is_bool True" 2] by (simp add: lifetime_close_def check_simps numeral_2_eq_2)
  next
    case 5
    have "\<exists>w. run_block S (dial_checks 5 port @ [(Api_sends None, is_bool False), (Api_getError, no_check), (Api_getError, has_text)]
        @ (Api_close, no_check) # replicate 0 (Api_close, is_bool True)) (start e) = Some (True, w) \<and> balanced w"
      by (rule peer_block_passes [OF host])
        (use null_run [of S rx fd] in \<open>fastforce simp: check_simps simp del: api_run.simps\<close>)+
    then show ?thesis using 5 by (simp add: contract_null_def)
  qed
qed

subsection \<open>Hosts that cannot be reached\<close>

lemma fresh_timeout: "api_step S (Api_setTimeout 0 0) (socket_new w) = Some (Ret_void, socket_new w)"
  by (simp add: socket_new_def impl_setTimeout_def tcp_setTimeout_def impl_new_def tcp_new_def)

text \<open>One attempt at a host, whatever the timeout, and the destructor.\<close>

lemma attempt_fails:
  assumes o: "obstructed S fd nb host d" "host \<noteq> []" "0 < port"
    and d: "d = Unanswered \<Longrightarrow> timeout_ms (conn_new\<lparr>conn_tsecs := secs, conn_tmicro := us\<rparr>) \<noteq> 0"
  shows "\<exists>s h w. api_run S [Api_setTimeout secs us, Api_connect (Some host) port, Api_getError] (socket_new (start e))
      = Some ([Ret_void, Ret_bool False, Ret_error (obstacle_text S d)], s)
    \<and> impl_getError (so_impl s) = obstacle_text S d \<and> socket_delete S s = Some (h, w) \<and> balanced w"
proof -
  obtain s1 where 1: "api_step S (Api_setTimeout secs us) (socket_new (start e)) = Some (Ret_void, s1)" "ready s1 []"
    "tcp_tsecs (im_tcp (so_impl s1)) = secs" "tcp_tmilli (im_tcp (so_impl s1)) = us"
    using prepared [of "[]" S secs us e] by (auto split: bind_splits)
  have t: "itinerary [] (Some host) port = (Some host, port) # []" by (simp add: itinerary_def)
  have h: "host_of (Some host) = host" "\<not> no_server (Some host)" using o(2) by (simp_all add: host_of_def no_server_def)
  have a: "opens_with S (Some host) port (Api_connect (Some host) port)" by (simp add: opens_with_def)
  from ready_is_obstructed [OF 1(2) t _ _ _ _ a, of fd nb d] h o(1,3) d obtain s2 where
    2: "api_step S (Api_connect (Some host) port) s1 = Some (Ret_bool False, s2)"
      "impl_getError (so_impl s2) = obstacle_text S d"
    by (auto simp: 1(3,4))
  have "tidy s1" "tcp_sock (im_tcp (so_impl s1)) = 0" using 1(2) by (simp_all add: ready_def tidy_def)
  then have s2: "tidy s2" using tidy_dial [OF 2(1)] obstructed_nonzero [OF o(1)] by blast
  then obtain h w where "socket_delete S s2 = Some (h, w)"
    using socket_delete_inv [of no_others "{#}" s2 S] by (auto simp: tidy_def)
  moreover from tidy_delete [OF s2 this] have "balanced w" .
  ultimately show ?thesis using 1(1) 2 by auto
qed

lemma five_seconds: "timeout_ms (conn_new\<lparr>conn_tsecs := 5, conn_tmicro := 0\<rparr>) \<noteq> 0"
  by (simp add: timeout_ms_def int32_id)

lemma away_blocks_pass:
  assumes b: "(cs, host) \<in> set (away_blocks port)" and o: "obstructed S fd nb host d" "strerror_speaks S" "0 < port"
  shows "\<exists>w. run_block S cs (start e) = Some (True, w) \<and> balanced w"
proof -
  have "\<exists>p. cs = failing_checks host p \<and> host \<noteq> [] \<and> 0 < p"
    using b o(3) by (auto simp: away_blocks_def contract_refused_def contract_unresolved_def)
  then obtain p where p: "cs = failing_checks host p" "host \<noteq> []" "0 < p" by blast
  obtain s h w where s: "api_run S [Api_setTimeout 5 0, Api_connect (Some host) p, Api_getError] (socket_new (start e))
      = Some ([Ret_void, Ret_bool False, Ret_error (obstacle_text S d)], s)"
    "impl_getError (so_impl s) = obstacle_text S d" "socket_delete S s = Some (h, w)" "balanced w"
    using attempt_fails [OF o(1) p(2,3), where secs = 5 and us = 0 and e = e] five_seconds by blast
  have again: "api_run S [Api_getError] s = Some ([Ret_error (obstacle_text S d)], s)" using s(2) by simp
  have "obstacle_text S d \<noteq> []" using o(2) by (cases d) (simp_all add: strerror_speaks_def)
  then show ?thesis
    using api_run_chain [OF s(1) again] s(3,4)
    by (simp add: run_block_def p(1) failing_checks_def check_simps del: api_run.simps)
qed

text \<open>test\_connect\_error.cpp: the timeout does not change what a refusal is called.\<close>

lemma refusalError_same:
  assumes o: "obstructed S fd nb ''127.0.0.1'' (Refused n)" "0 < port"
  shows "\<exists>w. refusalError S port withTimeout (start e) = Some (True, Ret_error (sys_strerror S n), w) \<and> balanced w"
proof (cases withTimeout)
  case True
  then show ?thesis
    using attempt_fails [OF o(1) _ o(2), where secs = 5 and us = 0 and e = e] by (auto simp: refusalError_def is_bool_def simp del: api_run.simps)
next
  case False
  from attempt_fails [OF o(1) _ o(2), where secs = 0 and us = 0 and e = e] obtain s h w where
    "api_run S [Api_connect (Some ''127.0.0.1'') port, Api_getError] (socket_new (start e))
      = Some ([Ret_bool False, Ret_error (sys_strerror S n)], s)" "socket_delete S s = Some (h, w)" "balanced w"
    by (auto simp: fresh_timeout simp del: api_step.simps split: bind_splits)
  then show ?thesis using False by (simp add: refusalError_def is_bool_def del: api_run.simps)
qed

text \<open>
  C18. Tests of the library pass on every machine, not only on the one they ran on. The blocks with a peer
  that sends its text and closes hold all their checks wherever the peer can be reached, at whatever port,
  and leave no descriptor open. So do the blocks whose connection fails, wherever the host refuses, does
  not resolve, or never answers. The blocks that use a \<open>Socket\<close> without a host to connect to hold theirs
  and make no system call at all, whatever the machine.
\<close>

theorem library_tests_pass:
  assumes "reachable_host S fd rx ip (Some ''127.0.0.1'', port) 5 0"
    "reachable_host S fd rx ip (Some ''127.0.0.1'', port) 10 0"
    and "(cs, bs) \<in> set (peer_blocks port)" "rx e = bs"
    and "obstructed T fd' nb host d" "strerror_speaks T" "0 < p" "(failing, host) \<in> set (away_blocks p)"
    and "idle \<in> set quiet_blocks"
  shows "(\<exists>w. run_block S cs (start e) = Some (True, w) \<and> opens w = closes w)
    \<and> (\<exists>w. run_block T failing (start u) = Some (True, w) \<and> opens w = closes w)
    \<and> run_block U idle w0 = Some (True, w0)"
proof (intro conjI)
  have "\<exists>w. run_block S cs (start e) = Some (True, w) \<and> balanced w"
    by (rule peer_blocks_pass [where S = S and rx = rx and fd = fd and ip = ip and port = port and e = e, OF _ assms(3,4)])
      (use assms(1,2) in auto)
  then show "\<exists>w. run_block S cs (start e) = Some (True, w) \<and> opens w = closes w" by (auto simp: balanced_def)
  show "\<exists>w. run_block T failing (start u) = Some (True, w) \<and> opens w = closes w"
    using away_blocks_pass [OF assms(8,5,6,7), of u] by (auto simp: balanced_def)
  show "run_block U idle w0 = Some (True, w0)"
    using assms(9)
    by (auto simp: quiet_blocks_def contract_fresh_def contract_unconnected_def contract_close_def contract_no_host_def
        lifetime_unconnected_def run_block_def run check_simps forever_unfold)
qed

lemma library_tests_pass_witness:
  "\<exists>w1 w2. run_block stream_sys (eof_dangling 80) (start (bytes_of (''complete'' @ crlf @ ''dangling''))) = Some (True, w1)
    \<and> opens w1 = closes w1 \<and> run_block refusing_sys (contract_refused 25) (start False) = Some (True, w2)
    \<and> opens w2 = closes w2 \<and> run_block script_sys contract_unconnected (start []) = Some (True, start [])"
proof -
  have h: "reachable_host stream_sys 3 (\<lambda>bs. bs) (\<lambda>h. []) (Some ''127.0.0.1'', 80) t 0" for t
    by (rule reachable_stream) simp_all
  have b: "(eof_dangling 80, bytes_of (''complete'' @ crlf @ ''dangling'')) \<in> set (peer_blocks 80)"
    by (simp add: peer_blocks_def)
  have t: "strerror_speaks refusing_sys" by (simp add: strerror_speaks_def refusing_sys_def)
  have f: "(contract_refused 25, ''127.0.0.1'') \<in> set (away_blocks 25)" by (simp add: away_blocks_def)
  have q: "contract_unconnected \<in> set quiet_blocks" by (simp add: quiet_blocks_def)
  let ?e = "bytes_of (''complete'' @ crlf @ ''dangling'')"
  from library_tests_pass [where S = stream_sys and fd = 3 and rx = "\<lambda>bs. bs" and ip = "\<lambda>h. []" and port = 80
      and cs = "eof_dangling 80" and bs = ?e and e = ?e and U = script_sys and idle = contract_unconnected and ?w0.0 = "start []"
      and u = False, OF h h b refl obstructed_refusing t _ f q]
  show ?thesis by simp
qed

end
