(* ===== verification/Spec2Isabelle.thy ===== *)
theory Spec2Isabelle
  imports Comm_Normal_Time Socket_Process Socket_Reuse Socket_Secure Socket_Types Socket_Messages Socket_Refusal
    Socket_Reading Test_Programs
begin

text \<open>
  RudeSocket: a C++ TCP client library with TLS, timeouts and proxy chains.

  \<^bold>\<open>The program.\<close> A program uses the class \<open>Socket\<close> (src/src/socket.h), which forwards to
  \<open>Rude_SocketImpl\<close>. The implementation builds a chain of connectors (\<open>Socket_Connect\<close>: the one that
  opens the TCP connection, then the proxies the program inserted) and a communication layer
  (\<open>Socket_Comm\<close>: plain, or TLS over OpenSSL), and hands both to one \<open>Socket_TCPClient\<close>, which owns the
  descriptor: it lets the chain connect, binds the layer to the descriptor, sends and reads through the
  layer, can replace a plain layer by a TLS one (\<open>startSSL\<close>), and closes.

  \<^bold>\<open>Outside the program.\<close> The socket calls, the resolver, the clock, \<open>errno\<close>, \<open>strerror\<close> and OpenSSL
  are a parameter of every definition: \<open>sys\<close> (Machine) has a step function from a call and an
  environment to an answer, and the build's preprocessor switches. The world logs each call and its
  answer, so what a program did is a list one can state things about. What a theorem needs from the
  outside is a hypothesis about the parameter:
    \<^item> \<open>socket_nonzero\<close>: \<open>socket\<close> never answers descriptor 0 (the code uses 0 for "none"), and
      \<open>fresh_opens\<close>: it never answers one that is in use;
    \<^item> \<open>prompt_peer\<close> (inside \<open>linked\<close>, \<open>tcp_linked\<close>): \<open>select\<close> reports the descriptor ready, a byte sent
      is taken, \<open>recv\<close> gives the next byte of the peer's stream, or 0 at its end;
    \<^item> \<open>ticking\<close> and \<open>pending_reads\<close> (Comm\_SSH\_Deadline): time passes with every call, \<open>select\<close> does
      not overrun, OpenSSL's error queue is finite, and data it announces can be read;
    \<^item> \<open>paced\<close> and \<open>lingering\<close> (Comm\_Normal\_Time): \<open>select\<close> keeps its limit, and the peer takes its time;
    \<^item> \<open>resolves\<close> (Connect\_Socks4) and \<open>resolver\<close> (Connect\_Session): the resolver's answers;
    \<^item> \<open>accepting\<close> (Connect\_Session), with \<open>prompt_peer\<close> and a resolver \<open>reachable_host\<close>: a host that can
      be connected to, at once or after a wait;
    \<^item> \<open>tls_peer\<close>, \<open>brisk\<close>, \<open>patient\<close> (Comm\_SSH\_Peer): a handshake that succeeds and a session that carries
      bytes, on a machine fast enough for the timeout;
    \<^item> \<open>counts_right\<close> (Socket\_Types): \<open>send\<close>, \<open>recv\<close> and their OpenSSL counterparts return counts in
      their documented ranges;
    \<^item> \<open>obstructed\<close> (Socket\_Unreachable): a host that refuses, does not resolve, or never answers, on a
      machine that keeps the blocking mode of the descriptor;
    \<^item> \<open>strerror_speaks\<close> (Connect\_Messages): \<open>strerror\<close> has a text for every error number.
  What proxies say is not a hypothesis about the parameter: \<open>hop_talk\<close> and \<open>chain_talk\<close> (Connect\_Session)
  relate what a proxy must hear to what it answers when it grants, as byte strings, \<open>hop_refusal\<close> and
  \<open>chain_refusal\<close> (Connect\_Refusal) when one refuses.
  Each has a concrete instance (\<open>stream_sys\<close>, \<open>stalled_sys\<close>, \<open>script_sys\<close>, \<open>picky_sys\<close>, \<open>drip_sys\<close>,
  \<open>refusing_sys\<close>) on which the worked examples evaluate the program.

  \<^bold>\<open>What a definition returns.\<close> \<open>None\<close> is "no defined result": a loop that does not end, an access
  through a dangling pointer, a store outside an array. Loops the code does not bound are \<open>forever\<close>
  (Prelude), a \<open>partial_function\<close>, so that returning is something to prove; no fuel is used anywhere.
  Integers of type \<open>int\<close> are HOL integers with \<open>int32\<close> where the code's arithmetic can wrap; bytes are
  words of eight bits; connectors live in an explicit store (\<open>heap\<close>) because pointers to them are
  shared, while a layer has one owner and is a value.

  \<^bold>\<open>The theories\<close>, in the order of the code:
    \<^item> Prelude: data and its conversions, the calculus of partial programs (\<open>post\<close> for what holds if a
      program returns, \<open>yields\<close> for what it returns), \<open>forever\<close> and its rules.
    \<^item> Machine: the calls, the world, ledgers of what was opened and closed, made and freed; what
      each class of calls keeps; \<open>emits P w w'\<close>: from \<open>w\<close> to \<open>w'\<close> only calls in \<open>P\<close> were made.
    \<^item> Byte\_Source: the locale of a reader of single bytes over a stream, against which the three
      reading loops are verified once.
    \<^item> Comm\_Base (socket\_comm.cpp): the base class; the locale \<open>comm_layer\<close> is what its template
      methods rely on in a subclass.
    \<^item> Comm\_Normal (socket\_comm\_normal.cpp), Comm\_SSH (socket\_comm\_ssh.cpp): the two layers and what
      each call of theirs keeps; Comm\_Normal\_Time: what a timeout bounds in the plain one;
      Comm\_SSH\_Deadline: the loops of the TLS one end by the deadline;
      Comm\_SSH\_Session: the descriptor's mode and the configuration of the handshake; Comm\_SSH\_Peer:
      the layer with a peer that answers; Comm: dispatch; Comm\_Messages: the locale \<open>telling_layer\<close>, a
      layer whose every failure leaves a message, met by both.
    \<^item> Connect (socket\_connect.cpp): the store of connectors; Connect\_Normal
      (socket\_connect\_normal.cpp, socket\_connect\_tunnel.cpp), Connect\_Proxy, Connect\_Socks4,
      Connect\_Socks5 (the files of those names): the negotiations; Connect\_Chain: \<open>connect\<close> over a chain, and
      \<open>follow\<close>, the plain walk that specifies it; Connect\_Session: a chain whose proxies all grant what
      they are asked; Connect\_Refusal: one with a proxy that does not; Connect\_Messages: what a
      connector says when it fails.
    \<^item> TCPClient, TCPClient\_Session (socket\_tcpclient.cpp): the client, its books (one descriptor,
      the handles of one layer), its reading loops, and the life of a connection.
    \<^item> SocketImpl (rude\_socketimpl.cpp): the invariant \<open>impl_ok\<close> of the pointers into the store, what
      \<open>connect\<close> does to the chain.
    \<^item> Socket\_API (socket.cpp): the class as a step function over its methods (\<open>api_step\<close>), a program
      as a list of calls (\<open>api_run\<close>), the invariant \<open>socket_inv\<close> of every run; the locale \<open>line_channel\<close>,
      a connected socket as a channel of lines, and dialogues over it.
    \<^item> Socket\_Closed, Socket\_Calls, Socket\_Phases: what runs do between \<open>close\<close> and \<open>connect\<close>, which
      system calls they make, and the four-phase state machine they refine.
    \<^item> Socket\_Session, Socket\_Reuse, Socket\_Secure: whole sessions from \<open>setTimeout\<close> to \<open>close\<close>, over
      proxies, one after another on one object, and over TLS from the start or after an upgrade.
    \<^item> Socket\_Refusal, Socket\_Unreachable, Socket\_Messages: sessions that a proxy refuses, hosts that cannot be
      reached, and what \<open>getError\<close> says after any failure. Socket\_Reading: a \<open>read\<close> as two shorter ones. Socket\_Types: the type of every result.
    \<^item> Line\_Loop (tests/test\_readline\_eof.cpp): the loop the documentation shows,
      \<open>while ((line = socket.readline()) != 0)\<close>, verified once in the locale \<open>line_source\<close> and used for plain
      and for TLS sockets; Test\_Programs: blocks of the tests as lists of calls with their checks.
    \<^item> Socket\_Process: any number of sockets in one process, as a step relation with its invariant.
    \<^item> Example\_Demo (src/examples/demo.cpp): a program over the class.

  \<^bold>\<open>What is shown.\<close> Resources: over any run, of one socket or of several whose calls interleave, no
  descriptor is leaked or closed twice, and every OpenSSL handle and every connector of a connection is
  freed; only open descriptors are closed, and two connected sockets never hold the same one
  (Socket\_API, Socket\_Process). Sessions: against proxies that grant and a peer that answers, every call of
  a whole session succeeds, with exactly the connectors' requests and the program's lines on the wire and nothing left
  open (Socket\_Session, Socket\_Reuse, Socket\_Secure); the class refines a
  state machine, and what became secure stays so and sends nothing past TLS (Socket\_Phases,
  Socket\_Calls). Protocols: what the SOCKS4, SOCKS5 and CONNECT clients send and accept, byte for byte, and that a
  server's decoder reads the whole of a SOCKS5 client's side back. Text: lines round trip from one program to
  another; what \<open>reads\<close> and \<open>readline\<close> return in every case; reading lines until null ends, over TLS
  too; over a plain layer it does not matter how a buffer is cut into reads. Types: each
  method returns a value of its documented range, the buffers' bounds included. Time: the timed loops over TLS end by a
  deadline fixed at the start, those of the plain layer after one timeout for each byte, and the waits of a timed connect are the ones asked for. Errors: a
  failure reports the reason of the step that failed, through the \<open>errno\<close> juggling and up the chain;
  every failure leaves a message, but for a SOCKS5 server's answer that is cut short; a proxy that
  refuses stops the session, and nothing the program then says or asks reaches it; a host that cannot be reached is reported alike with
  and without a timeout. Tests: blocks of the library's own tests
  pass on every machine that meets the hypotheses.
  Some theorems show what the code does where its documentation says something else: the order of
  the proxies, reconnecting over proxies, long SOCKS5 names, the port of a SOCKS4 request, partial
  sends, IP literals, timeouts that hold for each byte, the layer after a failed \<open>startSSL\<close>, domain names in
  SOCKS5 replies that a signed length cuts short, an empty text sent on a closed socket, an older message
  that hides a newer one in a build without OpenSSL.

  \<^bold>\<open>Not modelled.\<close> The Windows branches and the branches for OpenSSL before 1.1.0 (the model is the POSIX
  build with a current OpenSSL, with or without TLS support); progress messages (\<open>setMessage\<close>,
  \<open>setMessageStream\<close>), which the code discards; socket\_platform.h, which has only types and constants. Of the
  tests the blocks whose peer is absent or sends a text and closes are definitions (test\_readline\_eof.cpp, the first blocks of
  test\_contract.cpp, the \<open>close\<close> blocks of test\_socket\_lifetime.cpp, the comparison of test\_connect\_error.cpp); the others talk to servers in
  threads that answer what they hear (echo, TLS), and their scenarios are the worked examples of Socket\_Reuse and
  Socket\_Secure. A failed \<open>socket\<close> call is
  treated as the code treats it: -1 passes for a descriptor. Copying a \<open>Socket\<close> (its pointer would be deleted twice) is not a call of the model.
  Threads are not treated: the calls of a process interleave whole.
\<close>

end
